(* ===== verification/Prelude.thy ===== *)
theory Prelude
  imports Main "HOL-Library.Word"
begin

text \<open>
  Shared ground of the defib development: Python bytes and integers, the exceptions the
  sources raise, the state-and-exception computations the asynchronous code is translated to,
  and the generic lemmas the components use.
\<close>

unbundle bit_operations_syntax

section \<open>Bytes, times, exceptions\<close>

text \<open>
  A Python \<open>bytes\<close> value is a list of 8-bit words; a Python integer is an \<^typ>\<open>int\<close>.
  Times and durations are whole microseconds.
\<close>

type_synonym byte = "8 word"
type_synonym bytes = "8 word list"
type_synonym usec = int

text \<open>
  The exception classes the sources raise or catch. A message is not part of the value.
\<close>

datatype exn =
    TransportTimeout | TransportError | NotImplementedError
  | ValueError | StructError | IndexError | KeyError | RuntimeError | AssertionError
  | UnboundLocalError | FileNotFoundError | UnicodeDecodeError
  | FrameError | ProtocolError | LoaderFormatError | RockusbError | RockusbUsbError
  | PowerControllerError | TimeoutError | OSError | BlockingIOError | SerialTimeoutException
  | ZeroDivisionError | USBError | IncompleteReadError | OverflowError | JSONDecodeError | ConnectionError | IPManagerError
  | OtherError

named_theorems io_defs \<open>definitions of the computation combinators\<close>
named_theorems wp \<open>weakest-precondition equations\<close>
named_theorems frame_defs \<open>definitions of frames, headers and magic numbers\<close>

section \<open>Computations\<close>

text \<open>
  A computation over a world of type \<^typ>\<open>'s\<close> either does not return (\<^const>\<open>None\<close>: a
  read that waits for ever, or a loop that used up its fuel), or returns an exception
  (\<^const>\<open>Inl\<close>) or a value (\<^const>\<open>Inr\<close>) together with the new world.
\<close>

type_synonym ('s, 'a) io = "'s \<Rightarrow> ((exn + 'a) \<times> 's) option"

definition io_return :: "'a \<Rightarrow> ('s, 'a) io" where
  "io_return a = (\<lambda>s. Some (Inr a, s))"

definition io_raise :: "exn \<Rightarrow> ('s, 'a) io" where
  "io_raise e = (\<lambda>s. Some (Inl e, s))"

definition io_lift :: "exn + 'a \<Rightarrow> ('s, 'a) io" where
  "io_lift r = (\<lambda>s. Some (r, s))"

definition io_diverge :: "('s, 'a) io" where
  "io_diverge = (\<lambda>s. None)"

definition io_get :: "('s \<Rightarrow> 'a) \<Rightarrow> ('s, 'a) io" where
  "io_get f = (\<lambda>s. Some (Inr (f s), s))"

definition io_modify :: "('s \<Rightarrow> 's) \<Rightarrow> ('s, unit) io" where
  "io_modify f = (\<lambda>s. Some (Inr (), f s))"

text \<open>
  \<open>io_try m h k\<close> is Python's \<open>try: x = m; except e: h; else: k\<close>: the
  continuation \<open>k\<close> is not covered by the handler.
\<close>

definition io_try :: "('s, 'a) io \<Rightarrow> (exn \<Rightarrow> ('s, 'b) io) \<Rightarrow> ('a \<Rightarrow> ('s, 'b) io) \<Rightarrow> ('s, 'b) io" where
  "io_try m h k = (\<lambda>s. case m s of
     None \<Rightarrow> None
   | Some (Inl e, s') \<Rightarrow> h e s'
   | Some (Inr a, s') \<Rightarrow> k a s')"

definition io_bind :: "('s, 'a) io \<Rightarrow> ('a \<Rightarrow> ('s, 'b) io) \<Rightarrow> ('s, 'b) io" where
  "io_bind m k = io_try m io_raise k"

definition io_then :: "('s, 'a) io \<Rightarrow> ('s, 'b) io \<Rightarrow> ('s, 'b) io" where
  "io_then m k = io_bind m (\<lambda>_. k)"

text \<open>Python's \<open>try: m; finally: f\<close>, and a computation on a part of the world.\<close>

definition io_finally :: "('s, 'a) io \<Rightarrow> ('s, unit) io \<Rightarrow> ('s, 'a) io" where
  "io_finally m f = io_try m (\<lambda>e. io_then f (io_raise e)) (\<lambda>a. io_then f (io_return a))"

definition io_on :: "('w \<Rightarrow> 's) \<Rightarrow> ('s \<Rightarrow> 'w \<Rightarrow> 'w) \<Rightarrow> ('s, 'a) io \<Rightarrow> ('w, 'a) io" where
  "io_on part put m = (\<lambda>w. map_option (\<lambda>(r, s). (r, put s w)) (m (part w)))"

lemmas io_basic_defs [io_defs] =
  io_return_def io_raise_def io_lift_def io_diverge_def io_get_def io_modify_def
  io_try_def io_bind_def io_then_def io_finally_def io_on_def

lemma io_bind_return [simp]: "io_bind (io_return a) k = k a"
  by (simp add: io_defs)

lemma io_bind_raise [simp]: "io_bind (io_raise e) k = io_raise e"
  by (simp add: io_defs)

lemma io_bind_assoc: "io_bind (io_bind m f) g = io_bind m (\<lambda>x. io_bind (f x) g)"
  by (auto simp: io_defs fun_eq_iff split: option.split prod.split sum.split)

text \<open>
  Partial correctness: every result of \<open>m\<close> from \<open>s\<close>, exceptional or not, satisfies
  \<open>Q\<close>. That a computation does return is always stated apart.
\<close>

definition wlp :: "('s, 'a) io \<Rightarrow> 's \<Rightarrow> (exn + 'a \<Rightarrow> 's \<Rightarrow> bool) \<Rightarrow> bool" where
  "wlp m s Q = (case m s of None \<Rightarrow> True | Some (r, s') \<Rightarrow> Q r s')"

text \<open>Total correctness: the computation returns, and its result satisfies \<open>Q\<close>.\<close>

definition twp :: "('s, 'a) io \<Rightarrow> 's \<Rightarrow> (exn + 'a \<Rightarrow> 's \<Rightarrow> bool) \<Rightarrow> bool" where
  "twp m s Q = (case m s of None \<Rightarrow> False | Some (r, s') \<Rightarrow> Q r s')"

definition returns :: "('s, 'a) io \<Rightarrow> 's \<Rightarrow> bool" where
  "returns m s \<longleftrightarrow> m s \<noteq> None"

lemma wlp_return [wp]: "wlp (io_return a) s Q = Q (Inr a) s"
  by (simp add: wlp_def io_defs)

lemma wlp_raise [wp]: "wlp (io_raise e) s Q = Q (Inl e) s"
  by (simp add: wlp_def io_defs)

lemma wlp_lift [wp]: "wlp (io_lift r) s Q = Q r s"
  by (simp add: wlp_def io_defs)

lemma wlp_diverge [wp]: "wlp io_diverge s Q = True"
  by (simp add: wlp_def io_defs)

lemma wlp_get [wp]: "wlp (io_get f) s Q = Q (Inr (f s)) s"
  by (simp add: wlp_def io_defs)

lemma wlp_modify [wp]: "wlp (io_modify f) s Q = Q (Inr ()) (f s)"
  by (simp add: wlp_def io_defs)

lemma wlp_try [wp]:
  "wlp (io_try m h k) s Q =
     wlp m s (\<lambda>r s'. case r of Inl e \<Rightarrow> wlp (h e) s' Q | Inr a \<Rightarrow> wlp (k a) s' Q)"
  by (auto simp: wlp_def io_defs split: option.split prod.split sum.split)

lemma wlp_bind [wp]:
  "wlp (io_bind m k) s Q =
     wlp m s (\<lambda>r s'. case r of Inl e \<Rightarrow> Q (Inl e) s' | Inr a \<Rightarrow> wlp (k a) s' Q)"
  by (auto simp: wlp_def io_defs split: option.split prod.split sum.split)

lemma wlp_then [wp]:
  "wlp (io_then m k) s Q =
     wlp m s (\<lambda>r s'. case r of Inl e \<Rightarrow> Q (Inl e) s' | Inr a \<Rightarrow> wlp k s' Q)"
  by (simp add: io_then_def wlp_bind)

lemma wlp_finally [wp]:
  "wlp (io_finally m f) s Q = wlp m s (\<lambda>r s'. wlp f s' (\<lambda>rf s''. case rf of Inl e \<Rightarrow> Q (Inl e) s'' | Inr _ \<Rightarrow> Q r s''))"
  by (auto simp: wlp_def io_defs split: option.split sum.split)

lemma wlp_on [wp]: "wlp (io_on part put m) w Q = wlp m (part w) (\<lambda>r s'. Q r (put s' w))"
  by (auto simp: wlp_def io_defs split: option.split)

lemma wlp_if [wp]: "wlp (if b then m else n) s Q = (if b then wlp m s Q else wlp n s Q)"
  by simp

lemma wlp_mono: "wlp m s Q \<Longrightarrow> (\<And>r s'. Q r s' \<Longrightarrow> R r s') \<Longrightarrow> wlp m s R"
  by (auto simp: wlp_def split: option.splits)

lemma wlp_conj: "wlp m s P \<Longrightarrow> wlp m s Q \<Longrightarrow> wlp m s (\<lambda>r s'. P r s' \<and> Q r s')"
  by (auto simp: wlp_def split: option.splits)

lemma wlp_Some: "wlp m s Q \<Longrightarrow> m s = Some (r, s') \<Longrightarrow> Q r s'"
  by (simp add: wlp_def)

lemma twp_return [wp]: "twp (io_return a) s Q = Q (Inr a) s"
  by (simp add: twp_def io_defs)

lemma twp_raise [wp]: "twp (io_raise e) s Q = Q (Inl e) s"
  by (simp add: twp_def io_defs)

lemma twp_lift [wp]: "twp (io_lift r) s Q = Q r s"
  by (simp add: twp_def io_defs)

lemma twp_diverge [wp]: "twp io_diverge s Q = False"
  by (simp add: twp_def io_defs)

lemma twp_get [wp]: "twp (io_get f) s Q = Q (Inr (f s)) s"
  by (simp add: twp_def io_defs)

lemma twp_modify [wp]: "twp (io_modify f) s Q = Q (Inr ()) (f s)"
  by (simp add: twp_def io_defs)

lemma twp_try [wp]:
  "twp (io_try m h k) s Q =
     twp m s (\<lambda>r s'. case r of Inl e \<Rightarrow> twp (h e) s' Q | Inr a \<Rightarrow> twp (k a) s' Q)"
  by (auto simp: twp_def io_defs split: option.split prod.split sum.split)

lemma twp_bind [wp]:
  "twp (io_bind m k) s Q =
     twp m s (\<lambda>r s'. case r of Inl e \<Rightarrow> Q (Inl e) s' | Inr a \<Rightarrow> twp (k a) s' Q)"
  by (auto simp: twp_def io_defs split: option.split prod.split sum.split)

lemma twp_then [wp]:
  "twp (io_then m k) s Q =
     twp m s (\<lambda>r s'. case r of Inl e \<Rightarrow> Q (Inl e) s' | Inr a \<Rightarrow> twp k s' Q)"
  by (simp add: io_then_def twp_bind)

lemma twp_finally [wp]:
  "twp (io_finally m f) s Q = twp m s (\<lambda>r s'. twp f s' (\<lambda>rf s''. case rf of Inl e \<Rightarrow> Q (Inl e) s'' | Inr _ \<Rightarrow> Q r s''))"
  by (auto simp: twp_def io_defs split: option.split sum.split)

lemma twp_on [wp]: "twp (io_on part put m) w Q = twp m (part w) (\<lambda>r s'. Q r (put s' w))"
  by (auto simp: twp_def io_defs split: option.split)

lemma twp_if [wp]: "twp (if b then m else n) s Q = (if b then twp m s Q else twp n s Q)"
  by simp

lemma twp_mono: "twp m s Q \<Longrightarrow> (\<And>r s'. Q r s' \<Longrightarrow> R r s') \<Longrightarrow> twp m s R"
  by (auto simp: twp_def split: option.splits)

lemma twp_combine: "twp m s P \<Longrightarrow> wlp m s Q \<Longrightarrow> twp m s Q"
  by (auto simp: twp_def wlp_def split: option.splits)

lemma twp_Some: "twp m s Q \<Longrightarrow> \<exists>r s'. m s = Some (r, s') \<and> Q r s'"
  by (auto simp: twp_def split: option.splits)

lemma twp_returns: "twp m s Q \<Longrightarrow> returns m s"
  by (auto simp: twp_def returns_def split: option.splits)

lemma returns_twp: "returns m s = twp m s (\<lambda>_ _. True)"
  by (auto simp: twp_def returns_def split: option.split)

lemma twp_wlp_iff: "twp m s Q \<longleftrightarrow> returns m s \<and> wlp m s Q"
  by (auto simp: twp_def wlp_def returns_def split: option.split)

section \<open>Bytes\<close>

lemma ex_replicate [simp]:
  "\<exists>k. [] = replicate k x" "\<exists>k. [x] = replicate k x" "\<exists>k. [x, x] = replicate k x"
  by (metis replicate_0) (metis replicate_0 replicate_Suc)+

text \<open>Python slicing \<open>xs[a:b]\<close> for non-negative bounds.\<close>

definition pyslice :: "nat \<Rightarrow> nat \<Rightarrow> 'a list \<Rightarrow> 'a list" where
  "pyslice a b xs = take (b - a) (drop a xs)"

lemma length_pyslice [simp]: "length (pyslice a b xs) = min (b - a) (length xs - a)"
  by (simp add: pyslice_def)

lemma pyslice_append_take: "a \<le> b \<Longrightarrow> take a xs @ pyslice a b xs = take b xs"
  by (simp add: pyslice_def take_add [symmetric])

text \<open>\<open>s.find(pat, start)\<close>, with no result for \<open>-1\<close>, and \<open>pat in s\<close>.\<close>

definition find_sub :: "'a list \<Rightarrow> nat \<Rightarrow> 'a list \<Rightarrow> nat option" where
  "find_sub pat start s = List.find (\<lambda>i. take (length pat) (drop i s) = pat) [start..<Suc (length s)]"

definition contains_sub :: "'a list \<Rightarrow> 'a list \<Rightarrow> bool" where
  "contains_sub pat s \<longleftrightarrow> find_sub pat 0 s \<noteq> None"

lemma find_sub_Some:
  "find_sub pat start s = Some i \<Longrightarrow> start \<le> i \<and> i \<le> length s \<and> take (length pat) (drop i s) = pat"
  by (auto simp: find_sub_def find_Some_iff simp del: upt_Suc)

lemma find_sub_first:
  assumes "start \<le> i" "i \<le> length s" "take (length pat) (drop i s) = pat"
    "\<And>j. start \<le> j \<Longrightarrow> j < i \<Longrightarrow> take (length pat) (drop j s) \<noteq> pat"
  shows "find_sub pat start s = Some i"
  unfolding find_sub_def find_Some_iff
  using assms by (intro exI [of _ "i - start"]) (auto simp del: upt_Suc)

text \<open>
  Fixed-width integers of the \<open>struct\<close> module: the encodings, most and least significant
  byte first, and the packing functions, which raise \<open>struct.error\<close> out of range.
\<close>

fun le_bytes :: "nat \<Rightarrow> int \<Rightarrow> bytes" where
  "le_bytes 0 v = []"
| "le_bytes (Suc n) v = word_of_int v # le_bytes n (v div 256)"

definition be_bytes :: "nat \<Rightarrow> int \<Rightarrow> bytes" where
  "be_bytes n v = rev (le_bytes n v)"

fun le_val :: "bytes \<Rightarrow> int" where
  "le_val [] = 0"
| "le_val (b # bs) = uint b + 256 * le_val bs"

definition be_val :: "bytes \<Rightarrow> int" where
  "be_val bs = le_val (rev bs)"

definition pack_le :: "nat \<Rightarrow> int \<Rightarrow> exn + bytes" where
  "pack_le n v = (if 0 \<le> v \<and> v < 256 ^ n then Inr (le_bytes n v) else Inl StructError)"

definition pack_be :: "nat \<Rightarrow> int \<Rightarrow> exn + bytes" where
  "pack_be n v = (if 0 \<le> v \<and> v < 256 ^ n then Inr (be_bytes n v) else Inl StructError)"

lemma length_le_bytes [simp]: "length (le_bytes n v) = n"
  by (induction n arbitrary: v) auto

lemma length_be_bytes [simp]: "length (be_bytes n v) = n"
  by (simp add: be_bytes_def)

lemma uint_word_of_int_8 [simp]: "uint (word_of_int v :: byte) = v mod 256"
  by (simp add: uint_word_of_int)

lemma word_of_int_and_255 [simp]: "(word_of_int (v AND 0xFF) :: byte) = word_of_int v"
proof -
  have "(word_of_int (v AND 0xFF) :: byte) = word_of_int v AND word_of_int 0xFF"
    by (simp only: word_wi_log_defs)
  also have "(word_of_int 0xFF :: byte) = - 1" by simp
  finally show ?thesis by simp
qed

lemma le_val_le_bytes: "le_val (le_bytes n v) = v mod 256 ^ n"
proof (induction n arbitrary: v)
  case 0
  then show ?case by simp
next
  case (Suc n)
  have "v mod 256 ^ Suc n = v mod 256 + 256 * (v div 256 mod 256 ^ n)"
    using zmod_zmult2_eq [of "256 ^ n" v 256] by (simp add: mult.commute)
  with Suc show ?case by simp
qed

lemma be_val_be_bytes: "be_val (be_bytes n v) = v mod 256 ^ n"
  by (simp add: be_val_def be_bytes_def le_val_le_bytes)

lemma le_val_bounds: "0 \<le> le_val bs \<and> le_val bs < 256 ^ length bs"
proof (induction bs)
  case (Cons b bs)
  have "uint b < 256" "0 \<le> uint b"
    using uint_lt2p [of b] by simp_all
  with Cons show ?case by simp
qed simp

lemma be_val_bounds: "0 \<le> be_val bs \<and> be_val bs < 256 ^ length bs"
  using le_val_bounds [of "rev bs"] by (simp add: be_val_def)

lemma le_bytes_le_val: "length bs = n \<Longrightarrow> le_bytes n (le_val bs) = bs"
proof (induction bs arbitrary: n)
  case (Cons b bs)
  have b: "uint b < 256" "0 \<le> uint b"
    using uint_lt2p [of b] by simp_all
  then have "(uint b + 256 * le_val bs) div 256 = le_val bs"
    by simp
  moreover have "(256 :: byte) = 0" by simp
  then have "word_of_int (uint b + 256 * le_val bs) = b"
    by (simp only: wi_hom_syms word_of_int_numeral word_of_int_uint mult_zero_left add_0_right)
  ultimately show ?case using Cons by auto
qed simp

lemma be_bytes_be_val: "length bs = n \<Longrightarrow> be_bytes n (be_val bs) = bs"
  by (simp add: be_bytes_def be_val_def le_bytes_le_val)

end
