(* ===== verification/Crc.thy ===== *)
theory Crc
  imports Prelude
begin

text \<open>
  \<open>src/defib/protocol/crc.py\<close>: the table-driven CRC-16 of the HiSilicon boot protocol. The
  source keeps its accumulator in an unbounded Python integer that is masked only at the end,
  so the model computes over \<^typ>\<open>int\<close>. The reference is polynomial division over single
  bits in a 16-bit register; the table, the unmasked accumulator and the detection of single
  corrupted bytes are related to it.
\<close>

unbundle bit_operations_syntax

section \<open>The code\<close>

definition CRC_TABLE :: "int list" where
  "CRC_TABLE = [
    0x0000, 0x1021, 0x2042, 0x3063, 0x4084, 0x50A5, 0x60C6, 0x70E7,
    0x8108, 0x9129, 0xA14A, 0xB16B, 0xC18C, 0xD1AD, 0xE1CE, 0xF1EF,
    0x1231, 0x0210, 0x3273, 0x2252, 0x52B5, 0x4294, 0x72F7, 0x62D6,
    0x9339, 0x8318, 0xB37B, 0xA35A, 0xD3BD, 0xC39C, 0xF3FF, 0xE3DE,
    0x2462, 0x3443, 0x0420, 0x1401, 0x64E6, 0x74C7, 0x44A4, 0x5485,
    0xA56A, 0xB54B, 0x8528, 0x9509, 0xE5EE, 0xF5CF, 0xC5AC, 0xD58D,
    0x3653, 0x2672, 0x1611, 0x0630, 0x76D7, 0x66F6, 0x5695, 0x46B4,
    0xB75B, 0xA77A, 0x9719, 0x8738, 0xF7DF, 0xE7FE, 0xD79D, 0xC7BC,
    0x48C4, 0x58E5, 0x6886, 0x78A7, 0x0840, 0x1861, 0x2802, 0x3823,
    0xC9CC, 0xD9ED, 0xE98E, 0xF9AF, 0x8948, 0x9969, 0xA90A, 0xB92B,
    0x5AF5, 0x4AD4, 0x7AB7, 0x6A96, 0x1A71, 0x0A50, 0x3A33, 0x2A12,
    0xDBFD, 0xCBDC, 0xFBBF, 0xEB9E, 0x9B79, 0x8B58, 0xBB3B, 0xAB1A,
    0x6CA6, 0x7C87, 0x4CE4, 0x5CC5, 0x2C22, 0x3C03, 0x0C60, 0x1C41,
    0xEDAE, 0xFD8F, 0xCDEC, 0xDDCD, 0xAD2A, 0xBD0B, 0x8D68, 0x9D49,
    0x7E97, 0x6EB6, 0x5ED5, 0x4EF4, 0x3E13, 0x2E32, 0x1E51, 0x0E70,
    0xFF9F, 0xEFBE, 0xDFDD, 0xCFFC, 0xBF1B, 0xAF3A, 0x9F59, 0x8F78,
    0x9188, 0x81A9, 0xB1CA, 0xA1EB, 0xD10C, 0xC12D, 0xF14E, 0xE16F,
    0x1080, 0x00A1, 0x30C2, 0x20E3, 0x5004, 0x4025, 0x7046, 0x6067,
    0x83B9, 0x9398, 0xA3FB, 0xB3DA, 0xC33D, 0xD31C, 0xE37F, 0xF35E,
    0x02B1, 0x1290, 0x22F3, 0x32D2, 0x4235, 0x5214, 0x6277, 0x7256,
    0xB5EA, 0xA5CB, 0x95A8, 0x8589, 0xF56E, 0xE54F, 0xD52C, 0xC50D,
    0x34E2, 0x24C3, 0x14A0, 0x0481, 0x7466, 0x6447, 0x5424, 0x4405,
    0xA7DB, 0xB7FA, 0x8799, 0x97B8, 0xE75F, 0xF77E, 0xC71D, 0xD73C,
    0x26D3, 0x36F2, 0x0691, 0x16B0, 0x6657, 0x7676, 0x4615, 0x5634,
    0xD94C, 0xC96D, 0xF90E, 0xE92F, 0x99C8, 0x89E9, 0xB98A, 0xA9AB,
    0x5844, 0x4865, 0x7806, 0x6827, 0x18C0, 0x08E1, 0x3882, 0x28A3,
    0xCB7D, 0xDB5C, 0xEB3F, 0xFB1E, 0x8BF9, 0x9BD8, 0xABBB, 0xBB9A,
    0x4A75, 0x5A54, 0x6A37, 0x7A16, 0x0AF1, 0x1AD0, 0x2AB3, 0x3A92,
    0xFD2E, 0xED0F, 0xDD6C, 0xCD4D, 0xBDAA, 0xAD8B, 0x9DE8, 0x8DC9,
    0x7C26, 0x6C07, 0x5C64, 0x4C45, 0x3CA2, 0x2C83, 0x1CE0, 0x0CC1,
    0xEF1F, 0xFF3E, 0xCF5D, 0xDF7C, 0xAF9B, 0xBFBA, 0x8FD9, 0x9FF8,
    0x6E17, 0x7E36, 0x4E55, 0x5E74, 0x2E93, 0x3EB2, 0x0ED1, 0x1EF0]"

definition MAX_DATA_LEN :: nat where
  "MAX_DATA_LEN = 0x400"

definition ACK_BYTE :: bytes where
  "ACK_BYTE = [0xAA]"

definition crc_update :: "int \<Rightarrow> int \<Rightarrow> int" where
  "crc_update crc b = (push_bit 8 crc OR b) XOR CRC_TABLE ! nat (drop_bit 8 crc AND 0xFF)"

definition calc_crc_from :: "bytes \<Rightarrow> int \<Rightarrow> int" where
  "calc_crc_from data crc =
     (let crc = foldl (\<lambda>crc b. crc_update crc (uint b)) crc data;
          crc = crc_update crc 0;
          crc = crc_update crc 0
      in crc AND 0xFFFF)"

definition calc_crc :: "bytes \<Rightarrow> int" where
  "calc_crc data = calc_crc_from data 0"

definition append_crc :: "bytes \<Rightarrow> bytes" where
  "append_crc data =
     (let crc = calc_crc data
      in data @ [word_of_int (drop_bit 8 crc AND 0xFF), word_of_int (crc AND 0xFF)])"

definition append_crc_le :: "bytes \<Rightarrow> bytes" where
  "append_crc_le data =
     (let crc = calc_crc data
      in data @ [word_of_int (crc AND 0xFF), word_of_int (drop_bit 8 crc AND 0xFF)])"

definition verify_crc :: "bytes \<Rightarrow> bool" where
  "verify_crc frame =
     (if length frame < 3 then False
      else let payload = take (length frame - 2) frame;
               expected = push_bit 8 (uint (frame ! (length frame - 2)))
                            OR uint (frame ! (length frame - 1))
           in calc_crc payload = expected)"

section \<open>Reference: division by the CCITT polynomial, bit by bit\<close>

definition crc_bit :: "16 word \<Rightarrow> bool \<Rightarrow> 16 word" where
  "crc_bit c b = (push_bit 1 c OR of_bool b) XOR (if bit c 15 then 0x1021 else 0)"

definition byte_bits :: "byte \<Rightarrow> bool list" where
  "byte_bits b = map (bit b) [7, 6, 5, 4, 3, 2, 1, 0]"

definition crc_byte :: "16 word \<Rightarrow> byte \<Rightarrow> 16 word" where
  "crc_byte c b = foldl crc_bit c (byte_bits b)"

text \<open>The remainder of the message followed by sixteen zero bits.\<close>

definition crc_spec :: "bytes \<Rightarrow> 16 word" where
  "crc_spec data = foldl crc_bit 0 (concat (map byte_bits data) @ replicate 16 False)"

section \<open>The table step is eight division steps\<close>

text \<open>Division is linear over exclusive or, so it splits into the parts checked by computation.\<close>

lemma crc_bit_xor: "crc_bit (c XOR d) (a = (\<not> b)) = crc_bit c a XOR crc_bit d b"
proof -
  have "push_bit 1 (c XOR d) OR of_bool (a = (\<not> b))
      = (push_bit 1 c OR of_bool a) XOR (push_bit 1 d OR of_bool b)"
    by (rule bit_word_eqI) (auto simp: bit_simps simp del: push_bit_of_1 push_bit_Suc push_bit_numeral One_nat_def)
  then show ?thesis
    by (cases "bit c 15"; cases "bit d 15")
       (simp_all add: crc_bit_def bit_simps xor.assoc xor.commute xor.left_commute)
qed

lemma crc_byte_xor: "crc_byte (c XOR d) (a XOR b) = crc_byte c a XOR crc_byte d b"
  by (simp add: crc_byte_def byte_bits_def bit_simps crc_bit_xor)

lemma crc_table_doubling:
  "list_all (\<lambda>n. CRC_TABLE ! (2 * n) = (let v = CRC_TABLE ! n in if v < 32768 then 2 * v else (2 * v - 65536) XOR 0x1021)
     \<and> CRC_TABLE ! (2 * n + 1) = CRC_TABLE ! (2 * n) XOR 0x1021) [0..<128]"
  by code_simp

lemma bit_15_of_nat: "n < 2 ^ 16 \<Longrightarrow> bit (of_nat n :: 16 word) 15 \<longleftrightarrow> 2 ^ 15 \<le> n"
proof -
  assume "n < 2 ^ 16"
  then have "n div 2 ^ 15 = of_bool (2 ^ 15 \<le> n)"
    by (cases "n < 2 ^ 15") (auto intro!: div_nat_eqI)
  then have "bit n 15 \<longleftrightarrow> 2 ^ 15 \<le> n"
    by (simp add: bit_iff_odd)
  then show ?thesis by (simp add: bit_of_nat_iff possible_bit_def)
qed

lemma shift_in_of_nat:
  "push_bit 1 (of_nat n :: 16 word) OR of_bool b = of_nat (2 * n + of_bool b)"
proof -
  have "(2 * n) OR of_bool b = 2 * n + of_bool b"
    by (cases b) (simp_all add: or_Suc_0_eq)
  then have "of_nat (2 * n + of_bool b) = (of_nat (2 * n) :: 16 word) OR of_nat (of_bool b)"
    by (metis of_nat_or_eq)
  then show ?thesis by (simp add: push_bit_eq_mult mult.commute)
qed

lemma crc_bit_small: "n < 2 ^ 15 \<Longrightarrow> crc_bit (of_nat n) b = of_nat (2 * n + of_bool b)"
  using bit_15_of_nat [of n] shift_in_of_nat [of n b] by (simp add: crc_bit_def)

lemma foldl_crc_bit_small:
  "Suc n * 2 ^ length bs \<le> 2 ^ 16 \<Longrightarrow>
   foldl crc_bit (of_nat n) bs = of_nat (foldl (\<lambda>n x. 2 * n + of_bool x) n bs)"
proof (induction bs arbitrary: n)
  case (Cons b bs)
  have "Suc n * 2 \<le> Suc n * 2 ^ length (b # bs)"
    by (intro mult_le_mono2) simp
  with Cons.prems have n: "n < 2 ^ 15" by simp
  have "Suc (2 * n + of_bool b) * 2 ^ length bs \<le> (2 * Suc n) * 2 ^ length bs"
    by (intro mult_le_mono1) simp
  with Cons.prems have "Suc (2 * n + of_bool b) * 2 ^ length bs \<le> 2 ^ 16" by simp
  from Cons.IH [OF this] n show ?case by (simp add: crc_bit_small del: of_nat_add of_nat_mult)
qed simp

lemma byte_bits_value: "foldl (\<lambda>n x. 2 * n + of_bool x) 0 (byte_bits b) = unat b"
proof -
  have "byte_bits b = rev (map (bit b) [0..<8])"
    by (simp add: byte_bits_def upt_rec eval_nat_numeral)
  moreover have "foldr (\<lambda>x n. 2 * n + of_bool x) xs 0 = (horner_sum of_bool 2 xs :: nat)" for xs
    by (induction xs) auto
  moreover have "map (bit b) [0..<8] = map (bit (unat b)) [0..<8]"
    by (simp add: bit_unsigned_iff)
  ultimately show ?thesis
    by (simp add: foldl_conv_foldr horner_sum_bit_eq_take_bit take_bit_nat_eq_self_iff
        unsigned_less [of b, simplified])
qed

lemma foldl_bits_offset:
  "foldl (\<lambda>n x. 2 * n + of_bool x) n bs = n * 2 ^ length bs + foldl (\<lambda>n x. 2 * n + of_bool x) (0::nat) bs"
  by (induction bs rule: rev_induct) (auto simp: algebra_simps)

lemma crc_byte_small:
  assumes "n < 256"
  shows "crc_byte (of_nat n) b = of_nat (256 * n + unat b)"
proof -
  have "length (byte_bits b) = 8" by (simp add: byte_bits_def)
  with assms foldl_crc_bit_small [of n "byte_bits b"] foldl_bits_offset [of n "byte_bits b"]
  show ?thesis by (simp add: crc_byte_def byte_bits_value)
qed

lemma crc_table_range: "list_all (\<lambda>v. 0 \<le> v \<and> v < 65536) CRC_TABLE"
  by code_simp

lemma length_CRC_TABLE: "length CRC_TABLE = 256"
  by code_simp

lemma crc_table_bounds: "n < 256 \<Longrightarrow> 0 \<le> CRC_TABLE ! n \<and> CRC_TABLE ! n < 65536"
  using crc_table_range by (simp add: list_all_length length_CRC_TABLE)

lemma crc_bit_word_of_int:
  assumes "0 \<le> v" "v < 65536"
  shows "crc_bit (word_of_int v) False =
         word_of_int (if v < 32768 then 2 * v else (2 * v - 65536) XOR 0x1021)"
proof -
  define n where "n = nat v"
  have v: "v = int n" and n: "n < 2 ^ 16"
    using assms by (auto simp: n_def)
  have "(word_of_int (2 * v - 65536) :: 16 word) = word_of_int (2 * v)"
    by (simp only: wi_hom_syms) simp
  then have "(word_of_int ((2 * v - 65536) XOR 0x1021) :: 16 word) = word_of_int (2 * v) XOR word_of_int 0x1021"
    by (metis word_wi_log_defs(4))
  then show ?thesis
    using bit_15_of_nat [OF n] shift_in_of_nat [of n False]
    by (auto simp: crc_bit_def v mult.commute)
qed

lemma byte_bits_zero: "byte_bits 0 = replicate 8 False"
  by (simp add: byte_bits_def eval_nat_numeral)

lemma crc_byte_double:
  assumes "n < 2 ^ 15"
  shows "crc_byte (of_nat (2 * n)) 0 = crc_bit (crc_byte (of_nat n) 0) False"
proof -
  have "crc_byte (of_nat (2 * n)) 0 = foldl crc_bit (of_nat n) (replicate (Suc 8) False)"
    using crc_bit_small [OF assms, of False]
    by (simp only: crc_byte_def byte_bits_zero replicate_Suc foldl_Cons) simp
  also have "replicate (Suc 8) False = replicate 8 False @ [False]"
    by (simp only: replicate_append_same replicate_Suc)
  finally show ?thesis by (simp add: crc_byte_def byte_bits_zero)
qed

lemma xor_disjoint_of_nat:
  "n mod 2 ^ k = 0 \<Longrightarrow> m < 2 ^ k \<Longrightarrow> (of_nat (n + m) :: 16 word) = of_nat n XOR of_nat m"
proof -
  assume n: "n mod 2 ^ k = 0" and m: "m < 2 ^ k"
  have "n AND m = 0"
  proof (rule bit_eqI)
    fix i
    have "bit n i \<Longrightarrow> \<not> i < k"
      using n by (metis bit_take_bit_iff take_bit_eq_mod bit_0_eq bot_apply bot_bool_def)
    moreover have "bit m i \<Longrightarrow> i < k"
      using m by (metis bit_take_bit_iff take_bit_nat_eq_self_iff)
    ultimately show "bit (n AND m) i \<longleftrightarrow> bit 0 i"
      by (auto simp: bit_simps)
  qed
  then have "n + m = n XOR m"
    by (simp add: disjunctive_add_eq_xor)
  then show ?thesis by (simp add: of_nat_xor_eq)
qed

lemma crc_byte_256: "crc_byte (of_nat 256) 0 = 0x1021"
  using crc_byte_double [of 128] crc_byte_small [of 128 0] crc_bit_word_of_int [of 32768]
  by simp

lemma crc_byte_table:
  "n < 256 \<Longrightarrow> crc_byte (of_nat (256 * n)) 0 = word_of_int (CRC_TABLE ! n)"
proof (induction n rule: less_induct)
  case (less n)
  show ?case
  proof (cases "n = 0")
    case True
    then show ?thesis using crc_byte_small [of 0 0] by (simp add: CRC_TABLE_def)
  next
    case False
    define m where "m = n div 2"
    have m: "m < n" "m < 128" using False less.prems by (auto simp: m_def)
    have tab: "CRC_TABLE ! (2 * m) = (let v = CRC_TABLE ! m in if v < 32768 then 2 * v else (2 * v - 65536) XOR 0x1021)"
       "CRC_TABLE ! (2 * m + 1) = CRC_TABLE ! (2 * m) XOR 0x1021"
      using crc_table_doubling m by (auto simp: list_all_iff)
    have even: "crc_byte (of_nat (2 * (256 * m))) 0 = word_of_int (CRC_TABLE ! (2 * m))"
      using m crc_byte_double [of "256 * m"] less.IH [of m] crc_bit_word_of_int [of "CRC_TABLE ! m"]
        crc_table_bounds [of m] tab(1) by (simp add: Let_def)
    have "(of_nat (256 * (2 * m + 1)) :: 16 word) = of_nat (2 * (256 * m)) XOR of_nat 256"
      using xor_disjoint_of_nat [of "2 * (256 * m)" 9 256] by (simp add: mult.commute add.commute)
    then have odd: "crc_byte (of_nat (256 * (2 * m + 1))) 0 = word_of_int (CRC_TABLE ! (2 * m + 1))"
      using crc_byte_xor [of "of_nat (2 * (256 * m))" "of_nat 256" 0 0] even tab(2) crc_byte_256
      by (simp add: word_wi_log_defs(4) [symmetric])
    consider "n = 2 * m" | "n = 2 * m + 1" unfolding m_def by linarith
    then show ?thesis
      using even odd by cases (simp_all add: mult.assoc [symmetric])
  qed
qed

lemma push_or_byte: "push_bit 8 x OR uint (b :: byte) = 256 * x + uint b"
proof -
  have "push_bit 8 x AND uint b = 0"
  proof (rule bit_eqI)
    fix i
    have "bit (uint b) i \<Longrightarrow> i < 8" using bit_imp_le_length [of b i] by (simp add: bit_uint_iff)
    then show "bit (push_bit 8 x AND uint b) i \<longleftrightarrow> bit 0 i"
      by (auto simp: bit_simps)
  qed
  then show ?thesis by (simp add: disjunctive_add_eq_or [symmetric] push_bit_eq_mult)
qed

lemma crc_byte_split:
  assumes "h < 256" "l < 256"
  shows "crc_byte (of_nat (256 * h + l)) b = of_nat (256 * l + unat b) XOR word_of_int (CRC_TABLE ! h)"
  using crc_byte_xor [of "of_nat (256 * h)" "of_nat l" 0 b] xor_disjoint_of_nat [of "256 * h" 8 l]
    crc_byte_table crc_byte_small assms by (simp add: xor.commute)

lemma uint_word_of_int_16: "uint (word_of_int x :: 16 word) = x mod 65536"
  by (simp add: uint_word_of_int)

lemma word_of_int_mod_16: "(word_of_int x :: 16 word) = word_of_int (x mod 65536)"
  by (simp add: word_of_int_eq_iff take_bit_eq_mod)

lemma word_of_int_cong_16:
  "x mod 65536 = y mod 65536 \<Longrightarrow> (word_of_int x :: 16 word) = word_of_int y"
  by (simp add: word_of_int_eq_iff take_bit_eq_mod)

lemma mod_65536_split:
  fixes x :: int
  shows "x mod 65536 = 256 * (x div 256 mod 256) + x mod 256"
    and "(256 * x + y) mod 65536 = (256 * (x mod 256) + y) mod 65536"
proof -
  show "x mod 65536 = 256 * (x div 256 mod 256) + x mod 256"
    using zmod_zmult2_eq [of 256 x 256] by simp
  define q r where "q = x div 256" and "r = x mod 256"
  have "x = 256 * q + r" by (simp add: q_def r_def)
  then have "256 * x + y = (256 * r + y) + 65536 * q" by simp
  then have "(256 * x + y) mod 65536 = (256 * r + y) mod 65536"
    by (simp only: mod_mult_self2)
  then show "(256 * x + y) mod 65536 = (256 * (x mod 256) + y) mod 65536"
    by (simp only: r_def)
qed

lemma crc_update_word:
  "word_of_int (crc_update x (uint b)) = crc_byte (word_of_int x) b"
proof -
  define h where "h = nat (x div 256 mod 256)"
  define l where "l = nat (x mod 256)"
  have hl: "h < 256" "l < 256" "int h = x div 256 mod 256" "int l = x mod 256"
    by (auto simp: h_def l_def nat_less_iff)
  have idx: "nat (drop_bit 8 x AND 0xFF) = h"
    using take_bit_eq_mask [of 8 "drop_bit 8 x"]
    by (simp add: h_def drop_bit_eq_div take_bit_eq_mod mask_eq_exp_minus_1)
  have "(word_of_int x :: 16 word) = word_of_int (int (256 * h + l))"
    using hl(3,4) by (subst word_of_int_mod_16) (simp add: mod_65536_split(1))
  moreover have "(word_of_int (256 * x + uint b) :: 16 word) = word_of_int (int (256 * l + unat b))"
    using mod_65536_split(2) [of x "uint b"] hl(4)
    by (intro word_of_int_cong_16) (simp only: of_nat_add of_nat_mult of_nat_numeral uint_nat)
  ultimately show ?thesis
    using crc_byte_split [OF hl(1,2), of b]
    by (simp only: crc_update_def push_or_byte idx word_wi_log_defs(4) [symmetric] of_int_of_nat_eq)
qed

lemma crc_spec_bytes: "crc_spec data = crc_byte (crc_byte (foldl crc_byte 0 data) 0) 0"
proof -
  have "foldl crc_bit c (concat (map byte_bits data)) = foldl crc_byte c data" for c
    by (induction data arbitrary: c) (simp_all add: crc_byte_def)
  moreover have "replicate 16 False = byte_bits 0 @ byte_bits 0"
    by (simp add: byte_bits_zero replicate_add [symmetric])
  ultimately show ?thesis by (simp add: crc_spec_def crc_byte_def)
qed

lemma foldl_crc_update_word:
  "word_of_int (foldl (\<lambda>crc b. crc_update crc (uint b)) x data) = foldl crc_byte (word_of_int x) data"
  by (induction data arbitrary: x) (simp_all add: crc_update_word)

lemma calc_crc_word: "calc_crc data = uint (crc_spec data)"
proof -
  define x where "x = foldl (\<lambda>crc b. crc_update crc (uint b)) 0 data"
  have "word_of_int (crc_update (crc_update x 0) 0) = crc_byte (crc_byte (word_of_int x) 0) 0"
    using crc_update_word [of _ 0] by simp
  also have "\<dots> = crc_spec data"
    using foldl_crc_update_word [of 0 data] by (simp add: x_def crc_spec_bytes)
  finally have "uint (crc_spec data) = crc_update (crc_update x 0) 0 mod 65536"
    using uint_word_of_int_16 [of "crc_update (crc_update x 0) 0"] by simp
  then show ?thesis
    using take_bit_eq_mask [of 16 "crc_update (crc_update x 0) 0"]
    by (simp add: calc_crc_def calc_crc_from_def x_def take_bit_eq_mod mask_eq_exp_minus_1 Let_def)
qed

lemma calc_crc_bounds: "0 \<le> calc_crc data \<and> calc_crc data < 65536"
  using uint_lt2p [of "crc_spec data"] by (simp add: calc_crc_word)

section \<open>Codewords\<close>

text \<open>The remainder of a whole frame, its checksum included.\<close>

definition crc_residue :: "bytes \<Rightarrow> 16 word" where
  "crc_residue frame = foldl crc_byte 0 frame"

lemma crc_byte_linear: "crc_byte c b = crc_byte c 0 XOR of_nat (unat b)"
  using crc_byte_xor [of c 0 0 b] crc_byte_small [of 0 b] by simp

lemma crc_two_bytes:
  "crc_byte (crc_byte c a) b = crc_byte (crc_byte c 0) 0 XOR of_nat (256 * unat a + unat b)"
proof -
  have "unat a < 256" using unsigned_less [of a] by simp
  then have "crc_byte (of_nat (unat a)) b = of_nat (256 * unat a + unat b)"
    by (rule crc_byte_small)
  moreover have "crc_byte (crc_byte c a) b = crc_byte (crc_byte c 0) 0 XOR crc_byte (of_nat (unat a)) b"
    using crc_byte_xor [of "crc_byte c 0" "of_nat (unat a)" 0 b] crc_byte_linear [of c a] by simp
  ultimately show ?thesis by simp
qed

lemma word_pair_eq_iff:
  "(of_nat (256 * unat (a :: byte) + unat (b :: byte)) :: 16 word) = w \<longleftrightarrow>
     256 * uint a + uint b = uint w"
proof -
  have "unat a < 256" "unat b < 256" using unsigned_less [of a] unsigned_less [of b] by simp_all
  then have "unat (of_nat (256 * unat a + unat b) :: 16 word) = 256 * unat a + unat b"
    by (subst unat_of_nat, subst mod_less) auto
  then have "(of_nat (256 * unat a + unat b) :: 16 word) = w \<longleftrightarrow> 256 * unat a + unat b = unat w"
    by (metis word_unat_eq_iff)
  also have "\<dots> \<longleftrightarrow> 256 * uint a + uint b = uint w"
    by (simp only: uint_nat of_nat_eq_iff [where 'a = int, symmetric] of_nat_add of_nat_mult of_nat_numeral)
  finally show ?thesis .
qed

lemma word_xor_eq_0: "(v :: 'a::len word) XOR w = 0 \<longleftrightarrow> v = w"
proof
  assume "v XOR w = 0"
  then have "(v XOR w) XOR w = w" by simp
  then show "v = w" by (simp add: xor.assoc)
qed simp

lemma word_xor_left_cancel: "(u :: 'a::len word) XOR v = u XOR w \<longleftrightarrow> v = w"
proof
  assume "u XOR v = u XOR w"
  then have "u XOR (u XOR v) = u XOR (u XOR w)" by simp
  then show "v = w" by (simp add: xor.assoc [symmetric])
qed simp

lemma word_pair_inj:
  fixes x y u v :: byte
  assumes "(of_nat (256 * unat x + unat y) :: 16 word) = of_nat (256 * unat u + unat v)"
  shows "x = u \<and> y = v"
proof -
  have eq: "256 * uint x + uint y = 256 * uint u + uint v"
    using assms word_pair_eq_iff by metis
  moreover have "0 \<le> uint y" "uint y < 256" "0 \<le> uint v" "uint v < 256"
    using uint_lt2p [of y] uint_lt2p [of v] by simp_all
  ultimately have "uint x = uint u" by linarith
  with eq have "uint x = uint u \<and> uint y = uint v" by simp
  then show ?thesis by (simp add: word_uint_eq_iff)
qed

lemma crc_residue_append2: "crc_residue (data @ [a, b]) = 0 \<longleftrightarrow> calc_crc data = 256 * uint a + uint b"
proof -
  have "crc_residue (data @ [a, b]) = crc_spec data XOR of_nat (256 * unat a + unat b)"
    by (simp add: crc_residue_def crc_two_bytes [of _ a b] crc_spec_bytes)
  then have "crc_residue (data @ [a, b]) = 0 \<longleftrightarrow> of_nat (256 * unat a + unat b) = crc_spec data"
    by (auto simp: word_xor_eq_0)
  then show ?thesis using word_pair_eq_iff [of a b "crc_spec data"] by (auto simp: calc_crc_word)
qed

lemma list_split_last2:
  assumes "2 \<le> length xs"
  obtains ys a b where "xs = ys @ [a, b]"
  using assms by (cases xs rule: rev_cases; cases "butlast xs" rule: rev_cases) auto

lemma verify_crc_residue: "verify_crc frame \<longleftrightarrow> 3 \<le> length frame \<and> crc_residue frame = 0"
proof (cases "3 \<le> length frame")
  case True
  then obtain data a b where "frame = data @ [a, b]"
    using list_split_last2 [of frame] by auto
  with True show ?thesis
    by (auto simp: verify_crc_def crc_residue_append2 push_or_byte nth_append)
qed (simp add: verify_crc_def)

lemma append_crc_bytes: "append_crc data = data @ be_bytes 2 (calc_crc data)"
  by (simp add: append_crc_def Let_def be_bytes_def numeral_2_eq_2 drop_bit_eq_div)

lemma crc_bit_inj:
  assumes "crc_bit c x = crc_bit d x"
  shows "c = d"
proof -
  have low: "bit (crc_bit e x) 0 \<longleftrightarrow> x \<noteq> bit e 15" for e
    by (cases "bit e 15") (simp_all add: crc_bit_def bit_0 even_or_iff even_xor_iff)
  have dbl: "bit (e * 2) (Suc n) \<longleftrightarrow> bit e n" if "n < 15" for e :: "16 word" and n
    using that by (simp add: mult.commute [of e] bit_double_iff)
  have high: "bit (crc_bit e x) (Suc n) \<longleftrightarrow> bit e n \<noteq> (bit e 15 \<and> bit (0x1021 :: 16 word) (Suc n))"
    if "n < 15" for e n
    using that by (cases "bit e 15") (auto simp: crc_bit_def bit_simps dbl)
  show ?thesis
  proof (rule bit_word_eqI)
    fix n assume "n < LENGTH(16)"
    then have "n < 15 \<or> n = 15" by auto
    moreover have "bit c 15 \<longleftrightarrow> bit d 15" using low assms by metis
    ultimately show "bit c n \<longleftrightarrow> bit d n" using high [of n c] high [of n d] assms by auto
  qed
qed

lemma crc_byte_inj: "crc_byte c b = crc_byte d b \<Longrightarrow> c = d"
proof -
  have "foldl crc_bit c bs = foldl crc_bit d bs \<Longrightarrow> c = d" for bs
    by (induction bs arbitrary: c d) (auto dest: crc_bit_inj)
  then show "crc_byte c b = crc_byte d b \<Longrightarrow> c = d" by (simp add: crc_byte_def)
qed

lemma foldl_crc_byte_inj: "foldl crc_byte c bs = foldl crc_byte d bs \<Longrightarrow> c = d"
  by (induction bs arbitrary: c d) (auto dest: crc_byte_inj)

lemma foldl_crc_byte_short_inj:
  assumes "length a = length b" "length a \<le> 2" "foldl crc_byte c a = foldl crc_byte c b"
  shows "a = b"
proof -
  consider "a = []" | x y where "a = [x]" "b = [y]" | x y u v where "a = [x, y]" "b = [u, v]"
    using assms(1,2) by (cases a; cases b; cases "tl a"; cases "tl b") (auto simp: length_Suc_conv)
  then show ?thesis
  proof cases
    case 1 then show ?thesis using assms(1) by simp
  next
    case (2 x y)
    then have "of_nat (256 * unat (0 :: byte) + unat x) = (of_nat (256 * unat (0 :: byte) + unat y) :: 16 word)"
      using assms(3) crc_byte_linear [of c x] crc_byte_linear [of c y] by (simp add: word_xor_left_cancel)
    then show ?thesis using 2 word_pair_inj by blast
  next
    case (3 x y u v)
    then have "of_nat (256 * unat x + unat y) = (of_nat (256 * unat u + unat v) :: 16 word)"
      using assms(3) crc_two_bytes [of c x y] crc_two_bytes [of c u v]
      by (simp add: word_xor_left_cancel)
    then show ?thesis using 3 word_pair_inj by blast
  qed
qed

lemma crc_residue_burst:
  assumes "length a = length b" "length a \<le> 2" "crc_residue (xs @ a @ ys) = crc_residue (xs @ b @ ys)"
  shows "a = b"
  using assms foldl_crc_byte_short_inj foldl_crc_byte_inj unfolding crc_residue_def foldl_append by blast

text \<open>A frame made by \<open>append_crc\<close> passes \<open>verify_crc\<close> exactly when it carries any data.\<close>

lemma append_crc_verifies: "verify_crc (append_crc data) \<longleftrightarrow> data \<noteq> []"
proof -
  have "be_val (be_bytes 2 (calc_crc data)) = calc_crc data"
    using calc_crc_bounds [of data] by (simp add: be_val_be_bytes)
  then have "crc_residue (append_crc data) = 0"
    using crc_residue_append2 [of data]
    by (simp add: append_crc_bytes be_bytes_def be_val_def numeral_2_eq_2)
  then show ?thesis
    by (cases data) (simp_all add: verify_crc_residue append_crc_bytes)
qed

section \<open>Properties\<close>

text \<open>C27: the table-driven routine, with its unmasked accumulator, computes the remainder of the
  message followed by sixteen zero bits under the polynomial 0x1021, bit by bit.\<close>

theorem calc_crc_equals_division: "calc_crc data = uint (crc_spec data)"
  by (rule calc_crc_word)

text \<open>C28: every corruption of a valid frame confined to two neighbouring bytes, anywhere in it and
  the checksum included, is detected.\<close>

theorem verify_crc_detects_burst:
  assumes "verify_crc (xs @ a @ ys)" "length a = length b" "length a \<le> 2" "a \<noteq> b"
  shows "\<not> verify_crc (xs @ b @ ys)"
  using assms crc_residue_burst [of a b xs ys] by (auto simp: verify_crc_residue)

theorem verify_crc_detects_burst_witness:
  "verify_crc ([0x31] @ [0x26, 0x72] @ []) \<and> \<not> verify_crc ([0x31] @ [0x26, 0x73] @ [])"
proof -
  have "verify_crc ([0x31] @ [0x26, 0x72] @ [])" by code_simp
  with verify_crc_detects_burst [of "[0x31]" "[0x26, 0x72]" "[]" "[0x26, 0x73]"]
  show ?thesis by simp
qed

end
