(* ===== verification/Frames.thy ===== *)
theory Frames
  imports Crc
begin

text \<open>
  \<open>src/defib/protocol/frames.py\<close>: the HEAD, DATA and TAIL frames of the boot protocol and the
  splitting of a payload into chunks. Sequence numbers are Python integers, of which the frame
  keeps the low byte and its complement.
\<close>

unbundle bit_operations_syntax

section \<open>Magic numbers\<close>

definition HEAD_MAGIC :: bytes where "HEAD_MAGIC = [0xFE, 0x00, 0xFF, 0x01]"
definition DATA_MAGIC :: byte where "DATA_MAGIC = 0xDA"
definition TAIL_MAGIC :: byte where "TAIL_MAGIC = 0xED"
definition V500_HANDSHAKE_MAGIC :: bytes where "V500_HANDSHAKE_MAGIC = [0xBD, 0x00, 0xFF, 0x01]"
definition CV6XX_HANDSHAKE_MAGIC :: bytes where
  "CV6XX_HANDSHAKE_MAGIC = [0xEF, 0xBE, 0xAD, 0xDE, 0x12, 0x00, 0xF0, 0x0F]"
definition CV6XX_BOARDID_MAGIC :: bytes where "CV6XX_BOARDID_MAGIC = [0xCE, 0x00, 0xFF, 0x01]"
definition CV6XX_GSL_MAGIC :: int where "CV6XX_GSL_MAGIC = 0x4BB4D22D"
definition CV6XX_DDR_PARAMS_MAGIC :: int where "CV6XX_DDR_PARAMS_MAGIC = 0x4B87A52D"
definition CV6XX_UBOOT_MAGIC :: int where "CV6XX_UBOOT_MAGIC = 0x4BF01E2D"

lemmas magic_defs [frame_defs] =
  HEAD_MAGIC_def DATA_MAGIC_def TAIL_MAGIC_def V500_HANDSHAKE_MAGIC_def
  CV6XX_HANDSHAKE_MAGIC_def CV6XX_BOARDID_MAGIC_def

section \<open>Frames\<close>

record HeadFrame =
  head_length :: int
  head_address :: int

record DataFrame =
  data_seq :: int
  data_payload :: bytes

record TailFrame =
  tail_seq :: int

definition HeadFrame_encode :: "HeadFrame \<Rightarrow> exn + bytes" where
  "HeadFrame_encode f =
     (case pack_be 4 (head_length f) of
        Inl e \<Rightarrow> Inl e
      | Inr len \<Rightarrow> (case pack_be 4 (head_address f) of
          Inl e \<Rightarrow> Inl e
        | Inr addr \<Rightarrow>
            (let frame = HEAD_MAGIC @ len @ addr; crc = calc_crc frame
             in Inr (frame @ [word_of_int (drop_bit 8 crc AND 0xFF), word_of_int (crc AND 0xFF)]))))"

definition HeadFrame_decode :: "bytes \<Rightarrow> exn + HeadFrame" where
  "HeadFrame_decode data =
     (if length data < 14 then Inl FrameError
      else if pyslice 0 4 data \<noteq> HEAD_MAGIC then Inl FrameError
      else Inr \<lparr>head_length = be_val (pyslice 4 8 data), head_address = be_val (pyslice 8 12 data)\<rparr>)"

definition DataFrame_encode :: "DataFrame \<Rightarrow> bytes" where
  "DataFrame_encode f =
     (let head = [DATA_MAGIC, word_of_int (data_seq f AND 0xFF), word_of_int (NOT (data_seq f) AND 0xFF)];
          data = head @ data_payload f;
          crc = calc_crc data
      in data @ [word_of_int (drop_bit 8 crc AND 0xFF), word_of_int (crc AND 0xFF)])"

definition DataFrame_decode :: "bytes \<Rightarrow> exn + DataFrame" where
  "DataFrame_decode data =
     (if length data < 6 then Inl FrameError
      else if data ! 0 \<noteq> DATA_MAGIC then Inl FrameError
      else let seq = uint (data ! 1); expected_inv = NOT seq AND 0xFF
           in if uint (data ! 2) \<noteq> expected_inv then Inl FrameError
              else Inr \<lparr>data_seq = seq, data_payload = pyslice 3 (length data - 2) data\<rparr>)"

definition TailFrame_encode :: "TailFrame \<Rightarrow> bytes" where
  "TailFrame_encode f =
     (let data = [TAIL_MAGIC, word_of_int (tail_seq f AND 0xFF), word_of_int (NOT (tail_seq f) AND 0xFF)];
          crc = calc_crc data
      in data @ [word_of_int (drop_bit 8 crc AND 0xFF), word_of_int (crc AND 0xFF)])"

definition TailFrame_decode :: "bytes \<Rightarrow> exn + TailFrame" where
  "TailFrame_decode data =
     (if length data < 5 then Inl FrameError
      else if data ! 0 \<noteq> TAIL_MAGIC then Inl FrameError
      else Inr \<lparr>tail_seq = uint (data ! 1)\<rparr>)"

text \<open>\<open>range(0, len(data), chunk_size)\<close> raises for a step of zero.\<close>

function chunks_from :: "nat \<Rightarrow> 'a list \<Rightarrow> 'a list list" where
  "chunks_from n xs = (if n = 0 \<or> xs = [] then [] else take n xs # chunks_from n (drop n xs))"
  by pat_completeness auto
termination by (relation "measure (\<lambda>(n, xs). length xs)") auto

declare chunks_from.simps [simp del]

definition chunk_data :: "'a list \<Rightarrow> nat \<Rightarrow> exn + 'a list list" where
  "chunk_data data chunk_size =
     (if chunk_size = 0 then Inl ValueError
      else Inr (map (\<lambda>k. pyslice (k * chunk_size) (k * chunk_size + chunk_size) data)
                  [0..<(length data + chunk_size - 1) div chunk_size]))"

section \<open>Chunks\<close>

lemma chunks_from_Nil [simp]: "chunks_from n [] = []"
  by (simp add: chunks_from.simps)

lemma chunks_from_step: "0 < n \<Longrightarrow> xs \<noteq> [] \<Longrightarrow> chunks_from n xs = take n xs # chunks_from n (drop n xs)"
  by (subst chunks_from.simps) simp

lemma chunks_from_induct [consumes 1, case_names Nil Step]:
  assumes "0 < n" "0 < n \<Longrightarrow> P []" "\<And>xs. 0 < n \<Longrightarrow> xs \<noteq> [] \<Longrightarrow> P (drop n xs) \<Longrightarrow> P xs"
  shows "P xs"
proof (induction "length xs" arbitrary: xs rule: less_induct)
  case less
  show ?case
  proof (cases "xs = []")
    case True
    then show ?thesis using assms(1,2) by simp
  next
    case False
    then show ?thesis using assms(1) less [of "drop n xs"] assms(3) by simp
  qed
qed

lemma concat_chunks_from: "0 < n \<Longrightarrow> concat (chunks_from n xs) = xs"
proof (induction xs rule: chunks_from_induct)
  case (Step xs)
  then show ?case by (simp only: chunks_from_step [OF Step(1,2)]) simp
qed simp

lemma chunks_from_lengths: "0 < n \<Longrightarrow> \<forall>c \<in> set (chunks_from n xs). 0 < length c \<and> length c \<le> n"
proof (induction xs rule: chunks_from_induct)
  case (Step xs)
  then show ?case by (simp only: chunks_from_step [OF Step(1,2)]) simp
qed simp

lemma chunks_from_full: "0 < n \<Longrightarrow> \<forall>c \<in> set (butlast (chunks_from n xs)). length c = n"
proof (induction xs rule: chunks_from_induct)
  case (Step xs)
  show ?case
  proof (cases "drop n xs = []")
    case True
    then show ?thesis by (simp only: chunks_from_step [OF Step(1,2)]) simp
  next
    case False
    with Step(3) show ?thesis by (simp only: chunks_from_step [OF Step(1,2)]) simp
  qed
qed simp

lemma pyslice_shift: "pyslice (a + n) (b + n) xs = pyslice a b (drop n xs)"
  by (simp add: pyslice_def add.commute)

lemma chunk_data_chunks: "0 < n \<Longrightarrow> chunk_data xs n = Inr (chunks_from n xs)"
proof (induction xs rule: chunks_from_induct)
  case Nil
  then show ?case by (simp add: chunk_data_def)
next
  case (Step xs)
  let ?f = "\<lambda>xs k. pyslice (k * n) (k * n + n) xs"
  have count: "(length xs + n - 1) div n = Suc ((length (drop n xs) + n - 1) div n)"
  proof (cases "n \<le> length xs")
    case True
    then have "length xs + n - 1 = (length (drop n xs) + n - 1) + n" using Step(1) by simp
    then show ?thesis using Step(1) by (simp only: div_add_self2)
  next
    case False
    with Step(2) have "(length xs + n - 1) div n = 1"
      by (cases xs) (auto intro!: div_nat_eqI)
    with False Step(1) show ?thesis by simp
  qed
  have shift: "?f xs (Suc k) = ?f (drop n xs) k" for k
    using pyslice_shift [of "k * n" n "k * n + n" xs] by (simp add: add.commute)
  have "chunk_data (drop n xs) n = Inr (chunks_from n (drop n xs))"
    by (rule Step(3))
  then have "chunks_from n (drop n xs) = map (?f (drop n xs)) [0..<(length (drop n xs) + n - 1) div n]"
    using Step(1) by (simp add: chunk_data_def)
  moreover have "map (?f xs) [0..<Suc m] = take n xs # map (?f (drop n xs)) [0..<m]" for m
    by (simp only: upt_conv_Cons [of 0 "Suc m"] map_Suc_upt [symmetric]) (simp add: shift pyslice_def add.commute)
  ultimately have "map (?f xs) [0..<(length xs + n - 1) div n] = chunks_from n xs"
    by (simp only: count chunks_from_step [OF Step(1,2)])
  with Step(1) show ?case by (simp add: chunk_data_def)
qed

lemma length_chunks_from: "0 < n \<Longrightarrow> length (chunks_from n xs) = (length xs + n - 1) div n"
proof -
  assume "0 < n"
  then have "chunks_from n xs = map (\<lambda>k. pyslice (k * n) (k * n + n) xs) [0..<(length xs + n - 1) div n]"
    using chunk_data_chunks [of n xs] by (simp add: chunk_data_def)
  then show ?thesis by simp
qed

section \<open>Round trips\<close>

lemma frame_crc_bytes:
  "[word_of_int (drop_bit 8 (calc_crc d) AND 0xFF), word_of_int (calc_crc d AND 0xFF)] = be_bytes 2 (calc_crc d)"
  using append_crc_bytes [of d] by (simp add: append_crc_def Let_def)

lemma DataFrame_encode_append_crc:
  "DataFrame_encode f =
     append_crc ([DATA_MAGIC, word_of_int (data_seq f), word_of_int (NOT (data_seq f))] @ data_payload f)"
  by (simp add: DataFrame_encode_def append_crc_def Let_def)

lemma TailFrame_encode_append_crc:
  "TailFrame_encode f = append_crc [TAIL_MAGIC, word_of_int (tail_seq f), word_of_int (NOT (tail_seq f))]"
  by (simp add: TailFrame_encode_def append_crc_def Let_def)

lemma length_append_crc [simp]: "length (append_crc d) = length d + 2"
  by (simp add: append_crc_bytes)

lemma complement_byte: "uint (word_of_int (NOT v) :: byte) = NOT (v mod 256) AND 0xFF"
proof -
  have mask: "take_bit 8 x = x AND 0xFF" for x :: int
    by (simp add: take_bit_eq_mask mask_eq_exp_minus_1)
  have "uint (word_of_int (NOT v) :: byte) = take_bit 8 (NOT v)" by (simp add: take_bit_eq_mod)
  also have "\<dots> = take_bit 8 (NOT (take_bit 8 v))" by (simp add: take_bit_not_take_bit)
  also have "take_bit 8 v = v mod 256" by (simp add: take_bit_eq_mod)
  finally show ?thesis by (simp only: mask)
qed

lemma DataFrame_decode_encode:
  "DataFrame_decode (DataFrame_encode f) =
     (if data_payload f = [] then Inl FrameError
      else Inr \<lparr>data_seq = data_seq f mod 256, data_payload = data_payload f\<rparr>)"
proof -
  let ?h = "[DATA_MAGIC, word_of_int (data_seq f), word_of_int (NOT (data_seq f))]"
  have "uint (?h ! 2) = NOT (data_seq f mod 256) AND 0xFF"
    by (simp only: complement_byte nth_Cons_numeral nth_Cons_Suc nth_Cons_0 numeral_2_eq_2)
  then show ?thesis
    by (auto simp: DataFrame_decode_def DataFrame_encode_append_crc append_crc_bytes pyslice_def
        Let_def simp del: uint_word_of_int)
qed

section \<open>Round trips\<close>

text \<open>A HEAD frame whose length and address fit 32 bits is a 14-byte frame with a valid checksum
  that decodes to the same length and address; otherwise packing it raises \<open>struct.error\<close>.\<close>

lemma HeadFrame_roundtrip:
  "HeadFrame_encode f =
     (if head_length f \<in> {0..<2 ^ 32} \<and> head_address f \<in> {0..<2 ^ 32}
      then Inr (append_crc (HEAD_MAGIC @ be_bytes 4 (head_length f) @ be_bytes 4 (head_address f)))
      else Inl StructError)
   \<and> (case HeadFrame_encode f of
          Inl e \<Rightarrow> e = StructError
        | Inr d \<Rightarrow> length d = 14 \<and> verify_crc d \<and> HeadFrame_decode d = Inr f)"
proof -
  have enc: "HeadFrame_encode f =
     (if head_length f \<in> {0..<2 ^ 32} \<and> head_address f \<in> {0..<2 ^ 32}
      then Inr (append_crc (HEAD_MAGIC @ be_bytes 4 (head_length f) @ be_bytes 4 (head_address f)))
      else Inl StructError)"
    by (simp add: HeadFrame_encode_def pack_be_def append_crc_def Let_def)
  have "HeadFrame_decode (append_crc (HEAD_MAGIC @ be_bytes 4 l @ be_bytes 4 a))
      = Inr \<lparr>head_length = l, head_address = a\<rparr>" if "l \<in> {0..<2 ^ 32}" "a \<in> {0..<2 ^ 32}" for l a
    using that be_val_be_bytes [of 4 l] be_val_be_bytes [of 4 a]
    by (simp add: HeadFrame_decode_def pyslice_def append_crc_bytes HEAD_MAGIC_def)
  then show ?thesis
    using enc by (auto simp: append_crc_verifies HEAD_MAGIC_def split: if_splits)
qed

text \<open>A DATA frame has a valid checksum and decodes to its payload and the low byte of its
  sequence number, for every integer sequence number and every non-empty payload; a frame with an
  empty payload is refused.\<close>

lemma DataFrame_roundtrip:
  "verify_crc (DataFrame_encode f)
   \<and> length (DataFrame_encode f) = length (data_payload f) + 5
   \<and> DataFrame_decode (DataFrame_encode f) =
       (if data_payload f = [] then Inl FrameError
        else Inr \<lparr>data_seq = data_seq f mod 256, data_payload = data_payload f\<rparr>)"
  by (simp add: DataFrame_decode_encode) (simp add: DataFrame_encode_append_crc append_crc_verifies)

text \<open>A TAIL frame is five bytes with a valid checksum and decodes to the low byte of its
  sequence number.\<close>

lemma TailFrame_roundtrip:
  "length (TailFrame_encode f) = 5 \<and> verify_crc (TailFrame_encode f)
   \<and> TailFrame_decode (TailFrame_encode f) = Inr \<lparr>tail_seq = tail_seq f mod 256\<rparr>"
  by (simp add: TailFrame_encode_append_crc append_crc_verifies TailFrame_decode_def)
     (simp add: append_crc_bytes)

text \<open>Splitting a payload loses nothing: for a positive chunk size the chunks concatenate to the
  payload, there are \<open>ceil(len / size)\<close> of them, none is empty or larger than the size, and all but
  the last are full; a chunk size of zero raises \<open>ValueError\<close>.\<close>

lemma chunk_data_partition:
  "(\<exists>cs. chunk_data data (Suc n) = Inr cs \<and> concat cs = data
      \<and> length cs = (length data + n) div Suc n
      \<and> list_all (\<lambda>c. 0 < length c \<and> length c \<le> Suc n) cs
      \<and> list_all (\<lambda>c. length c = Suc n) (butlast cs))
   \<and> chunk_data data 0 = Inl ValueError"
  using chunk_data_chunks [of "Suc n" data] concat_chunks_from [of "Suc n" data]
    length_chunks_from [of "Suc n" data] chunks_from_lengths [of "Suc n" data]
    chunks_from_full [of "Suc n" data]
  by (simp add: list_all_iff) (simp add: chunk_data_def)

end
