(* ===== verification/Events.thy ===== *)
theory Events
  imports Prelude
begin

text \<open>
  \<open>src/defib/recovery/events.py\<close>: the stages and the events a recovery reports. Free-text
  messages for the user are left out of the events; the error of a result is kept.
\<close>

datatype Stage =
    POWER_CYCLE | HANDSHAKE | DDR_INIT | SPL | UBOOT | GSL | DDR_TABLE | DDR_TRAINING
  | HEAD_AREA | AUX_AREA | BOOT_IMAGE | BOARD_ID | USBPLUG | FLASH_WRITE | FLASH_READ | COMPLETE

record HandshakeResult =
  hs_success :: bool
  hs_chip_id :: "int option"
  hs_board_id :: "int option"
  hs_cpu_id :: "int option"

record ProgressEvent =
  pe_stage :: Stage
  pe_bytes_sent :: int
  pe_bytes_total :: int

text \<open>\<open>percent\<close>, in exact rational arithmetic as numerator and denominator.\<close>

definition ProgressEvent_percent :: "ProgressEvent \<Rightarrow> int \<times> int" where
  "ProgressEvent_percent e =
     (if pe_bytes_total e = 0 then (100, 1) else (pe_bytes_sent e * 100, pe_bytes_total e))"

record RecoveryResult =
  rr_success :: bool
  rr_stages_completed :: "Stage list"
  rr_error :: "string option"
  rr_elapsed :: usec
  rr_post_burn_buffer :: bytes

definition HandshakeResult_ok :: "int option \<Rightarrow> int option \<Rightarrow> int option \<Rightarrow> HandshakeResult" where
  "HandshakeResult_ok chip board cpu =
     \<lparr>hs_success = True, hs_chip_id = chip, hs_board_id = board, hs_cpu_id = cpu\<rparr>"

definition RecoveryResult_fail :: "Stage list \<Rightarrow> string \<Rightarrow> RecoveryResult" where
  "RecoveryResult_fail stages err =
     \<lparr>rr_success = False, rr_stages_completed = stages, rr_error = Some err,
      rr_elapsed = 0, rr_post_burn_buffer = []\<rparr>"

definition RecoveryResult_ok :: "Stage list \<Rightarrow> RecoveryResult" where
  "RecoveryResult_ok stages =
     \<lparr>rr_success = True, rr_stages_completed = stages, rr_error = None,
      rr_elapsed = 0, rr_post_burn_buffer = []\<rparr>"

lemmas result_defs [simp] = RecoveryResult_fail_def RecoveryResult_ok_def HandshakeResult_ok_def

end
