(* ===== verification/Transport.thy ===== *)
theory Transport
  imports Events
begin

text \<open>
  \<open>src/defib/transport/base.py\<close> and \<open>src/defib/transport/mock.py\<close>: the transport interface that
  every protocol is written against, its derived operations, and the mock transport.

  A transport is a record of computations over a world of type \<^typ>\<open>'s\<close>. The world also carries
  what the protocols use beside the transport: the monotonic clock, the sleeps of the event
  loop, and the progress callback. A read returns \<^const>\<open>None\<close> when it waits for ever.
\<close>

section \<open>The interface\<close>

record 's transport =
  tr_read :: "nat \<Rightarrow> usec option \<Rightarrow> ('s, bytes) io"
  tr_write :: "bytes \<Rightarrow> ('s, unit) io"
  tr_flush_input :: "('s, unit) io"
  tr_flush_output :: "('s, unit) io"
  tr_bytes_waiting :: "('s, nat) io"
  tr_unread :: "bytes \<Rightarrow> ('s, unit) io"
  tr_set_baudrate :: "int \<Rightarrow> ('s, unit) io"
  tr_close :: "('s, unit) io"
  tr_now :: "'s \<Rightarrow> usec"
  tr_sleep :: "usec \<Rightarrow> ('s, unit) io"
  tr_emit :: "ProgressEvent \<Rightarrow> ('s, unit) io"

text \<open>The defaults of the base class for the optional operations.\<close>

definition default_unread :: "bytes \<Rightarrow> ('s, unit) io" where
  "default_unread data = io_raise NotImplementedError"

definition default_set_baudrate :: "int \<Rightarrow> ('s, unit) io" where
  "default_set_baudrate baud = io_raise NotImplementedError"

definition is_transport_error :: "exn \<Rightarrow> bool" where
  "is_transport_error e \<longleftrightarrow> e = TransportError \<or> e = TransportTimeout"

definition emit :: "'s transport \<Rightarrow> Stage \<Rightarrow> nat \<Rightarrow> nat \<Rightarrow> ('s, unit) io" where
  "emit T stage sent tot =
     tr_emit T \<lparr>pe_stage = stage, pe_bytes_sent = int sent, pe_bytes_total = int tot\<rparr>"

section \<open>Derived operations\<close>

definition drain_input :: "'s transport \<Rightarrow> ('s, bytes) io" where
  "drain_input T =
     io_bind (tr_bytes_waiting T) (\<lambda>waiting.
       if 0 < waiting then tr_read T waiting (Some 100000) else io_return [])"

fun drain_until_silent_loop :: "'s transport \<Rightarrow> nat \<Rightarrow> usec \<Rightarrow> usec \<Rightarrow> usec \<Rightarrow> nat \<Rightarrow> ('s, nat) io" where
  "drain_until_silent_loop T 0 quiet_period deadline last_data_at discarded = io_diverge"
| "drain_until_silent_loop T (Suc fuel) quiet_period deadline last_data_at discarded =
     io_bind (io_get (tr_now T)) (\<lambda>now.
       if \<not> now < deadline then io_return discarded
       else if now - last_data_at \<ge> quiet_period then io_return discarded
       else io_try (tr_read T 256 (Some 50000))
         (\<lambda>e. if e = TransportTimeout
              then drain_until_silent_loop T fuel quiet_period deadline last_data_at discarded
              else io_raise e)
         (\<lambda>chunk. if chunk \<noteq> []
              then io_bind (io_get (tr_now T)) (\<lambda>now'.
                drain_until_silent_loop T fuel quiet_period deadline now' (discarded + length chunk))
              else drain_until_silent_loop T fuel quiet_period deadline last_data_at discarded))"

definition drain_until_silent :: "'s transport \<Rightarrow> nat \<Rightarrow> usec \<Rightarrow> usec \<Rightarrow> ('s, nat) io" where
  "drain_until_silent T fuel quiet_period max_wait =
     io_bind (io_get (tr_now T)) (\<lambda>t0.
       io_then (tr_flush_input T)
         (drain_until_silent_loop T fuel quiet_period (t0 + max_wait) t0 0))"

text \<open>
  Every round of \<open>read_exact\<close> obtains at least one byte or raises, so as many rounds as bytes are
  wanted are enough.
\<close>

fun read_exact_loop :: "'s transport \<Rightarrow> usec option \<Rightarrow> nat \<Rightarrow> nat \<Rightarrow> bytes \<Rightarrow> ('s, bytes) io" where
  "read_exact_loop T deadline 0 remaining buf =
     (if remaining = 0 then io_return buf else io_diverge)"
| "read_exact_loop T deadline (Suc fuel) remaining buf =
     (if remaining = 0 then io_return buf
      else io_bind (io_get (\<lambda>s. map_option (\<lambda>d. d - tr_now T s) deadline)) (\<lambda>time_left.
        if (case time_left of Some t \<Rightarrow> t \<le> 0 | None \<Rightarrow> False) then io_raise TransportTimeout
        else io_bind (tr_read T remaining time_left) (\<lambda>chunk.
          if chunk = [] then io_raise TransportTimeout
          else read_exact_loop T deadline fuel (remaining - length chunk) (buf @ chunk))))"

definition read_exact :: "'s transport \<Rightarrow> nat \<Rightarrow> usec option \<Rightarrow> ('s, bytes) io" where
  "read_exact T sz timeout =
     io_bind (io_get (\<lambda>s. map_option (\<lambda>t. tr_now T s + t) timeout)) (\<lambda>deadline.
       read_exact_loop T deadline sz sz [])"

section \<open>What a transport promises\<close>

text \<open>
  A read with a timeout ends, takes time, and returns no more than it was asked for; nothing
  moves the clock back, and writing, flushing and sleeping end.
\<close>

locale timed_transport =
  fixes T :: "'s transport"
  assumes read_ends: "\<exists>r s'. tr_read T n (Some t) s = Some (r, s')"
    and read_advances: "tr_read T n to s = Some (r, s') \<Longrightarrow> tr_now T s < tr_now T s'"
    and read_size: "tr_read T n to s = Some (Inr d, s') \<Longrightarrow> length d \<le> n"
    and write_ends: "\<exists>r s'. tr_write T d s = Some (r, s') \<and> tr_now T s \<le> tr_now T s'"
    and flush_input_ends: "\<exists>r s'. tr_flush_input T s = Some (r, s') \<and> tr_now T s \<le> tr_now T s'"
    and flush_output_ends: "\<exists>r s'. tr_flush_output T s = Some (r, s') \<and> tr_now T s \<le> tr_now T s'"
    and sleep_ends: "\<exists>r s'. tr_sleep T t s = Some (r, s') \<and> tr_now T s \<le> tr_now T s'"
    and sleep_advances: "tr_sleep T t s = Some (ru, s') \<Longrightarrow> 0 < t \<Longrightarrow> tr_now T s < tr_now T s'"
    and emit_ends: "\<exists>r s'. tr_emit T ev s = Some (r, s') \<and> tr_now T s \<le> tr_now T s'"
    and bytes_waiting_ends: "\<exists>r s'. tr_bytes_waiting T s = Some (r, s') \<and> tr_now T s \<le> tr_now T s'"
    and unread_ends: "\<exists>r s'. tr_unread T d s = Some (r, s') \<and> tr_now T s \<le> tr_now T s'"
begin

lemma twp_readI:
  assumes "\<And>r s'. tr_now T s < tr_now T s' \<Longrightarrow> (\<forall>d. r = Inr d \<longrightarrow> length d \<le> n) \<Longrightarrow> Q r s'"
  shows "twp (tr_read T n (Some t)) s Q"
proof -
  obtain r s' where r: "tr_read T n (Some t) s = Some (r, s')"
    using read_ends by blast
  moreover have "Q r s'"
    using r by (intro assms) (auto intro: read_advances read_size)
  ultimately show ?thesis by (simp add: twp_def)
qed

lemma twp_writeI:
  assumes "\<And>r s'. tr_now T s \<le> tr_now T s' \<Longrightarrow> Q r s'"
  shows "twp (tr_write T d) s Q"
  using write_ends [of d s] assms by (auto simp: twp_def)

lemma twp_flush_inputI:
  assumes "\<And>r s'. tr_now T s \<le> tr_now T s' \<Longrightarrow> Q r s'"
  shows "twp (tr_flush_input T) s Q"
  using flush_input_ends [of s] assms by (auto simp: twp_def)

lemma twp_flush_outputI:
  assumes "\<And>r s'. tr_now T s \<le> tr_now T s' \<Longrightarrow> Q r s'"
  shows "twp (tr_flush_output T) s Q"
  using flush_output_ends [of s] assms by (auto simp: twp_def)

lemma twp_sleepI:
  assumes "\<And>r s'. tr_now T s \<le> tr_now T s' \<Longrightarrow> Q r s'"
  shows "twp (tr_sleep T t) s Q"
  using sleep_ends [of t s] assms by (auto simp: twp_def)

lemma twp_sleep_posI:
  assumes "0 < t" "\<And>r s'. tr_now T s < tr_now T s' \<Longrightarrow> Q r s'"
  shows "twp (tr_sleep T t) s Q"
proof -
  obtain r s' where "tr_sleep T t s = Some (r, s')" using sleep_ends by blast
  then show ?thesis using sleep_advances assms by (auto simp: twp_def)
qed

lemma twp_bytes_waitingI:
  assumes "\<And>r s'. tr_now T s \<le> tr_now T s' \<Longrightarrow> Q r s'"
  shows "twp (tr_bytes_waiting T) s Q"
  using bytes_waiting_ends [of s] assms by (auto simp: twp_def)

lemma twp_unreadI:
  assumes "\<And>r s'. tr_now T s \<le> tr_now T s' \<Longrightarrow> Q r s'"
  shows "twp (tr_unread T d) s Q"
  using unread_ends [of d s] assms by (auto simp: twp_def)

lemma twp_emitI:
  assumes "\<And>r s'. tr_now T s \<le> tr_now T s' \<Longrightarrow> Q r s'"
  shows "twp (emit T st a b) s Q"
  using emit_ends [of "\<lparr>pe_stage = st, pe_bytes_sent = int a, pe_bytes_total = int b\<rparr>" s] assms
  by (auto simp: twp_def emit_def)

lemmas twp_transport = twp_readI twp_writeI twp_flush_inputI twp_flush_outputI twp_sleepI twp_emitI

lemma drain_loop_ends:
  "nat (deadline - tr_now T s) < fuel \<Longrightarrow>
   twp (drain_until_silent_loop T fuel quiet deadline l n) s (\<lambda>_ _. True)"
proof (induction fuel arbitrary: s l n)
  case (Suc fuel)
  then show ?case
    by (auto simp: wp intro!: twp_readI split: sum.split)
qed simp

text \<open>Draining ends: fuel for the microseconds of \<open>max_wait\<close> is enough.\<close>

lemma drain_until_silent_ends:
  "nat max_wait < fuel \<Longrightarrow> twp (drain_until_silent T fuel quiet max_wait) s (\<lambda>_ _. True)"
  unfolding drain_until_silent_def
  by (auto simp: wp intro!: twp_flush_inputI drain_loop_ends split: sum.split)

lemma read_exact_loop_ends:
  "remaining \<le> fuel \<Longrightarrow>
   twp (read_exact_loop T (Some dl) fuel remaining buf) s
     (\<lambda>r s'. case r of Inr d \<Rightarrow> length d = length buf + remaining \<and> take (length buf) d = buf
                     | Inl e \<Rightarrow> True)"
proof (induction fuel arbitrary: remaining buf s)
  case (Suc fuel)
  have step: "twp (read_exact_loop T (Some dl) fuel (remaining - length c) (buf @ c)) s'
      (\<lambda>r s'. case r of Inr d \<Rightarrow> length d = length buf + remaining \<and> take (length buf) d = buf | Inl e \<Rightarrow> True)"
    if "c \<noteq> []" "length c \<le> remaining" for c s'
  proof (rule twp_mono)
    show "twp (read_exact_loop T (Some dl) fuel (remaining - length c) (buf @ c)) s'
      (\<lambda>r s'. case r of Inr d \<Rightarrow> length d = length (buf @ c) + (remaining - length c) \<and> take (length (buf @ c)) d = buf @ c
                     | Inl e \<Rightarrow> True)"
      using that Suc.prems by (intro Suc.IH) (cases c; simp)
  qed (use that in \<open>auto split: sum.splits simp: take_append dest: arg_cong [where f = "take (length buf)"]\<close>)
  then show ?case
    by (auto simp: wp intro!: twp_readI split: sum.split)
qed (simp add: wp)

end

section \<open>The mock transport\<close>

record mock =
  mk_rx_buffer :: bytes
  mk_tx_log :: "bytes list"
  mk_closed :: bool
  mk_flush_clears :: bool
  mk_clock :: usec
  mk_events :: "ProgressEvent list"

definition MockTransport :: "bool \<Rightarrow> mock" where
  "MockTransport flush_clears_buffer =
     \<lparr>mk_rx_buffer = [], mk_tx_log = [], mk_closed = False, mk_flush_clears = flush_clears_buffer,
      mk_clock = 0, mk_events = []\<rparr>"

definition mock_enqueue_rx :: "bytes \<Rightarrow> mock \<Rightarrow> mock" where
  "mock_enqueue_rx data m = m\<lparr>mk_rx_buffer := mk_rx_buffer m @ data\<rparr>"

definition mock_enqueue_rx_chunks :: "bytes list \<Rightarrow> mock \<Rightarrow> mock" where
  "mock_enqueue_rx_chunks chunks m = fold mock_enqueue_rx chunks m"

text \<open>
  A read takes a microsecond beside the time it sleeps: the clock of the event loop does not
  stand still.
\<close>

definition mock_read :: "nat \<Rightarrow> usec option \<Rightarrow> (mock, bytes) io" where
  "mock_read sz timeout = (\<lambda>m0.
     let m = m0\<lparr>mk_clock := mk_clock m0 + 1\<rparr> in
     if mk_closed m then Some (Inr [], m)
     else if mk_rx_buffer m = [] then
       (case timeout of
          None \<Rightarrow> Some (Inl TransportTimeout, m)
        | Some t \<Rightarrow>
            if t \<le> 0 then Some (Inl TransportTimeout, m)
            else Some (Inl TransportTimeout, m\<lparr>mk_clock := mk_clock m + min t 1000\<rparr>))
     else let count = min sz (length (mk_rx_buffer m))
          in Some (Inr (take count (mk_rx_buffer m)), m\<lparr>mk_rx_buffer := drop count (mk_rx_buffer m)\<rparr>))"

definition mock_write :: "bytes \<Rightarrow> (mock, unit) io" where
  "mock_write data = io_modify (\<lambda>m. if mk_closed m then m else m\<lparr>mk_tx_log := mk_tx_log m @ [data]\<rparr>)"

definition mock_flush_input :: "(mock, unit) io" where
  "mock_flush_input = io_modify (\<lambda>m. if mk_flush_clears m then m\<lparr>mk_rx_buffer := []\<rparr> else m)"

definition mock_unread :: "bytes \<Rightarrow> (mock, unit) io" where
  "mock_unread data = io_modify (\<lambda>m. m\<lparr>mk_rx_buffer := data @ mk_rx_buffer m\<rparr>)"

definition mock_close :: "(mock, unit) io" where
  "mock_close = io_modify (\<lambda>m. m\<lparr>mk_closed := True\<rparr>)"

definition mock_all_tx_data :: "mock \<Rightarrow> bytes" where
  "mock_all_tx_data m = concat (mk_tx_log m)"

definition mock_transport :: "mock transport" where
  "mock_transport =
     \<lparr>tr_read = mock_read,
      tr_write = mock_write,
      tr_flush_input = mock_flush_input,
      tr_flush_output = io_return (),
      tr_bytes_waiting = io_get (\<lambda>m. length (mk_rx_buffer m)),
      tr_unread = mock_unread,
      tr_set_baudrate = default_set_baudrate,
      tr_close = mock_close,
      tr_now = mk_clock,
      tr_sleep = (\<lambda>t. io_modify (\<lambda>m. m\<lparr>mk_clock := mk_clock m + max 0 t\<rparr>)),
      tr_emit = (\<lambda>e. io_modify (\<lambda>m. m\<lparr>mk_events := mk_events m @ [e]\<rparr>))\<rparr>"

lemmas mock_defs = mock_transport_def mock_read_def mock_write_def mock_flush_input_def
  mock_unread_def mock_close_def default_set_baudrate_def

lemma mock_transport_sel [simp]:
  "tr_read mock_transport = mock_read" "tr_write mock_transport = mock_write"
  "tr_flush_input mock_transport = mock_flush_input" "tr_flush_output mock_transport = io_return ()"
  "tr_bytes_waiting mock_transport = io_get (\<lambda>m. length (mk_rx_buffer m))"
  "tr_unread mock_transport = mock_unread" "tr_now mock_transport = mk_clock"
  "tr_sleep mock_transport = (\<lambda>t. io_modify (\<lambda>m. m\<lparr>mk_clock := mk_clock m + max 0 t\<rparr>))"
  "tr_emit mock_transport = (\<lambda>e. io_modify (\<lambda>m. m\<lparr>mk_events := mk_events m @ [e]\<rparr>))"
  by (simp_all add: mock_transport_def)

interpretation mock: timed_transport mock_transport
  by unfold_locales
     (auto simp: mock_read_def mock_write_def mock_flush_input_def mock_unread_def io_defs Let_def
       split: option.splits if_splits)

end
