(* ===== verification/Capture.thy ===== *)
theory Capture
  imports Transport
begin

text \<open>
  \<open>src/defib/capture\<close>: the \<open>.dcap\<close> file format, the transport that records a session and the
  transport that replays one. A chip name is held as its UTF-8 bytes; the replacement characters
  that decoding gives malformed UTF-8 are not modelled.
\<close>

section \<open>The file format\<close>

definition DCAP_MAGIC :: bytes where "DCAP_MAGIC = [0x44, 0x43, 0x41, 0x50]"
definition DCAP_VERSION :: int where "DCAP_VERSION = 1"
definition HEADER_SIZE :: nat where "HEADER_SIZE = 48"
definition FLAG_HAS_TIMING :: int where "FLAG_HAS_TIMING = 1"

datatype Direction = TX | RX

definition Direction_value :: "Direction \<Rightarrow> byte" where
  "Direction_value d = (case d of TX \<Rightarrow> 0 | RX \<Rightarrow> 1)"

definition Direction_of :: "byte \<Rightarrow> exn + Direction" where
  "Direction_of b = (if b = 0 then Inr TX else if b = 1 then Inr RX else Inl ValueError)"

record CaptureRecord =
  cr_timestamp_us :: int
  cr_direction :: Direction
  cr_data :: bytes

record CaptureFile =
  cf_baudrate :: int
  cf_chip :: bytes
  cf_flags :: int
  cf_records :: "CaptureRecord list"

definition add_tx :: "int \<Rightarrow> bytes \<Rightarrow> CaptureFile \<Rightarrow> CaptureFile" where
  "add_tx t d c = c\<lparr>cf_records := cf_records c @
     [\<lparr>cr_timestamp_us = t, cr_direction = TX, cr_data = d\<rparr>]\<rparr>"

definition add_rx :: "int \<Rightarrow> bytes \<Rightarrow> CaptureFile \<Rightarrow> CaptureFile" where
  "add_rx t d c = c\<lparr>cf_records := cf_records c @
     [\<lparr>cr_timestamp_us = t, cr_direction = RX, cr_data = d\<rparr>]\<rparr>"

definition duration_us :: "CaptureFile \<Rightarrow> int" where
  "duration_us c =
     (if cf_records c = [] then 0
      else cr_timestamp_us (last (cf_records c)) - cr_timestamp_us (hd (cf_records c)))"

definition tx_bytes :: "CaptureFile \<Rightarrow> nat" where
  "tx_bytes c = sum_list (map (\<lambda>r. length (cr_data r)) (filter (\<lambda>r. cr_direction r = TX) (cf_records c)))"

definition rx_bytes :: "CaptureFile \<Rightarrow> nat" where
  "rx_bytes c = sum_list (map (\<lambda>r. length (cr_data r)) (filter (\<lambda>r. cr_direction r = RX) (cf_records c)))"

definition ljust :: "nat \<Rightarrow> bytes \<Rightarrow> bytes" where
  "ljust n d = d @ replicate (n - length d) 0"

definition rstrip0 :: "bytes \<Rightarrow> bytes" where
  "rstrip0 d = rev (dropWhile (\<lambda>b. b = 0) (rev d))"

definition encode_header :: "CaptureFile \<Rightarrow> exn + bytes" where
  "encode_header c =
     (let chip_bytes = ljust 32 (take 32 (cf_chip c)) in
      case (pack_le 2 DCAP_VERSION, pack_le 4 (cf_baudrate c), pack_le 2 (cf_flags c), pack_le 4 0) of
        (Inr v, Inr b, Inr f, Inr z) \<Rightarrow> Inr (DCAP_MAGIC @ v @ b @ chip_bytes @ f @ z)
      | _ \<Rightarrow> Inl StructError)"

definition encode_record :: "CaptureRecord \<Rightarrow> exn + bytes" where
  "encode_record r =
     (case (pack_le 8 (cr_timestamp_us r), pack_le 2 (int (length (cr_data r)))) of
        (Inr t, Inr l) \<Rightarrow> Inr (t @ [Direction_value (cr_direction r)] @ l @ cr_data r)
      | _ \<Rightarrow> Inl StructError)"

fun encode_records :: "CaptureRecord list \<Rightarrow> exn + bytes" where
  "encode_records [] = Inr []"
| "encode_records (r # rs) =
     (case encode_record r of
        Inl e \<Rightarrow> Inl e
      | Inr b \<Rightarrow> (case encode_records rs of Inl e \<Rightarrow> Inl e | Inr bs \<Rightarrow> Inr (b @ bs)))"

definition CaptureFile_encode :: "CaptureFile \<Rightarrow> exn + bytes" where
  "CaptureFile_encode c =
     (case encode_header c of
        Inl e \<Rightarrow> Inl e
      | Inr h \<Rightarrow>
          if length h \<noteq> HEADER_SIZE then Inl AssertionError
          else (case encode_records (cf_records c) of Inl e \<Rightarrow> Inl e | Inr bs \<Rightarrow> Inr (h @ bs)))"

function decode_records :: "bytes \<Rightarrow> nat \<Rightarrow> CaptureRecord list \<Rightarrow> exn + CaptureRecord list" where
  "decode_records data offset records =
     (if offset < length data then
        if offset + 11 > length data then Inr records
        else
          (let timestamp_us = le_val (pyslice offset (offset + 8) data);
               direction = data ! (offset + 8);
               len = nat (le_val (pyslice (offset + 9) (offset + 11) data));
               offset = offset + 11
           in if offset + len > length data then Inr records
              else (case Direction_of direction of
                      Inl e \<Rightarrow> Inl e
                    | Inr dir \<Rightarrow>
                        decode_records data (offset + len)
                          (records @ [\<lparr>cr_timestamp_us = timestamp_us, cr_direction = dir,
                                       cr_data = pyslice offset (offset + len) data\<rparr>])))
      else Inr records)"
  by pat_completeness auto
termination
  by (relation "measure (\<lambda>(data, offset, records). length data - offset)") auto

declare decode_records.simps [simp del]

definition CaptureFile_decode :: "bytes \<Rightarrow> exn + CaptureFile" where
  "CaptureFile_decode data =
     (if length data < HEADER_SIZE then Inl ValueError
      else
        (let magic = pyslice 0 4 data;
             version = le_val (pyslice 4 6 data);
             baudrate = le_val (pyslice 6 10 data);
             chip_bytes = pyslice 10 42 data;
             flags = le_val (pyslice 42 44 data)
         in if magic \<noteq> DCAP_MAGIC then Inl ValueError
            else if version \<noteq> DCAP_VERSION then Inl ValueError
            else (case decode_records data HEADER_SIZE [] of
                    Inl e \<Rightarrow> Inl e
                  | Inr records \<Rightarrow>
                      Inr \<lparr>cf_baudrate = baudrate, cf_chip = rstrip0 chip_bytes, cf_flags = flags,
                           cf_records = records\<rparr>)))"

section \<open>Round trip\<close>

definition record_ok :: "CaptureRecord \<Rightarrow> bool" where
  "record_ok r \<longleftrightarrow> 0 \<le> cr_timestamp_us r \<and> cr_timestamp_us r < 2 ^ 64 \<and> length (cr_data r) < 2 ^ 16"

definition record_bytes :: "CaptureRecord \<Rightarrow> bytes" where
  "record_bytes r = le_bytes 8 (cr_timestamp_us r) @ [Direction_value (cr_direction r)]
     @ le_bytes 2 (int (length (cr_data r))) @ cr_data r"

lemma length_record_bytes [simp]: "length (record_bytes r) = 11 + length (cr_data r)"
  by (simp add: record_bytes_def)

lemma encode_record_ok:
  "encode_record r = (if record_ok r then Inr (record_bytes r) else Inl StructError)"
  by (simp add: encode_record_def record_ok_def record_bytes_def pack_le_def)

lemma encode_records_ok:
  "encode_records rs =
     (if list_all record_ok rs then Inr (concat (map record_bytes rs)) else Inl StructError)"
  by (induction rs) (simp_all add: encode_record_ok)

lemma pyslice_within:
  "b \<le> n \<Longrightarrow> pyslice (off + a) (off + b) xs = pyslice a b (take n (drop off xs))"
  by (simp add: pyslice_def drop_take min_absorb1 add.commute)

lemma record_bytes_fields:
  assumes "record_ok r" "11 \<le> n"
  shows "le_val (pyslice 0 8 (take n (record_bytes r))) = cr_timestamp_us r"
    "take n (record_bytes r) ! 8 = Direction_value (cr_direction r)"
    "nat (le_val (pyslice 9 11 (take n (record_bytes r)))) = length (cr_data r)"
    "pyslice 11 (11 + length (cr_data r)) (record_bytes r) = cr_data r"
proof -
  have *: "drop 9 (take n (record_bytes r)) = take (n - 9) (le_bytes 2 (int (length (cr_data r))) @ cr_data r)"
    by (simp only: drop_take record_bytes_def) simp
  show "le_val (pyslice 0 8 (take n (record_bytes r))) = cr_timestamp_us r"
    using assms by (simp add: record_bytes_def pyslice_def le_val_le_bytes record_ok_def)
  show "take n (record_bytes r) ! 8 = Direction_value (cr_direction r)"
    using assms by (simp add: record_bytes_def nth_append)
  show "nat (le_val (pyslice 9 11 (take n (record_bytes r)))) = length (cr_data r)"
    using assms by (simp add: pyslice_def * le_val_le_bytes record_ok_def)
  show "pyslice 11 (11 + length (cr_data r)) (record_bytes r) = cr_data r"
    by (simp add: record_bytes_def pyslice_def)
qed

lemma Direction_of_value [simp]: "Direction_of (Direction_value d) = Inr d"
  by (cases d) (simp_all add: Direction_of_def Direction_value_def)

text \<open>The fields of a record that starts at \<open>offset\<close>, of which the file holds \<open>n\<close> bytes.\<close>

lemma record_fields_at:
  assumes "record_ok r" "11 \<le> n" "take n (drop offset data) = take n (record_bytes r)" "offset + n \<le> length data"
  shows "le_val (pyslice offset (offset + 8) data) = cr_timestamp_us r"
    "data ! (offset + 8) = Direction_value (cr_direction r)"
    "nat (le_val (pyslice (offset + 9) (offset + 11) data)) = length (cr_data r)"
proof -
  show "le_val (pyslice offset (offset + 8) data) = cr_timestamp_us r"
    using pyslice_within [of 8 n offset 0 data] record_bytes_fields(1) [OF assms(1,2)] assms by simp
  have "data ! (offset + 8) = take n (drop offset data) ! 8" using assms(2,4) by simp
  then show "data ! (offset + 8) = Direction_value (cr_direction r)"
    using assms(3) record_bytes_fields(2) [OF assms(1,2)] by simp
  show "nat (le_val (pyslice (offset + 9) (offset + 11) data)) = length (cr_data r)"
    using pyslice_within [of 11 n offset 9 data] record_bytes_fields(3) [OF assms(1,2)] assms by simp
qed

text \<open>The loop over offsets reads a complete record off the rest of the file and stops at a cut one.\<close>

lemma decode_records_next:
  assumes "record_ok r" "offset + length (record_bytes r) \<le> length data"
    "take (length (record_bytes r)) (drop offset data) = record_bytes r"
  shows "decode_records data offset acc = decode_records data (offset + length (record_bytes r)) (acc @ [r])"
proof -
  let ?n = "length (record_bytes r)"
  have n: "11 \<le> ?n" "?n = 11 + length (cr_data r)" by simp_all
  have at: "take ?n (drop offset data) = take ?n (record_bytes r)" using assms(3) by simp
  note f = record_fields_at [OF assms(1) n(1) at assms(2)]
  have d: "pyslice (offset + 11) (offset + 11 + length (cr_data r)) data = cr_data r"
    using pyslice_within [of ?n ?n offset 11 data] record_bytes_fields(4) [OF assms(1) n(1)] assms(3)
    by (simp add: add.assoc)
  have d': "pyslice (offset + 11) (offset + (11 + length (cr_data r))) data = cr_data r"
    using d by (simp only: add.assoc)
  show ?thesis
    using assms(2) by (subst decode_records.simps) (simp add: f d' Let_def add.assoc, cases r, simp)
qed

lemma decode_records_cut:
  assumes "record_ok r" "offset \<le> length data" "length data < offset + length (record_bytes r)"
    "drop offset data = take n (record_bytes r)"
  shows "decode_records data offset acc = Inr acc"
proof (cases "offset + 11 \<le> length data")
  case False
  then show ?thesis by (subst decode_records.simps) simp
next
  case True
  let ?n = "length data - offset"
  have "?n \<le> n"
    using arg_cong [OF assms(4), of length] by simp
  then have "take ?n (drop offset data) = take ?n (record_bytes r)"
    using assms(4) by (simp add: min_absorb2)
  with True assms(1,2) have "nat (le_val (pyslice (offset + 9) (offset + 11) data)) = length (cr_data r)"
    by (intro record_fields_at(3) [where n = ?n]) auto
  then show ?thesis
    using True assms(3) by (subst decode_records.simps) (simp add: Let_def)
qed

lemma decode_records_prefix:
  assumes "list_all record_ok rs" "offset \<le> length data"
    "drop offset data = take n (concat (map record_bytes rs))"
  shows "\<exists>k \<le> length rs. decode_records data offset acc = Inr (acc @ take k rs)
     \<and> (length (concat (map record_bytes rs)) \<le> n \<longrightarrow> k = length rs)"
  using assms
proof (induction rs arbitrary: offset n acc)
  case Nil
  then show ?case by (simp add: decode_records.simps)
next
  case (Cons r rs)
  let ?l = "length (record_bytes r)"
  have len: "length data - offset = min n (?l + length (concat (map record_bytes rs)))"
    using arg_cong [OF Cons.prems(3), of length] by simp
  show ?case
  proof (cases "?l \<le> n")
    case True
    then have fits: "offset + ?l \<le> length data" using len Cons.prems(2) by linarith
    have "take ?l (drop offset data) = record_bytes r"
      using Cons.prems(3) True by simp
    then have step: "decode_records data offset acc = decode_records data (offset + ?l) (acc @ [r])"
      using Cons.prems(1) fits by (intro decode_records_next) auto
    have rest: "drop (offset + ?l) data = take (n - ?l) (concat (map record_bytes rs))"
      using arg_cong [OF Cons.prems(3), of "drop ?l"] by (simp only: drop_take drop_drop add.commute) simp
    from Cons.IH [OF _ fits rest, of "acc @ [r]"] Cons.prems(1) obtain k where
      "k \<le> length rs" "decode_records data (offset + ?l) (acc @ [r]) = Inr (acc @ [r] @ take k rs)"
      "length (concat (map record_bytes rs)) \<le> n - ?l \<longrightarrow> k = length rs" by auto
    then show ?thesis
      using step True by (intro exI [of _ "Suc k"]) auto
  next
    case False
    have "decode_records data offset acc = Inr acc"
      using False Cons.prems len by (intro decode_records_cut [of r _ _ n]) auto
    with False show ?thesis by (intro exI [of _ 0]) auto
  qed
qed

lemma rstrip0_ljust: "rstrip0 (ljust n d) = rstrip0 d"
proof -
  have "dropWhile (\<lambda>b. b = 0) (replicate k 0 @ xs) = dropWhile (\<lambda>b. b = 0) xs" for k and xs :: bytes
    by (induction k) auto
  then show ?thesis by (simp add: rstrip0_def ljust_def)
qed

definition file_ok :: "CaptureFile \<Rightarrow> bool" where
  "file_ok c \<longleftrightarrow> 0 \<le> cf_baudrate c \<and> cf_baudrate c < 2 ^ 32 \<and> 0 \<le> cf_flags c \<and> cf_flags c < 2 ^ 16
     \<and> list_all record_ok (cf_records c)"

definition header_bytes :: "CaptureFile \<Rightarrow> bytes" where
  "header_bytes c = DCAP_MAGIC @ le_bytes 2 1 @ le_bytes 4 (cf_baudrate c)
     @ ljust 32 (take 32 (cf_chip c)) @ le_bytes 2 (cf_flags c) @ le_bytes 4 0"

lemma length_header_bytes [simp]: "length (header_bytes c) = 48"
  by (simp add: header_bytes_def DCAP_MAGIC_def ljust_def)

lemma CaptureFile_encode_ok:
  "CaptureFile_encode c =
     (if file_ok c then Inr (header_bytes c @ concat (map record_bytes (cf_records c))) else Inl StructError)"
proof -
  have "encode_header c =
      (if 0 \<le> cf_baudrate c \<and> cf_baudrate c < 2 ^ 32 \<and> 0 \<le> cf_flags c \<and> cf_flags c < 2 ^ 16
       then Inr (header_bytes c) else Inl StructError)"
    by (simp add: encode_header_def header_bytes_def pack_le_def DCAP_VERSION_def Let_def)
  then show ?thesis
    by (simp add: CaptureFile_encode_def file_ok_def encode_records_ok HEADER_SIZE_def)
qed

lemma CaptureFile_decode_header:
  assumes "file_ok c" "take 48 data = header_bytes c"
  shows "CaptureFile_decode data =
    (case decode_records data 48 [] of
       Inl e \<Rightarrow> Inl e
     | Inr rs \<Rightarrow> Inr (c\<lparr>cf_chip := rstrip0 (take 32 (cf_chip c)), cf_records := rs\<rparr>))"
proof -
  have len: "48 \<le> length data"
    using arg_cong [OF assms(2), of length] by simp
  have f: "pyslice a b data = pyslice a b (header_bytes c)" if "b \<le> 48" for a b
    using pyslice_within [OF that, of 0 a data] assms(2) by simp
  have "pyslice 0 4 (header_bytes c) = DCAP_MAGIC"
    "le_val (pyslice 4 6 (header_bytes c)) = 1"
    "le_val (pyslice 6 10 (header_bytes c)) = cf_baudrate c"
    "pyslice 10 42 (header_bytes c) = ljust 32 (take 32 (cf_chip c))"
    "le_val (pyslice 42 44 (header_bytes c)) = cf_flags c"
    using assms(1)
    by (simp_all add: header_bytes_def DCAP_MAGIC_def pyslice_def le_val_le_bytes file_ok_def ljust_def)
  then show ?thesis
    using len by (simp add: CaptureFile_decode_def HEADER_SIZE_def DCAP_VERSION_def f Let_def rstrip0_ljust
        split: sum.split)
qed

section \<open>Properties of the format\<close>


end
