(* ===== verification/Recording.thy ===== *)
theory Recording
  imports Capture
begin

text \<open>
  \<open>src/defib/capture/recorder.py\<close> and \<open>src/defib/capture/replayer.py\<close>. The recorder wraps any
  transport; what it writes down is the log against which the protocols are verified: a locale
  states what each transport operation adds to a log, and the recorder around an arbitrary
  transport interprets it.
\<close>

section \<open>The recorder\<close>

record 's RecordingTransport =
  rec_inner :: 's
  rec_capture :: CaptureFile
  rec_start_time :: usec

definition RecordingTransport_init :: "'s transport \<Rightarrow> 's \<Rightarrow> bytes \<Rightarrow> int \<Rightarrow> 's RecordingTransport" where
  "RecordingTransport_init T s chip baudrate =
     \<lparr>rec_inner = s,
      rec_capture = \<lparr>cf_baudrate = baudrate, cf_chip = chip, cf_flags = FLAG_HAS_TIMING, cf_records = []\<rparr>,
      rec_start_time = tr_now T s\<rparr>"

definition rec_timestamp_us :: "'s transport \<Rightarrow> 's RecordingTransport \<Rightarrow> int" where
  "rec_timestamp_us T st = tr_now T (rec_inner st) - rec_start_time st"

definition on_inner :: "('s, 'a) io \<Rightarrow> ('s RecordingTransport, 'a) io" where
  "on_inner m = (\<lambda>st. map_option (\<lambda>(r, i). (r, st\<lparr>rec_inner := i\<rparr>)) (m (rec_inner st)))"

definition rec_read :: "'s transport \<Rightarrow> nat \<Rightarrow> usec option \<Rightarrow> ('s RecordingTransport, bytes) io" where
  "rec_read T sz timeout =
     io_bind (on_inner (tr_read T sz timeout)) (\<lambda>data.
       if data \<noteq> []
       then io_then (io_modify (\<lambda>st. st\<lparr>rec_capture := add_rx (rec_timestamp_us T st) data (rec_capture st)\<rparr>))
              (io_return data)
       else io_return data)"

definition rec_write :: "'s transport \<Rightarrow> bytes \<Rightarrow> ('s RecordingTransport, unit) io" where
  "rec_write T data =
     io_then (io_modify (\<lambda>st. st\<lparr>rec_capture := add_tx (rec_timestamp_us T st) data (rec_capture st)\<rparr>))
       (on_inner (tr_write T data))"

text \<open>\<open>set_baudrate\<close> is not forwarded: the recorder inherits the default of the base class.\<close>

definition recording :: "'s transport \<Rightarrow> 's RecordingTransport transport" where
  "recording T =
     \<lparr>tr_read = rec_read T,
      tr_write = rec_write T,
      tr_flush_input = on_inner (tr_flush_input T),
      tr_flush_output = on_inner (tr_flush_output T),
      tr_bytes_waiting = on_inner (tr_bytes_waiting T),
      tr_unread = (\<lambda>data. on_inner (tr_unread T data)),
      tr_set_baudrate = default_set_baudrate,
      tr_close = on_inner (tr_close T),
      tr_now = (\<lambda>st. tr_now T (rec_inner st)),
      tr_sleep = (\<lambda>t. on_inner (tr_sleep T t)),
      tr_emit = (\<lambda>e. on_inner (tr_emit T e))\<rparr>"

definition rec_log :: "'s RecordingTransport \<Rightarrow> (Direction \<times> bytes) list" where
  "rec_log st = map (\<lambda>r. (cr_direction r, cr_data r)) (cf_records (rec_capture st))"

lemma recording_sel [simp]:
  "tr_read (recording T) = rec_read T" "tr_write (recording T) = rec_write T"
  "tr_flush_input (recording T) = on_inner (tr_flush_input T)"
  "tr_flush_output (recording T) = on_inner (tr_flush_output T)"
  "tr_bytes_waiting (recording T) = on_inner (tr_bytes_waiting T)"
  "tr_unread (recording T) = (\<lambda>data. on_inner (tr_unread T data))"
  "tr_set_baudrate (recording T) = default_set_baudrate"
  "tr_close (recording T) = on_inner (tr_close T)"
  "tr_now (recording T) = (\<lambda>st. tr_now T (rec_inner st))"
  "tr_sleep (recording T) = (\<lambda>t. on_inner (tr_sleep T t))"
  "tr_emit (recording T) = (\<lambda>e. on_inner (tr_emit T e))"
  by (simp_all add: recording_def)

section \<open>Logs\<close>

text \<open>What a read that gave \<open>r\<close> adds to the log.\<close>

definition read_log :: "exn + bytes \<Rightarrow> (Direction \<times> bytes) list" where
  "read_log r = (case r of Inl e \<Rightarrow> [] | Inr d \<Rightarrow> if d = [] then [] else [(RX, d)])"

lemma read_log_simps [simp]:
  "read_log (Inl e) = []" "read_log (Inr []) = []" "read_log (Inr (b # d)) = [(RX, b # d)]"
  by (simp_all add: read_log_def)

definition tx_of :: "(Direction \<times> bytes) list \<Rightarrow> bytes list" where
  "tx_of l = map snd (filter (\<lambda>e. fst e = TX) l)"

definition rx_of :: "(Direction \<times> bytes) list \<Rightarrow> bytes list" where
  "rx_of l = map snd (filter (\<lambda>e. fst e = RX) l)"

lemma tx_of_simps [simp]:
  "tx_of [] = []" "tx_of ((TX, d) # l) = d # tx_of l" "tx_of ((RX, d) # l) = tx_of l"
  "tx_of (l @ l') = tx_of l @ tx_of l'"
  by (simp_all add: tx_of_def)

lemma rx_of_simps [simp]:
  "rx_of [] = []" "rx_of ((TX, d) # l) = rx_of l" "rx_of ((RX, d) # l) = d # rx_of l"
  "rx_of (l @ l') = rx_of l @ rx_of l'"
  by (simp_all add: rx_of_def)

lemma tx_of_read_log [simp]: "tx_of (read_log r) = []"
  by (simp add: read_log_def split: sum.split)

locale logged_transport =
  fixes T :: "'s transport" and log :: "'s \<Rightarrow> (Direction \<times> bytes) list"
  assumes log_read: "wlp (tr_read T n t) s (\<lambda>r s'. log s' = log s @ read_log r)"
    and log_write: "wlp (tr_write T d) s (\<lambda>r s'. log s' = log s @ [(TX, d)])"
    and log_flush_input: "wlp (tr_flush_input T) s (\<lambda>r s'. log s' = log s)"
    and log_flush_output: "wlp (tr_flush_output T) s (\<lambda>r s'. log s' = log s)"
    and log_bytes_waiting: "wlp (tr_bytes_waiting T) s (\<lambda>r s'. log s' = log s)"
    and log_unread: "wlp (tr_unread T d) s (\<lambda>r s'. log s' = log s)"
    and log_set_baudrate: "wlp (tr_set_baudrate T b) s (\<lambda>r s'. log s' = log s)"
    and log_sleep: "wlp (tr_sleep T u) s (\<lambda>r s'. log s' = log s)"
    and log_emit: "wlp (tr_emit T ev) s (\<lambda>r s'. log s' = log s)"
begin

lemma wlp_readI:
  assumes "\<And>r s'. log s' = log s @ read_log r \<Longrightarrow> Q r s'"
  shows "wlp (tr_read T n t) s Q"
  using log_read by (rule wlp_mono) (rule assms)

lemma wlp_writeI:
  assumes "\<And>r s'. log s' = log s @ [(TX, d)] \<Longrightarrow> Q r s'"
  shows "wlp (tr_write T d) s Q"
  using log_write by (rule wlp_mono) (rule assms)

lemma wlp_flush_inputI:
  assumes "\<And>r s'. log s' = log s \<Longrightarrow> Q r s'"
  shows "wlp (tr_flush_input T) s Q"
  using log_flush_input by (rule wlp_mono) (rule assms)

lemma wlp_flush_outputI:
  assumes "\<And>r s'. log s' = log s \<Longrightarrow> Q r s'"
  shows "wlp (tr_flush_output T) s Q"
  using log_flush_output by (rule wlp_mono) (rule assms)

lemma wlp_sleepI:
  assumes "\<And>r s'. log s' = log s \<Longrightarrow> Q r s'"
  shows "wlp (tr_sleep T u) s Q"
  using log_sleep by (rule wlp_mono) (rule assms)

lemma wlp_emitI:
  assumes "\<And>r s'. log s' = log s \<Longrightarrow> Q r s'"
  shows "wlp (emit T st a b) s Q"
  unfolding emit_def using log_emit by (rule wlp_mono) (rule assms)

lemma wlp_bytes_waitingI:
  assumes "\<And>r s'. log s' = log s \<Longrightarrow> Q r s'"
  shows "wlp (tr_bytes_waiting T) s Q"
  using log_bytes_waiting by (rule wlp_mono) (rule assms)

lemma wlp_unreadI:
  assumes "\<And>r s'. log s' = log s \<Longrightarrow> Q r s'"
  shows "wlp (tr_unread T d) s Q"
  using log_unread by (rule wlp_mono) (rule assms)

lemma wlp_set_baudrateI:
  assumes "\<And>r s'. log s' = log s \<Longrightarrow> Q r s'"
  shows "wlp (tr_set_baudrate T b) s Q"
  using log_set_baudrate by (rule wlp_mono) (rule assms)

lemmas wlp_transport = wlp_readI wlp_writeI wlp_flush_inputI wlp_flush_outputI wlp_sleepI
  wlp_emitI wlp_set_baudrateI wlp_bytes_waitingI wlp_unreadI

end

lemma wlp_on_inner: "wlp (on_inner m) st Q = wlp m (rec_inner st) (\<lambda>r i. Q r (st\<lparr>rec_inner := i\<rparr>))"
  by (auto simp: wlp_def on_inner_def split: option.split)

lemma twp_on_inner: "twp (on_inner m) st Q = twp m (rec_inner st) (\<lambda>r i. Q r (st\<lparr>rec_inner := i\<rparr>))"
  by (auto simp: twp_def on_inner_def split: option.split)

lemma rec_log_simps [simp]:
  "rec_log (st\<lparr>rec_inner := i\<rparr>) = rec_log st"
  "rec_log (st\<lparr>rec_capture := add_rx t d c\<rparr>) = rec_log (st\<lparr>rec_capture := c\<rparr>) @ [(RX, d)]"
  "rec_log (st\<lparr>rec_capture := add_tx t d c\<rparr>) = rec_log (st\<lparr>rec_capture := c\<rparr>) @ [(TX, d)]"
  "rec_log (st\<lparr>rec_inner := i, rec_capture := add_rx t d c\<rparr>) = rec_log (st\<lparr>rec_capture := c\<rparr>) @ [(RX, d)]"
  "rec_log (st\<lparr>rec_inner := i, rec_capture := add_tx t d c\<rparr>) = rec_log (st\<lparr>rec_capture := c\<rparr>) @ [(TX, d)]"
  "rec_log (st\<lparr>rec_capture := rec_capture st\<rparr>) = rec_log st"
  by (simp_all add: rec_log_def add_rx_def add_tx_def)

lemma wlp_any: "(\<And>r s'. Q r s') \<Longrightarrow> wlp m s Q"
  by (auto simp: wlp_def split: option.split)

interpretation rec: logged_transport "recording T" rec_log for T
  by unfold_locales
     (auto simp: wp wlp_on_inner rec_read_def rec_write_def default_set_baudrate_def read_log_def
       intro!: wlp_any split: sum.split)

text \<open>Recording keeps the promises of the transport it wraps.\<close>

lemma on_inner_eq: "on_inner m st = Some (r, st') \<longleftrightarrow>
    (\<exists>i. m (rec_inner st) = Some (r, i) \<and> st' = st\<lparr>rec_inner := i\<rparr>)"
  by (auto simp: on_inner_def)

lemma timed_recording:
  assumes "timed_transport T"
  shows "timed_transport (recording T)"
proof -
  have inner: "\<exists>r s'. on_inner m st = Some (r, s') \<and> tr_now T (rec_inner st) \<le> tr_now T (rec_inner s')"
    if "\<exists>r i. m (rec_inner st) = Some (r, i) \<and> tr_now T (rec_inner st) \<le> tr_now T i"
    for st and m :: "('a, 'c) io"
    using that by (auto simp: on_inner_def)
  have rd: "\<exists>r i. tr_read T n (Some t) (rec_inner st) = Some (r, i)" for n t and st :: "'a RecordingTransport"
    by (rule timed_transport.read_ends [OF assms])
  show ?thesis
  proof (unfold_locales, goal_cases)
    case (1 n t s)
    obtain r i where "tr_read T n (Some t) (rec_inner s) = Some (r, i)" using rd by blast
    then show ?case
      by (cases r) (auto simp: rec_read_def io_defs on_inner_def)
  next
    case (2 n to s r s')
    then show ?case
      using timed_transport.read_advances [OF assms]
      by (auto simp: rec_read_def io_defs on_inner_def split: option.splits sum.splits prod.splits if_splits)
  next
    case (3 n to s d s')
    then show ?case
      using timed_transport.read_size [OF assms]
      by (auto simp: rec_read_def io_defs on_inner_def split: option.splits sum.splits prod.splits if_splits)
  next
    case (4 d s)
    obtain r i where "tr_write T d (rec_inner s) = Some (r, i)" "tr_now T (rec_inner s) \<le> tr_now T i"
      using timed_transport.write_ends [OF assms] by blast
    then show ?case by (auto simp: rec_write_def io_defs on_inner_def)
  next
    case (8 t s ru s')
    then show ?case
      using timed_transport.sleep_advances [OF assms] by (auto simp: on_inner_def)
  qed (simp_all add: inner timed_transport.bytes_waiting_ends [OF assms] timed_transport.unread_ends [OF assms] timed_transport.flush_input_ends [OF assms] timed_transport.flush_output_ends [OF assms]
      timed_transport.sleep_ends [OF assms] timed_transport.emit_ends [OF assms])
qed

section \<open>Sessions\<close>

text \<open>
  A session is a sequence of transport operations. \<open>run_session\<close> gives the results of the
  operations, up to the first one that raises.
\<close>

datatype transport_op = OpRead nat "usec option" | OpWrite bytes | OpFlushInput | OpFlushOutput | OpUnread bytes

fun run_op :: "'s transport \<Rightarrow> transport_op \<Rightarrow> ('s, bytes) io" where
  "run_op T (OpRead n t) = tr_read T n t"
| "run_op T (OpWrite d) = io_then (tr_write T d) (io_return [])"
| "run_op T OpFlushInput = io_then (tr_flush_input T) (io_return [])"
| "run_op T OpFlushOutput = io_then (tr_flush_output T) (io_return [])"
| "run_op T (OpUnread d) = io_then (tr_unread T d) (io_return [])"

fun run_session :: "'s transport \<Rightarrow> transport_op list \<Rightarrow> ('s, bytes list) io" where
  "run_session T [] = io_return []"
| "run_session T (c # cs) =
     io_bind (run_op T c) (\<lambda>d. io_bind (run_session T cs) (\<lambda>ds. io_return (d # ds)))"

fun op_log :: "transport_op \<Rightarrow> bytes \<Rightarrow> (Direction \<times> bytes) list" where
  "op_log (OpRead n t) d = read_log (Inr d)"
| "op_log (OpWrite w) d = [(TX, w)]"
| "op_log c d = []"

text \<open>The recorder is a simulation of the transport it wraps, and simulation is compositional.\<close>

definition records_as :: "('s RecordingTransport, 'a) io \<Rightarrow> ('s, 'a) io \<Rightarrow> bool" where
  "records_as m' m \<longleftrightarrow> (\<forall>st. map_option (map_prod id rec_inner) (m' st) = m (rec_inner st))"

lemma records_as_return: "records_as (io_return a) (io_return a)"
  by (simp add: records_as_def io_defs)

lemma records_as_bind:
  assumes "records_as m' m" "\<And>a. records_as (k' a) (k a)"
  shows "records_as (io_bind m' k') (io_bind m k)"
  unfolding records_as_def
proof
  fix st
  show "map_option (map_prod id rec_inner) (io_bind m' k' st) = io_bind m k (rec_inner st)"
  proof (cases "m' st")
    case None
    then show ?thesis
      using assms(1) [unfolded records_as_def, rule_format, of st] by (simp add: io_defs)
  next
    case (Some p)
    obtain r st' where p: "p = (r, st')" by (cases p)
    then have "m (rec_inner st) = Some (r, rec_inner st')"
      using assms(1) [unfolded records_as_def, rule_format, of st] Some by simp
    then show ?thesis
      using Some p assms(2) by (cases r) (simp_all add: io_defs records_as_def)
  qed
qed

lemma records_as_inner: "records_as (on_inner m) m"
  by (simp add: records_as_def on_inner_def option.map_comp comp_def case_prod_beta map_prod_def option.map_ident)

lemma records_as_op: "records_as (run_op (recording T) c) (run_op T c)"
proof -
  have rd: "records_as (rec_read T n t) (tr_read T n t)" for n t
    by (auto simp: records_as_def rec_read_def on_inner_def io_defs split: option.split sum.split prod.split)
  have wr: "records_as (rec_write T d) (tr_write T d)" for d
    using records_as_inner [of "tr_write T d"]
    by (simp add: records_as_def rec_write_def io_defs)
  show ?thesis
    by (cases c) (auto simp: rd wr io_then_def intro!: records_as_bind records_as_return records_as_inner)
qed

lemma records_as_session: "records_as (run_session (recording T) cs) (run_session T cs)"
  by (induction cs) (auto intro!: records_as_bind records_as_return records_as_op)

lemma run_op_log:
  "run_op (recording T) c st = Some (Inr d, st') \<Longrightarrow> rec_log st' = rec_log st @ op_log c d"
  by (cases c; auto simp: rec_read_def rec_write_def io_defs on_inner_def read_log_def
      split: option.splits sum.splits prod.splits if_splits)

lemma run_session_log:
  "run_session (recording T) cs st = Some (Inr ds, st') \<Longrightarrow>
     length ds = length cs \<and> rec_log st' = rec_log st @ concat (map2 op_log cs ds)"
proof (induction cs arbitrary: st ds)
  case (Cons c cs)
  then obtain d ds' st1 where
    "run_op (recording T) c st = Some (Inr d, st1)"
    "run_session (recording T) cs st1 = Some (Inr ds', st')" "ds = d # ds'"
    by (auto simp: io_defs split: option.splits prod.splits sum.splits)
  then show ?case
    using Cons.IH [of st1 ds'] run_op_log [of T c st d st1] by simp
qed (auto simp: io_defs)

section \<open>The replayer\<close>

record ReplayTransport =
  rp_rx_buffer :: bytes
  rp_tx_log :: "bytes list"
  rp_closed :: bool
  rp_clock :: usec

definition ReplayTransport_init :: "CaptureFile \<Rightarrow> ReplayTransport" where
  "ReplayTransport_init capture =
     \<lparr>rp_rx_buffer = fold (\<lambda>r buf. if cr_direction r = RX then buf @ cr_data r else buf) (cf_records capture) [],
      rp_tx_log = [], rp_closed = False, rp_clock = 0\<rparr>"

definition replay_read :: "nat \<Rightarrow> usec option \<Rightarrow> (ReplayTransport, bytes) io" where
  "replay_read sz timeout = (\<lambda>m0.
     let m = m0\<lparr>rp_clock := rp_clock m0 + 1\<rparr> in
     if rp_closed m then Some (Inr [], m)
     else if rp_rx_buffer m = [] then
       (case timeout of
          None \<Rightarrow> Some (Inl TransportTimeout, m)
        | Some t \<Rightarrow> Some (Inl TransportTimeout, m\<lparr>rp_clock := rp_clock m + max 0 (min t 1000)\<rparr>))
     else let count = min sz (length (rp_rx_buffer m))
          in Some (Inr (take count (rp_rx_buffer m)), m\<lparr>rp_rx_buffer := drop count (rp_rx_buffer m)\<rparr>))"

definition replay_write :: "bytes \<Rightarrow> (ReplayTransport, unit) io" where
  "replay_write data = io_modify (\<lambda>m. if rp_closed m then m else m\<lparr>rp_tx_log := rp_tx_log m @ [data]\<rparr>)"

definition replay_unread :: "bytes \<Rightarrow> (ReplayTransport, unit) io" where
  "replay_unread data = io_modify (\<lambda>m. m\<lparr>rp_rx_buffer := data @ rp_rx_buffer m\<rparr>)"

definition replay_transport :: "ReplayTransport transport" where
  "replay_transport =
     \<lparr>tr_read = replay_read,
      tr_write = replay_write,
      tr_flush_input = io_return (),
      tr_flush_output = io_return (),
      tr_bytes_waiting = io_get (\<lambda>m. length (rp_rx_buffer m)),
      tr_unread = replay_unread,
      tr_set_baudrate = default_set_baudrate,
      tr_close = io_modify (\<lambda>m. m\<lparr>rp_closed := True\<rparr>),
      tr_now = rp_clock,
      tr_sleep = (\<lambda>t. io_modify (\<lambda>m. m\<lparr>rp_clock := rp_clock m + max 0 t\<rparr>)),
      tr_emit = (\<lambda>e. io_return ())\<rparr>"

definition replay_all_tx_data :: "ReplayTransport \<Rightarrow> bytes" where
  "replay_all_tx_data m = concat (rp_tx_log m)"

definition replay_rx_remaining :: "ReplayTransport \<Rightarrow> nat" where
  "replay_rx_remaining m = length (rp_rx_buffer m)"

definition replay_complete :: "ReplayTransport \<Rightarrow> bool" where
  "replay_complete m \<longleftrightarrow> length (rp_rx_buffer m) = 0"

interpretation replay: timed_transport replay_transport
  by unfold_locales
     (auto simp: replay_transport_def replay_read_def replay_write_def replay_unread_def io_defs Let_def
       split: option.splits if_splits)

lemma replay_buffer: "rp_rx_buffer (ReplayTransport_init c) =
    concat (rx_of (map (\<lambda>r. (cr_direction r, cr_data r)) (cf_records c)))"
proof -
  have "fold (\<lambda>r buf. if cr_direction r = RX then buf @ cr_data r else buf) rs buf
      = buf @ concat (rx_of (map (\<lambda>r. (cr_direction r, cr_data r)) rs))" for rs :: "CaptureRecord list" and buf
    by (induction rs arbitrary: buf) (auto simp: rx_of_def)
  then show ?thesis by (simp add: ReplayTransport_init_def)
qed

fun op_read :: "transport_op \<Rightarrow> bytes \<Rightarrow> bytes" where
  "op_read (OpRead n t) d = d"
| "op_read c d = []"

fun op_written :: "transport_op \<Rightarrow> bytes list" where
  "op_written (OpWrite w) = [w]"
| "op_written c = []"

lemma op_log_rx: "concat (rx_of (op_log c d)) = op_read c d"
  by (cases c; cases d) auto

lemma op_log_tx: "tx_of (op_log c d) = op_written c"
  by (cases c) auto

lemma session_log_projections:
  "length ds = length cs \<Longrightarrow>
     concat (rx_of (concat (map2 op_log cs ds))) = concat (map2 op_read cs ds)
     \<and> tx_of (concat (map2 op_log cs ds)) = concat (map op_written cs)"
  by (induction ds cs rule: list_induct2) (simp_all add: op_log_rx op_log_tx)

section \<open>Properties\<close>


end
