(* ===== verification/Delivery.thy ===== *)
theory Delivery
  imports Frames Recording
begin

text \<open>
  What the three boot protocols have in common when a payload is sent: a HEAD frame, numbered
  DATA frames and a TAIL frame, each repeated until it is acknowledged. The frames of a transfer
  are related to the writes in the log of a session, and to the payload by the decoders.
\<close>

section \<open>Frames of a transfer\<close>

fun data_frames :: "nat \<Rightarrow> bytes list \<Rightarrow> bytes list" where
  "data_frames seq [] = []"
| "data_frames seq (c # cs) =
     DataFrame_encode \<lparr>data_seq = int seq, data_payload = c\<rparr> # data_frames (Suc seq) cs"

definition head_frame :: "int \<Rightarrow> int \<Rightarrow> bytes" where
  "head_frame len addr = append_crc (HEAD_MAGIC @ be_bytes 4 len @ be_bytes 4 addr)"

definition tail_frame :: "nat \<Rightarrow> bytes" where
  "tail_frame seq = TailFrame_encode \<lparr>tail_seq = int seq\<rparr>"

text \<open>The frames that carry \<open>data\<close>, announced as \<open>len\<close> bytes, to \<open>addr\<close>, without the TAIL.\<close>

definition transfer_frames :: "int \<Rightarrow> int \<Rightarrow> bytes \<Rightarrow> bytes list" where
  "transfer_frames len addr data =
     head_frame len addr # data_frames 1 (chunks_from MAX_DATA_LEN data)"

lemma HeadFrame_encode_Inr:
  "HeadFrame_encode \<lparr>head_length = l, head_address = a\<rparr> = Inr f \<Longrightarrow>
     f = head_frame l a \<and> 0 \<le> l \<and> l < 2 ^ 32 \<and> 0 \<le> a \<and> a < 2 ^ 32"
  by (auto simp: HeadFrame_encode_def pack_be_def head_frame_def append_crc_def Let_def split: if_splits)

text \<open>A receiver that decodes the frames gets the payload back, in sequence.\<close>

fun receive :: "nat \<Rightarrow> bytes list \<Rightarrow> bytes option" where
  "receive seq [] = Some []"
| "receive seq (f # fs) =
     (case DataFrame_decode f of
        Inl e \<Rightarrow> None
      | Inr d \<Rightarrow> if data_seq d = int seq mod 256
                 then map_option (\<lambda>rest. data_payload d @ rest) (receive (Suc seq) fs) else None)"

lemma receive_data_frames:
  "list_all (\<lambda>c. c \<noteq> []) cs \<Longrightarrow> receive seq (data_frames seq cs) = Some (concat cs)"
  by (induction cs arbitrary: seq) (simp_all add: DataFrame_decode_encode)

section \<open>Repetition\<close>

text \<open>\<open>delivers fs tx\<close>: the writes \<open>tx\<close> are the frames \<open>fs\<close> in order, each at least once.\<close>

inductive delivers :: "bytes list \<Rightarrow> bytes list \<Rightarrow> bool" where
  delivers_Nil: "delivers [] []"
| delivers_Cons: "delivers fs tx \<Longrightarrow> 0 < k \<Longrightarrow> delivers (f # fs) (replicate k f @ tx)"

inductive_cases delivers_NilE: "delivers [] tx"
inductive_cases delivers_ConsE: "delivers (f # fs) tx"

lemma delivers_single: "0 < k \<Longrightarrow> delivers [f] (replicate k f)"
  using delivers_Cons [OF delivers_Nil, of k f] by simp

lemma delivers_append: "delivers fs tx \<Longrightarrow> delivers gs ty \<Longrightarrow> delivers (fs @ gs) (tx @ ty)"
  by (induction rule: delivers.induct) (auto intro: delivers_Cons)

lemma delivers_set: "delivers fs tx \<Longrightarrow> set tx = set fs"
  by (induction rule: delivers.induct) auto

text \<open>Dropping consecutive repetitions recovers the frames, when no frame equals its successor.\<close>

lemma delivers_remdups_adj:
  "delivers fs tx \<Longrightarrow> remdups_adj fs = fs \<Longrightarrow> remdups_adj tx = fs"
proof (induction rule: delivers.induct)
  case (delivers_Cons fs tx k f)
  have rep: "remdups_adj (replicate n f @ tx) = remdups_adj (f # tx)" if "0 < n" for n
    using that
  proof (induction n)
    case (Suc n)
    then show ?case by (cases n) simp_all
  qed simp
  have "remdups_adj fs \<noteq> f # fs"
    using remdups_adj_length [of fs] by (metis impossible_Cons)
  then have fs: "remdups_adj fs = fs"
    using delivers_Cons.prems by (auto simp: remdups_adj_Cons split: list.splits if_splits)
  with delivers_Cons.IH have "remdups_adj (f # tx) = remdups_adj (f # fs)"
    by (simp add: remdups_adj_Cons)
  with rep delivers_Cons show ?case by simp
qed simp

lemma data_frame_neq:
  "DataFrame_encode \<lparr>data_seq = i, data_payload = c\<rparr> = DataFrame_encode \<lparr>data_seq = j, data_payload = d\<rparr> \<Longrightarrow>
   i mod 256 = j mod 256"
proof -
  assume "DataFrame_encode \<lparr>data_seq = i, data_payload = c\<rparr> = DataFrame_encode \<lparr>data_seq = j, data_payload = d\<rparr>"
  from arg_cong [OF this, of "\<lambda>l. l ! 1"] have "(word_of_int i :: byte) = word_of_int j"
    by (simp only: DataFrame_encode_append_crc append_crc_bytes append_Cons DataFrame.select_convs
        nth_Cons_Suc nth_Cons_0 One_nat_def)
  from arg_cong [OF this, of uint] show ?thesis by (simp only: uint_word_of_int_8)
qed

lemma data_frames_adjacent: "remdups_adj (data_frames seq cs) = data_frames seq cs"
proof (induction cs arbitrary: seq)
  case (Cons c cs)
  have "int seq mod 256 \<noteq> (1 + int seq) mod 256"
    by (auto simp: mod_eq_dvd_iff)
  then show ?case
    using Cons.IH [of "Suc seq"] data_frame_neq [of "int seq" c "1 + int seq"]
    by (cases cs) (auto simp: remdups_adj_Cons)
qed simp

lemma transfer_frames_adjacent: "remdups_adj (transfer_frames len addr data) = transfer_frames len addr data"
proof -
  have "head_frame l a \<noteq> DataFrame_encode f" for l a f
    by (simp add: head_frame_def DataFrame_encode_append_crc append_crc_bytes HEAD_MAGIC_def DATA_MAGIC_def)
  then show ?thesis
    using data_frames_adjacent [of 1 "chunks_from MAX_DATA_LEN data"]
    by (cases "chunks_from MAX_DATA_LEN data") (simp_all add: transfer_frames_def remdups_adj_Cons)
qed

text \<open>
  So a receiver that ignores repeated frames sees the HEAD frame and then DATA frames that
  decode, in sequence, to the payload.
\<close>

lemma transfer_received:
  assumes "delivers (transfer_frames len addr data) tx"
  shows "\<exists>fs. remdups_adj tx = head_frame len addr # fs \<and> receive 1 fs = Some data"
proof -
  have n: "0 < MAX_DATA_LEN" by (simp add: MAX_DATA_LEN_def)
  have "remdups_adj tx = transfer_frames len addr data"
    using delivers_remdups_adj [OF assms transfer_frames_adjacent] .
  moreover have "receive 1 (data_frames 1 (chunks_from MAX_DATA_LEN data)) = Some data"
    using receive_data_frames [of "chunks_from MAX_DATA_LEN data" 1] concat_chunks_from [OF n, of data]
      chunks_from_lengths [OF n, of data] by (auto simp: list_all_iff)
  ultimately show ?thesis by (simp add: transfer_frames_def)
qed

end
