(* ===== verification/Profiles.thy ===== *)
theory Profiles
  imports Prelude
begin

text \<open>
  \<open>src/defib/profiles\<close>: SoC profiles and their loading through alias files. The JSON reader and the
  validation library are parameters; the checks and the resolution that the sources do themselves
  are modelled.
\<close>

section \<open>Python strings\<close>

definition lower_char :: "char \<Rightarrow> char" where
  "lower_char c =
     (let n = (of_char c :: nat) in if 65 \<le> n \<and> n \<le> 90 then char_of (n + 32) else c)"

definition lower :: "string \<Rightarrow> string" where
  "lower s = map lower_char s"

definition is_space :: "char \<Rightarrow> bool" where
  "is_space c \<longleftrightarrow> (let n = (of_char c :: nat) in n = 32 \<or> (9 \<le> n \<and> n \<le> 13) \<or> (28 \<le> n \<and> n \<le> 31))"

definition strip :: "string \<Rightarrow> string" where
  "strip s = rev (dropWhile is_space (rev (dropWhile is_space s)))"

fun split_words_aux :: "string \<Rightarrow> string \<Rightarrow> string list" where
  "split_words_aux w [] = (if w = [] then [] else [w])"
| "split_words_aux w (c # cs) =
     (if is_space c then (if w = [] then split_words_aux [] cs else w # split_words_aux [] cs)
      else split_words_aux (w @ [c]) cs)"

definition split_words :: "string \<Rightarrow> string list" where
  "split_words s = split_words_aux [] s"

definition endswith :: "'a list \<Rightarrow> 'a list \<Rightarrow> bool" where
  "endswith suf s \<longleftrightarrow> length suf \<le> length s \<and> drop (length s - length suf) s = suf"

text \<open>\<open>int(s, 16)\<close>: white space, a sign, a prefix, and hexadecimal digits with single underscores.\<close>

definition hex_digit :: "char \<Rightarrow> int option" where
  "hex_digit c =
     (let n = (of_char c :: nat) in
      if 48 \<le> n \<and> n \<le> 57 then Some (int n - 48)
      else if 97 \<le> n \<and> n \<le> 102 then Some (int n - 87)
      else if 65 \<le> n \<and> n \<le> 70 then Some (int n - 55)
      else None)"

fun hex_digits :: "bool \<Rightarrow> int \<Rightarrow> string \<Rightarrow> int option" where
  "hex_digits ok acc [] = (if ok then Some acc else None)"
| "hex_digits ok acc (c # cs) =
     (if c = CHR ''_'' then (if ok then hex_digits False acc cs else None)
      else case hex_digit c of None \<Rightarrow> None | Some d \<Rightarrow> hex_digits True (acc * 16 + d) cs)"

definition hex_unsigned :: "string \<Rightarrow> int option" where
  "hex_unsigned s =
     (case s of
        c0 # x # rest \<Rightarrow>
          if c0 = CHR ''0'' \<and> (x = CHR ''x'' \<or> x = CHR ''X'')
          then (case rest of
                  [] \<Rightarrow> None
                | c # cs \<Rightarrow> if c = CHR ''_'' then hex_digits False 0 cs else hex_digits False 0 rest)
          else hex_digits False 0 s
      | _ \<Rightarrow> hex_digits False 0 s)"

definition int16 :: "string \<Rightarrow> exn + int" where
  "int16 s0 =
     (let s = strip s0;
          r = (case s of
                 c # cs \<Rightarrow> if c = CHR ''-'' then map_option uminus (hex_unsigned cs)
                           else if c = CHR ''+'' then hex_unsigned cs else hex_unsigned s
               | [] \<Rightarrow> None)
      in case r of None \<Rightarrow> Inl ValueError | Some v \<Rightarrow> Inr v)"

section \<open>Profiles\<close>

record FlashPartition =
  fp_lba :: int
  fp_sectors :: int

definition end_lba :: "FlashPartition \<Rightarrow> int" where
  "end_lba p = fp_lba p + fp_sectors p"

definition size_bytes :: "FlashPartition \<Rightarrow> int" where
  "size_bytes p = fp_sectors p * 512"

datatype recovery_kind = UART | USB

record SoCProfile =
  prof_name :: string
  recovery :: recovery_kind
  prestep0 :: "int list option"
  prestep1 :: "int list option"
  ddrstep0 :: "int list option"
  addresses :: "string list option"
  file_lengths :: "string list option"
  step_lengths :: "string list option"
  sram_limit :: "string option"
  spl_blob :: "string option"
  usb_recovery_ids :: "int list"
  loader_ddr :: "string option"
  loader_usbplug :: "string option"
  partitions :: "(string \<times> FlashPartition) list"
  spl_data :: "bytes option"

definition check_recovery_fields :: "SoCProfile \<Rightarrow> exn + SoCProfile" where
  "check_recovery_fields p =
     (if recovery p = UART \<and>
         (ddrstep0 p = None \<or> addresses p = None \<or> file_lengths p = None \<or> step_lengths p = None)
      then Inl ValueError else Inr p)"

definition require_uart :: "SoCProfile \<Rightarrow> exn + unit" where
  "require_uart p = (if recovery p \<noteq> UART then Inl ValueError else Inr ())"

text \<open>\<open>bytes(list)\<close> raises for entries that are no bytes.\<close>

definition bytes_of_ints :: "int list \<Rightarrow> exn + bytes" where
  "bytes_of_ints xs =
     (if list_all (\<lambda>x. 0 \<le> x \<and> x < 256) xs then Inr (map word_of_int xs) else Inl ValueError)"

definition hex_item :: "string list option \<Rightarrow> nat \<Rightarrow> exn + int" where
  "hex_item l i =
     (case l of
        None \<Rightarrow> Inl AssertionError
      | Some xs \<Rightarrow> if i < length xs then int16 (xs ! i) else Inl IndexError)"

definition sum_bind :: "exn + 'a \<Rightarrow> ('a \<Rightarrow> exn + 'b) \<Rightarrow> exn + 'b" where
  "sum_bind r f = (case r of Inl e \<Rightarrow> Inl e | Inr a \<Rightarrow> f a)"

definition ddr_step_address :: "SoCProfile \<Rightarrow> exn + int" where
  "ddr_step_address p = sum_bind (require_uart p) (\<lambda>_. hex_item (addresses p) 0)"

definition spl_address :: "SoCProfile \<Rightarrow> exn + int" where
  "spl_address p = sum_bind (require_uart p) (\<lambda>_. hex_item (addresses p) 1)"

definition uboot_address :: "SoCProfile \<Rightarrow> exn + int" where
  "uboot_address p = sum_bind (require_uart p) (\<lambda>_. hex_item (addresses p) 2)"

definition spl_max_size :: "SoCProfile \<Rightarrow> exn + int" where
  "spl_max_size p = sum_bind (require_uart p) (\<lambda>_. hex_item (file_lengths p) 1)"

definition spl_sram_limit :: "SoCProfile \<Rightarrow> exn + int option" where
  "spl_sram_limit p =
     (case sram_limit p of None \<Rightarrow> Inr None | Some s \<Rightarrow> map_sum id Some (int16 s))"

definition ddr_step_data :: "SoCProfile \<Rightarrow> exn + bytes" where
  "ddr_step_data p =
     sum_bind (require_uart p) (\<lambda>_. case ddrstep0 p of None \<Rightarrow> Inl AssertionError | Some xs \<Rightarrow> bytes_of_ints xs)"

definition prestep_data :: "SoCProfile \<Rightarrow> exn + bytes option" where
  "prestep_data p = (case prestep0 p of None \<Rightarrow> Inr None | Some xs \<Rightarrow> map_sum id Some (bytes_of_ints xs))"

definition prestep1_data :: "SoCProfile \<Rightarrow> exn + bytes option" where
  "prestep1_data p = (case prestep1 p of None \<Rightarrow> Inr None | Some xs \<Rightarrow> map_sum id Some (bytes_of_ints xs))"

section \<open>Loading\<close>

definition MAX_ALIAS_DEPTH :: nat where "MAX_ALIAS_DEPTH = 23"

definition parse_chip_variant :: "string \<Rightarrow> string \<times> string option" where
  "parse_chip_variant chip =
     (if CHR '':'' \<in> set chip then
        (let base = takeWhile (\<lambda>c. c \<noteq> CHR '':'') chip; variant = drop (length base + 1) chip
         in (lower base, if variant = [] then None else Some (lower variant)))
      else (lower chip, None))"

text \<open>
  What a profile directory holds: the text of each \<open>.json\<close> file and the bytes of each blob. The
  JSON reader gives an object as a finite map; \<open>variants_of\<close> reads the object of variants and
  \<open>validate\<close> is the validation library's construction of the model.
\<close>

record profile_dir =
  pd_text :: "string \<rightharpoonup> string"
  pd_blob :: "string \<rightharpoonup> bytes"

record 'j json_reader =
  jr_loads :: "string \<Rightarrow> exn + (string \<rightharpoonup> 'j)"
  jr_variants_of :: "'j \<Rightarrow> (string \<rightharpoonup> (string \<rightharpoonup> 'j))"
  jr_validate :: "(string \<rightharpoonup> 'j) \<Rightarrow> exn + SoCProfile"

definition alias_target :: "string \<Rightarrow> string option" where
  "alias_target content =
     (case split_words content of
        [t] \<Rightarrow> if endswith ''.json'' t then Some (take (length t - 5) t) else None
      | _ \<Rightarrow> None)"

definition load_json :: "'j json_reader \<Rightarrow> profile_dir \<Rightarrow> string \<Rightarrow> string option \<Rightarrow> exn + SoCProfile" where
  "load_json J dir content variant =
     sum_bind (jr_loads J content) (\<lambda>data0.
       let variants = (case data0 ''variants'' of None \<Rightarrow> Map.empty | Some v \<Rightarrow> jr_variants_of J v);
           data = data0(''variants'' := None)
       in sum_bind
            (case variant of
               None \<Rightarrow> Inr data
             | Some v \<Rightarrow> (case variants v of None \<Rightarrow> Inl ValueError | Some ov \<Rightarrow> Inr (data ++ ov)))
            (\<lambda>data. sum_bind (sum_bind (jr_validate J data) check_recovery_fields) (\<lambda>profile.
               case spl_blob profile of
                 None \<Rightarrow> Inr profile
               | Some blob \<Rightarrow>
                   if blob = [] then Inr profile
                   else (case pd_blob dir blob of
                           None \<Rightarrow> Inl FileNotFoundError
                         | Some d \<Rightarrow> Inr (profile\<lparr>spl_data := Some d\<rparr>)))))"

fun load_loop :: "'j json_reader \<Rightarrow> profile_dir \<Rightarrow> string option \<Rightarrow> nat \<Rightarrow> string \<Rightarrow> exn + SoCProfile" where
  "load_loop J dir variant 0 current = Inl ValueError"
| "load_loop J dir variant (Suc n) current =
     (case pd_text dir current of
        None \<Rightarrow> Inl FileNotFoundError
      | Some text \<Rightarrow>
          let content = strip text in
          (case alias_target content of
             Some target \<Rightarrow> load_loop J dir variant n target
           | None \<Rightarrow> load_json J dir content variant))"

definition load_profile :: "'j json_reader \<Rightarrow> profile_dir \<Rightarrow> string \<Rightarrow> exn + SoCProfile" where
  "load_profile J dir chip_name =
     (let (base_chip, variant) = parse_chip_variant chip_name
      in load_loop J dir variant MAX_ALIAS_DEPTH base_chip)"

definition recovery_mode :: "'j json_reader \<Rightarrow> profile_dir \<Rightarrow> string \<Rightarrow> exn + recovery_kind" where
  "recovery_mode J dir chip_name =
     (case load_profile J dir chip_name of
        Inr p \<Rightarrow> Inr (recovery p)
      | Inl e \<Rightarrow> if e = FileNotFoundError then Inr UART else Inl e)"

section \<open>Alias chains\<close>

text \<open>The file that \<open>k\<close> aliases lead to.\<close>

definition alias_of :: "profile_dir \<Rightarrow> string \<Rightarrow> string option" where
  "alias_of dir c = Option.bind (pd_text dir c) (\<lambda>t. alias_target (strip t))"

fun follow :: "profile_dir \<Rightarrow> nat \<Rightarrow> string \<Rightarrow> string option" where
  "follow dir 0 c = Some c"
| "follow dir (Suc k) c = Option.bind (alias_of dir c) (follow dir k)"

lemma load_loop_follow:
  "follow dir k c = Some target \<Longrightarrow> load_loop J dir variant (k + n) c = load_loop J dir variant n target"
  by (induction k arbitrary: c)
     (auto simp: alias_of_def Let_def split: option.splits bind_splits)

lemma follow_long: "follow dir k c = Some t \<Longrightarrow> n \<le> k \<Longrightarrow> \<exists>t'. follow dir n c = Some t'"
proof (induction k arbitrary: c n)
  case (Suc k)
  then show ?case by (cases n) (auto split: bind_splits)
qed simp

text \<open>C32: loading always returns. A chip whose chain of fewer than 23 aliases ends at a profile
  file loads exactly that file; a chain of 23 or more aliases, in particular every alias loop, is
  refused with \<open>ValueError\<close>; a chain that ends at a missing file raises \<open>FileNotFoundError\<close>.\<close>

theorem load_profile_aliases:
  assumes "parse_chip_variant chip = (base, variant)"
    and "follow dir k base = Some target"
  shows "(23 \<le> k \<longrightarrow> load_profile J dir chip = Inl ValueError)
    \<and> (k < 23 \<longrightarrow> pd_text dir target = None \<longrightarrow> load_profile J dir chip = Inl FileNotFoundError)
    \<and> (\<forall>t. k < 23 \<longrightarrow> pd_text dir target = Some t \<longrightarrow> alias_target (strip t) = None \<longrightarrow>
         load_profile J dir chip = load_json J dir (strip t) variant)"
proof -
  have "load_profile J dir chip = load_loop J dir variant 23 base"
    using assms(1) by (simp add: load_profile_def MAX_ALIAS_DEPTH_def)
  moreover have "load_loop J dir variant (k + n) base = load_loop J dir variant n target" for n
    by (rule load_loop_follow [OF assms(2)])
  moreover have "load_loop J dir variant 23 base = Inl ValueError" if "23 \<le> k"
    using follow_long [OF assms(2) that] by (metis load_loop.simps(1) load_loop_follow add_0_right)
  moreover have "load_loop J dir variant 23 base = load_loop J dir variant (Suc (22 - k)) target" if "k < 23"
    using load_loop_follow [OF assms(2), of J variant "Suc (22 - k)"] that by simp
  ultimately show ?thesis
    by (auto simp: Let_def)
qed

theorem load_profile_aliases_witness:
  "load_profile \<lparr>jr_loads = (\<lambda>_. Inr Map.empty), jr_variants_of = (\<lambda>_ :: unit. Map.empty),
      jr_validate = (\<lambda>_. Inl ValueError)\<rparr>
     \<lparr>pd_text = [''a'' \<mapsto> ''b.json'', ''b'' \<mapsto> ''a.json''], pd_blob = Map.empty\<rparr> ''A'' = Inl ValueError"
proof -
  let ?dir = "\<lparr>pd_text = [''a'' \<mapsto> ''b.json'', ''b'' \<mapsto> ''a.json''], pd_blob = Map.empty\<rparr>"
  have "parse_chip_variant ''A'' = (''a'', None)" by code_simp
  moreover have "follow ?dir 24 ''a'' = Some ''a''" by code_simp
  ultimately show ?thesis
    using load_profile_aliases [of "''A''" "''a''" None ?dir 24 "''a''"] by simp
qed

end
