(* ===== verification/HisiStandard.thy ===== *)
theory HisiStandard
  imports Delivery Profiles
begin

text \<open>
  \<open>src/defib/protocol/hisilicon_standard.py\<close>: the boot protocol of the classic SoCs. Loops bounded
  by the clock take fuel; a handshake that never succeeds does not return. Log messages are left
  out, except where evaluating their arguments raises.
\<close>

unbundle bit_operations_syntax

section \<open>Constants and state\<close>

definition BOOTMODE_MARKER :: bytes where "BOOTMODE_MARKER = [0x20]"
definition BOOTMODE_COUNT :: nat where "BOOTMODE_COUNT = 5"
definition BOOTMODE_ACK :: bytes where "BOOTMODE_ACK = [0xAA]"
definition FRAME_SEND_RETRIES_SHORT :: nat where "FRAME_SEND_RETRIES_SHORT = 16"
definition FRAME_SEND_RETRIES_LONG :: nat where "FRAME_SEND_RETRIES_LONG = 32"

record HiSiliconStandard =
  hs_profile :: "SoCProfile option"
  hs_continuous_ack :: bool

definition HiSiliconStandard_init :: HiSiliconStandard where
  "HiSiliconStandard_init = \<lparr>hs_profile = None, hs_continuous_ack = False\<rparr>"

definition set_profile :: "SoCProfile \<Rightarrow> HiSiliconStandard \<Rightarrow> HiSiliconStandard" where
  "set_profile p st = st\<lparr>hs_profile := Some p\<rparr>"

definition set_continuous_ack :: "bool \<Rightarrow> HiSiliconStandard \<Rightarrow> HiSiliconStandard" where
  "set_continuous_ack b st = st\<lparr>hs_continuous_ack := b\<rparr>"

definition HiSiliconStandard_matches :: "string list \<Rightarrow> string \<Rightarrow> bool" where
  "HiSiliconStandard_matches chips chip_name \<longleftrightarrow> lower chip_name \<in> set (map lower chips)"

definition uses_frame_blast_handshake :: "HiSiliconStandard \<Rightarrow> exn + bool" where
  "uses_frame_blast_handshake st =
     (case hs_profile st of
        None \<Rightarrow> Inr False
      | Some p \<Rightarrow> map_sum id (\<lambda>d. d \<noteq> None) (prestep_data p))"

section \<open>Handshake\<close>

text \<open>What a byte means: none to enter boot mode, or the new values of \<open>ever_saw_data\<close> and the
  counter. A read that returned nothing makes the log message index an empty string.\<close>

definition handshake_byte :: "bool \<Rightarrow> nat \<Rightarrow> bytes \<Rightarrow> exn + (bool \<times> nat) option" where
  "handshake_byte ever_saw_data counter b =
     (if b = [0] then Inr (Some (ever_saw_data, counter))
      else if b = [] then Inl IndexError
      else let counter = (if b = BOOTMODE_MARKER then counter + 1 else 0)
           in if counter \<ge> BOOTMODE_COUNT then Inr None else Inr (Some (True, counter)))"

definition handshake_enter :: "'s transport \<Rightarrow> bool \<Rightarrow> ('s, HandshakeResult) io" where
  "handshake_enter T flooding =
     io_then (if \<not> flooding then tr_write T BOOTMODE_ACK else io_return ())
       (io_then (tr_flush_input T)
         (io_then (emit T HANDSHAKE 1 1)
           (io_return (HandshakeResult_ok None None None))))"

fun handshake_loop :: "'s transport \<Rightarrow> nat \<Rightarrow> bool \<Rightarrow> bool \<Rightarrow> nat \<Rightarrow> ('s, HandshakeResult) io" where
  "handshake_loop T 0 flooding ever_saw_data counter = io_diverge"
| "handshake_loop T (Suc fuel) flooding ever_saw_data counter =
     io_then (if flooding then tr_write T (replicate 64 0xAA) else io_return ())
       (io_try (tr_read T 1 (Some (if flooding then 50000 else 1000000)))
         (\<lambda>e. if e = TransportTimeout
              then handshake_loop T fuel (flooding \<or> ever_saw_data) ever_saw_data counter
              else io_raise e)
         (\<lambda>b. io_bind (io_lift (handshake_byte ever_saw_data counter b)) (\<lambda>next.
              case next of
                None \<Rightarrow> handshake_enter T flooding
              | Some (ever, counter) \<Rightarrow> handshake_loop T fuel flooding ever counter)))"

definition handshake :: "HiSiliconStandard \<Rightarrow> 's transport \<Rightarrow> nat \<Rightarrow> ('s, HandshakeResult) io" where
  "handshake st T fuel =
     io_then (emit T HANDSHAKE 0 1) (handshake_loop T fuel (hs_continuous_ack st) False 0)"

section \<open>Frames on the wire\<close>

text \<open>The inner loop: read until the ACK byte, a timeout, or the end of the attempt's window.\<close>

fun await_ack :: "'s transport \<Rightarrow> nat \<Rightarrow> usec \<Rightarrow> ('s, bool) io" where
  "await_ack T 0 deadline = io_diverge"
| "await_ack T (Suc fuel) deadline =
     io_bind (io_get (\<lambda>s. deadline - tr_now T s)) (\<lambda>remaining.
       if remaining \<le> 0 then io_return False
       else io_try (tr_read T 1 (Some remaining))
         (\<lambda>e. if e = TransportTimeout then io_return False else io_raise e)
         (\<lambda>b. if b = ACK_BYTE then io_return True else await_ack T fuel deadline))"

definition send_attempt :: "'s transport \<Rightarrow> nat \<Rightarrow> bytes \<Rightarrow> usec \<Rightarrow> ('s, bool) io" where
  "send_attempt T fuel frame timeout =
     io_then (tr_write T frame)
       (io_bind (io_get (tr_now T)) (\<lambda>now. await_ack T fuel (now + timeout)))"

fun send_frame_attempts :: "'s transport \<Rightarrow> nat \<Rightarrow> bytes \<Rightarrow> usec \<Rightarrow> nat \<Rightarrow> ('s, bool) io" where
  "send_frame_attempts T fuel frame timeout 0 = io_return False"
| "send_frame_attempts T fuel frame timeout (Suc n) =
     io_then (tr_flush_input T) (io_then (tr_flush_output T)
       (io_try (send_attempt T fuel frame timeout)
         (\<lambda>e. send_frame_attempts T fuel frame timeout n)
         (\<lambda>acked. if acked then io_return True else send_frame_attempts T fuel frame timeout n)))"

definition send_frame_with_retry :: "'s transport \<Rightarrow> nat \<Rightarrow> bytes \<Rightarrow> nat \<Rightarrow> usec \<Rightarrow> ('s, bool) io" where
  "send_frame_with_retry T fuel frame_data retries timeout =
     send_frame_attempts T fuel frame_data timeout retries"

definition rehandshake_silence :: "'s transport \<Rightarrow> nat \<Rightarrow> exn \<Rightarrow> ('s, bool) io" where
  "rehandshake_silence T marker_count e =
     (if e = TransportTimeout
      then if marker_count > 0 then io_then (tr_write T BOOTMODE_ACK) (io_return True) else io_return True
      else io_raise e)"

fun rehandshake_loop :: "'s transport \<Rightarrow> nat \<Rightarrow> usec \<Rightarrow> nat \<Rightarrow> ('s, bool) io" where
  "rehandshake_loop T 0 deadline marker_count = io_diverge"
| "rehandshake_loop T (Suc fuel) deadline marker_count =
     io_bind (io_get (tr_now T)) (\<lambda>now.
       if \<not> now < deadline then io_return False
       else io_try (tr_read T 1 (Some 200000))
         (rehandshake_silence T marker_count)
         (\<lambda>data. if data = BOOTMODE_MARKER
              then if marker_count + 1 \<ge> BOOTMODE_COUNT
                then io_try (tr_write T BOOTMODE_ACK) (rehandshake_silence T (marker_count + 1))
                       (\<lambda>_. io_return True)
                else rehandshake_loop T fuel deadline (marker_count + 1)
              else if data = [0x0A] \<or> data = [0x0D] then rehandshake_loop T fuel deadline marker_count
              else if data = [] then io_raise IndexError
              else io_return True))"

definition rehandshake :: "'s transport \<Rightarrow> nat \<Rightarrow> ('s, bool) io" where
  "rehandshake T fuel =
     io_bind (io_get (tr_now T)) (\<lambda>now. rehandshake_loop T fuel (now + 5000000) 0)"

definition send_head :: "'s transport \<Rightarrow> nat \<Rightarrow> int \<Rightarrow> int \<Rightarrow> ('s, bool) io" where
  "send_head T fuel len address =
     io_bind (io_lift (HeadFrame_encode \<lparr>head_length = len, head_address = address\<rparr>)) (\<lambda>frame.
       send_frame_with_retry T fuel frame FRAME_SEND_RETRIES_SHORT 150000)"

definition send_data :: "'s transport \<Rightarrow> nat \<Rightarrow> int \<Rightarrow> bytes \<Rightarrow> ('s, bool) io" where
  "send_data T fuel seq payload =
     send_frame_with_retry T fuel (DataFrame_encode \<lparr>data_seq = seq, data_payload = payload\<rparr>)
       FRAME_SEND_RETRIES_LONG 150000"

definition send_tail :: "'s transport \<Rightarrow> nat \<Rightarrow> int \<Rightarrow> ('s, bool) io" where
  "send_tail T fuel seq =
     send_frame_with_retry T fuel (TailFrame_encode \<lparr>tail_seq = seq\<rparr>) FRAME_SEND_RETRIES_SHORT 150000"

fun frame_for_start_loop :: "'s transport \<Rightarrow> nat \<Rightarrow> bytes \<Rightarrow> usec \<Rightarrow> ('s, bool) io" where
  "frame_for_start_loop T 0 hframe deadline = io_diverge"
| "frame_for_start_loop T (Suc fuel) hframe deadline =
     io_bind (io_get (tr_now T)) (\<lambda>now.
       if \<not> now < deadline then io_return False
       else io_then (tr_write T (BOOTMODE_ACK @ hframe))
         (io_try
           (io_bind (tr_read T 1 (Some 50000)) (\<lambda>ack.
              if ack = ACK_BYTE then io_then (tr_flush_input T) (io_return True) else io_return False))
           (\<lambda>e. if e = TransportTimeout then frame_for_start_loop T fuel hframe deadline else io_raise e)
           (\<lambda>acked. if acked then io_return True else frame_for_start_loop T fuel hframe deadline)))"

definition send_frame_for_start :: "'s transport \<Rightarrow> nat \<Rightarrow> SoCProfile \<Rightarrow> ('s, bool) io" where
  "send_frame_for_start T fuel profile =
     io_bind (io_lift (ddr_step_address profile)) (\<lambda>addr.
     io_bind (io_lift (HeadFrame_encode \<lparr>head_length = 64, head_address = addr\<rparr>)) (\<lambda>hframe.
     io_bind (io_get (tr_now T)) (\<lambda>now.
       frame_for_start_loop T fuel hframe (now + 30000000))))"

section \<open>DDR step\<close>

text \<open>One HEAD, DATA, TAIL exchange; an unacknowledged TAIL is not fatal.\<close>

definition send_step :: "'s transport \<Rightarrow> nat \<Rightarrow> string \<Rightarrow> int \<Rightarrow> int \<Rightarrow> bytes \<Rightarrow> ('s, string option) io" where
  "send_step T fuel what len addr data =
     io_bind (send_head T fuel len addr) (\<lambda>ok.
       if \<not> ok then io_return (Some (what @ '' HEAD frame not ACKed''))
       else io_bind (send_data T fuel 1 data) (\<lambda>ok.
         if \<not> ok then io_return (Some (what @ '' DATA frame not ACKed''))
         else io_bind (send_tail T fuel 2) (\<lambda>_. io_return None)))"

text \<open>Early return with the description of a failed sub-step.\<close>

definition step_then :: "('s, string option) io \<Rightarrow> ('s, string option) io \<Rightarrow> ('s, string option) io" where
  "step_then m k = io_bind m (\<lambda>err. case err of Some e \<Rightarrow> io_return (Some e) | None \<Rightarrow> k)"

definition send_ddr_step :: "'s transport \<Rightarrow> nat \<Rightarrow> SoCProfile \<Rightarrow> ('s, string option) io" where
  "send_ddr_step T fuel profile =
     io_then (emit T DDR_INIT 0 64)
     (io_bind (io_lift (ddr_step_address profile)) (\<lambda>addr.
      io_bind (io_lift (prestep_data profile)) (\<lambda>prestep.
      step_then
        (case prestep of
           None \<Rightarrow> io_return None
         | Some pre \<Rightarrow>
             io_bind (send_frame_for_start T fuel profile) (\<lambda>ok.
               if \<not> ok then io_return (Some ''handshake (sendFrameForStart) timed out'')
               else send_step T fuel ''PRESTEP0'' 64 addr pre))
      (io_bind (io_lift (ddr_step_data profile)) (\<lambda>ddr_data.
       step_then (send_step T fuel ''DDRSTEP0'' 64 addr ddr_data)
       (io_bind (io_lift (prestep1_data profile)) (\<lambda>prestep1.
        step_then
          (case prestep1 of
             None \<Rightarrow> io_return None
           | Some pre \<Rightarrow> send_step T fuel ''PRESTEP1'' (int (length pre)) addr pre)
        (io_then (emit T DDR_INIT 64 64) (io_return None)))))))))"

section \<open>The SPL\<close>

definition VALID_LZMA_DICT :: "int list" where
  "VALID_LZMA_DICT = map (\<lambda>n. 2 ^ n) [16..<25]"

definition detect_at :: "bytes \<Rightarrow> nat \<Rightarrow> exn + int option" where
  "detect_at firmware i =
     (if firmware ! i = 0x5D then
        (if le_val (pyslice (i + 1) (i + 5) firmware) \<in> set VALID_LZMA_DICT
         then Inr (Some (int i AND NOT 0x3FF)) else Inr None)
      else if firmware ! i = 0x1F then
        (if i + 1 \<ge> length firmware then Inl IndexError
         else if firmware ! (i + 1) \<noteq> 0x8B then Inr None
         else if i + 2 \<ge> length firmware then Inl IndexError
         else if firmware ! (i + 2) \<noteq> 0x08 then Inr None
         else Inr (Some (int i AND NOT 0x3FF)))
      else Inr None)"

fun detect_scan :: "bytes \<Rightarrow> int \<Rightarrow> int option \<Rightarrow> nat list \<Rightarrow> exn + int" where
  "detect_scan firmware profile_max limit [] = Inr profile_max"
| "detect_scan firmware profile_max limit (i # is) =
     (case detect_at firmware i of
        Inl e \<Rightarrow> Inl e
      | Inr None \<Rightarrow> detect_scan firmware profile_max limit is
      | Inr (Some detected) \<Rightarrow>
          Inr (case limit of
                 None \<Rightarrow> detected
               | Some lim \<Rightarrow> if detected > lim then lim else detected))"

definition detect_spl_size :: "bytes \<Rightarrow> int \<Rightarrow> int option \<Rightarrow> exn + int" where
  "detect_spl_size firmware profile_max limit =
     detect_scan firmware profile_max limit [0x4000..<min (length firmware) 0x10000]"

definition contains_ff_run :: "nat \<Rightarrow> bytes \<Rightarrow> bool" where
  "contains_ff_run threshold d \<longleftrightarrow>
     list_ex (\<lambda>i. take threshold (drop i d) = replicate threshold 0xFF) [0..<Suc (length d)]"

definition zero_range :: "nat \<Rightarrow> nat \<Rightarrow> bytes \<Rightarrow> bytes" where
  "zero_range a b d = fold (\<lambda>j d. d[j := 0]) [a..<b] d"

definition zero_run_step :: "nat \<Rightarrow> nat \<Rightarrow> bytes \<times> nat option \<Rightarrow> bytes \<times> nat option" where
  "zero_run_step threshold i st =
     (case st of (d, run_start) \<Rightarrow>
        if d ! i = 0xFF then (d, if run_start = None then Some i else run_start)
        else (case run_start of
                Some r \<Rightarrow> (if i - r \<ge> threshold then zero_range r i d else d, None)
              | None \<Rightarrow> (d, None)))"

definition zero_long_ff_runs_threshold :: "nat \<Rightarrow> bytes \<Rightarrow> bytes" where
  "zero_long_ff_runs_threshold threshold firmware =
     (if \<not> contains_ff_run threshold firmware then firmware
      else case fold (zero_run_step threshold) [0..<length firmware] (firmware, None) of
             (d, Some r) \<Rightarrow> if length d - r \<ge> threshold then zero_range r (length d) d else d
           | (d, None) \<Rightarrow> d)"

definition zero_long_ff_runs :: "bytes \<Rightarrow> bytes" where
  "zero_long_ff_runs firmware = zero_long_ff_runs_threshold 12 firmware"

text \<open>The loop over the chunks of a payload, numbered from \<open>seq\<close>.\<close>

fun send_chunks :: "'s transport \<Rightarrow> nat \<Rightarrow> Stage \<Rightarrow> int \<Rightarrow> nat \<Rightarrow> bytes list \<Rightarrow> ('s, bool) io" where
  "send_chunks T fuel stage tot seq [] = io_return True"
| "send_chunks T fuel stage tot seq (c # cs) =
     io_bind (send_data T fuel (int seq) c) (\<lambda>ok.
       if \<not> ok then io_return False
       else io_then (tr_emit T \<lparr>pe_stage = stage, pe_bytes_sent = min (int (seq * MAX_DATA_LEN)) tot, pe_bytes_total = tot\<rparr>)
              (send_chunks T fuel stage tot (seq + 1) cs))"

text \<open>\<open>d[:n]\<close> and \<open>d.ljust(n)\<close> for an integer \<open>n\<close>, which counts from the end when negative.\<close>

definition py_prefix :: "int \<Rightarrow> 'a list \<Rightarrow> 'a list" where
  "py_prefix n d = (if 0 \<le> n then take (nat n) d else take (nat (int (length d) + n)) d)"

definition py_ljust :: "int \<Rightarrow> bytes \<Rightarrow> bytes" where
  "py_ljust n d = ljust (nat n) d"

text \<open>The bytes sent as the SPL: the detected prefix, of the override padded to the announced size
  when there is one, with long runs of 0xFF zeroed.\<close>

definition spl_payload :: "bytes \<Rightarrow> bytes option \<Rightarrow> int \<Rightarrow> bytes" where
  "spl_payload firmware spl_override spl_size = zero_long_ff_runs
     (case spl_override of
        Some d \<Rightarrow> py_ljust spl_size (py_prefix spl_size d)
      | None \<Rightarrow> py_prefix spl_size firmware)"

definition send_spl :: "'s transport \<Rightarrow> nat \<Rightarrow> bytes \<Rightarrow> SoCProfile \<Rightarrow> bytes option \<Rightarrow> ('s, bool) io" where
  "send_spl T fuel firmware profile spl_override =
     io_bind (io_lift (spl_max_size profile)) (\<lambda>profile_max.
     io_bind (io_lift (spl_sram_limit profile)) (\<lambda>sram.
     io_bind (io_lift (detect_spl_size (case spl_override of Some d \<Rightarrow> d | None \<Rightarrow> firmware) profile_max sram)) (\<lambda>spl_size.
     io_bind (io_lift (spl_address profile)) (\<lambda>addr.
     let spl_bytes = spl_payload firmware spl_override spl_size
     in io_then (tr_emit T \<lparr>pe_stage = SPL, pe_bytes_sent = 0, pe_bytes_total = spl_size\<rparr>)
     (io_bind (send_head T fuel spl_size addr) (\<lambda>ok.
      if \<not> ok then io_return False else
      io_bind (io_lift (chunk_data spl_bytes MAX_DATA_LEN)) (\<lambda>chunks.
      io_bind (send_chunks T fuel SPL spl_size 1 chunks) (\<lambda>ok.
      if \<not> ok then io_return False else
      io_bind (send_tail T fuel (int (length chunks) + 1)) (\<lambda>ok.
      io_bind (if ok then io_return True
               else io_bind (io_lift (prestep_data profile)) (\<lambda>pre. io_return (pre \<noteq> None))) (\<lambda>go_on.
      if \<not> go_on then io_return False
      else io_then (tr_sleep T 300000)
        (io_then (tr_emit T \<lparr>pe_stage = SPL, pe_bytes_sent = spl_size, pe_bytes_total = spl_size\<rparr>)
          (io_return True))))))))))))"

section \<open>The U-Boot image and the whole transfer\<close>

definition send_uboot :: "'s transport \<Rightarrow> nat \<Rightarrow> bytes \<Rightarrow> SoCProfile \<Rightarrow> ('s, bool) io" where
  "send_uboot T fuel firmware0 profile =
     (let firmware = zero_long_ff_runs firmware0; tot = length firmware in
     io_bind (io_lift (uboot_address profile)) (\<lambda>addr.
     io_then (emit T UBOOT 0 tot)
     (io_bind (io_lift (prestep_data profile)) (\<lambda>pre.
      io_bind (case pre of
          Some _ \<Rightarrow> send_frame_for_start T fuel profile
        | None \<Rightarrow> io_bind (rehandshake T fuel) (\<lambda>_. io_return True)) (\<lambda>ok.
      if \<not> ok then io_return False else
      io_bind (io_lift (HeadFrame_encode \<lparr>head_length = int tot, head_address = addr\<rparr>)) (\<lambda>head.
      io_bind (send_frame_with_retry T fuel head 64 150000) (\<lambda>ok.
      if \<not> ok then io_return False else
      io_bind (io_lift (chunk_data firmware MAX_DATA_LEN)) (\<lambda>chunks.
      io_bind (send_chunks T fuel UBOOT (int tot) 1 chunks) (\<lambda>ok.
      if \<not> ok then io_return False else
      io_bind (send_tail T fuel (int (length chunks) + 1)) (\<lambda>_.
      io_then (emit T UBOOT tot tot) (io_return True)))))))))))"

definition send_firmware :: "HiSiliconStandard \<Rightarrow> 's transport \<Rightarrow> nat \<Rightarrow> bytes \<Rightarrow> bytes option \<Rightarrow> ('s, RecoveryResult) io" where
  "send_firmware st T fuel firmware spl_override =
     (case hs_profile st of
        None \<Rightarrow> io_return (RecoveryResult_fail [] ''No profile loaded'')
      | Some profile \<Rightarrow>
          io_bind (send_ddr_step T fuel profile) (\<lambda>ddr_err.
          case ddr_err of
            Some e \<Rightarrow> io_return (RecoveryResult_fail [] (''DDR init failed: '' @ e))
          | None \<Rightarrow>
              io_bind (rehandshake T fuel) (\<lambda>_.
              io_bind (send_spl T fuel firmware profile spl_override) (\<lambda>ok.
              if \<not> ok then io_return (RecoveryResult_fail [DDR_INIT] ''Failed to send SPL'')
              else io_bind (send_uboot T fuel firmware profile) (\<lambda>ok.
              if \<not> ok then io_return (RecoveryResult_fail [DDR_INIT, SPL] ''Failed to send U-Boot'')
              else io_then (emit T COMPLETE 1 1)
                (io_return (RecoveryResult_ok [DDR_INIT, SPL, UBOOT, COMPLETE])))))))"

section \<open>What goes over the wire\<close>

text \<open>
  The writes of a complete transfer: HEAD and DATA frames, each at least once and in order, and
  then only TAIL frames.
\<close>

definition transfer_sent :: "int \<Rightarrow> int \<Rightarrow> bytes \<Rightarrow> bytes list \<Rightarrow> bool" where
  "transfer_sent len addr d ws \<longleftrightarrow>
     (\<exists>fs post. ws = fs @ post
        \<and> delivers (transfer_frames len addr d) fs
        \<and> set post \<subseteq> {tail_frame (Suc (length (chunks_from MAX_DATA_LEN d)))})"

text \<open>What precedes the HEAD frame of a U-Boot transfer: markers and blasts, which start with the
  ACK byte.\<close>

definition boot_chatter :: "bytes list \<Rightarrow> bool" where
  "boot_chatter ws \<longleftrightarrow> list_all (\<lambda>w. take 1 w = BOOTMODE_ACK) ws"

definition uboot_sent :: "int \<Rightarrow> bytes \<Rightarrow> bytes list \<Rightarrow> bool" where
  "uboot_sent addr d ws \<longleftrightarrow>
     (\<exists>pre ws'. ws = pre @ ws' \<and> boot_chatter pre \<and> transfer_sent (int (length d)) addr d ws')"

text \<open>A complete recovery: the DDR step, the SPL at its detected size, and the U-Boot image.\<close>

definition firmware_sent :: "SoCProfile \<Rightarrow> bytes \<Rightarrow> bytes option \<Rightarrow> bytes list \<Rightarrow> bool" where
  "firmware_sent p fw ov ws \<longleftrightarrow>
     (\<exists>pmax lim n saddr uaddr ddr spl ub.
        spl_max_size p = Inr pmax \<and> spl_sram_limit p = Inr lim
        \<and> detect_spl_size (case ov of Some d \<Rightarrow> d | None \<Rightarrow> fw) pmax lim = Inr n
        \<and> spl_address p = Inr saddr \<and> uboot_address p = Inr uaddr
        \<and> ws = ddr @ spl @ ub \<and> transfer_sent n saddr (spl_payload fw ov n) spl
        \<and> uboot_sent uaddr (zero_long_ff_runs fw) ub)"

context logged_transport
begin

lemma await_ack_log:
  "wlp (await_ack T fuel deadline) s (\<lambda>r s'.
     tx_of (log s') = tx_of (log s) \<and> (r = Inr True \<longrightarrow> (\<exists>l. log s' = l @ [(RX, ACK_BYTE)])))"
proof (induction fuel arbitrary: s)
  case (Suc fuel)
  show ?case
    by (auto simp: wp ACK_BYTE_def intro!: wlp_readI intro: wlp_mono [OF Suc] split: sum.split)
qed (simp add: wp)

text \<open>A frame is written some number of times; it counts as sent only when the last thing on the
  wire is the ACK byte.\<close>

lemma attempt_log:
  "wlp (send_attempt T fuel frame timeout) s
      (\<lambda>r s'. tx_of (log s') = tx_of (log s) @ [frame]
          \<and> (r = Inr True \<longrightarrow> (\<exists>l. log s' = l @ [(RX, ACK_BYTE)])))"
  unfolding send_attempt_def
  by (auto simp: wp intro!: wlp_writeI wlp_mono [OF await_ack_log] split: sum.split)

lemma send_frame_attempts_log:
  "wlp (send_frame_attempts T fuel frame timeout n) s (\<lambda>r s'.
     (\<exists>k \<le> n. tx_of (log s') = tx_of (log s) @ replicate k frame \<and> (r = Inr True \<longrightarrow> 0 < k)))"
proof (induction n arbitrary: s)
  case 0
  then show ?case by (simp add: wp)
next
  case (Suc n)
  have again: "wlp (send_frame_attempts T fuel frame timeout n) s1 (\<lambda>r s'.
     (\<exists>k \<le> Suc n. tx_of (log s') = tx_of (log s) @ replicate k frame \<and> (r = Inr True \<longrightarrow> 0 < k)))"
    if "tx_of (log s1) = tx_of (log s) @ [frame]" for s1
    using that by (intro wlp_mono [OF Suc.IH]) (force intro: exI [of _ "Suc _"])
  have one: "\<exists>k \<le> Suc n. tx_of (log s) @ [frame] = tx_of (log s) @ replicate k frame \<and> 0 < k"
    by (intro exI [of _ 1]) simp
  show ?case
    by (auto simp: wp one intro!: wlp_flush_inputI wlp_flush_outputI wlp_mono [OF attempt_log] again
        split: sum.split)
qed

lemma send_frame_attempts_acked:
  "wlp (send_frame_attempts T fuel frame timeout n) s
     (\<lambda>r s'. r = Inr True \<longrightarrow> (\<exists>l. log s' = l @ [(RX, ACK_BYTE)]))"
proof (induction n arbitrary: s)
  case (Suc n)
  then show ?case
    by (auto simp: wp intro!: wlp_flush_inputI wlp_flush_outputI wlp_mono [OF attempt_log]
        split: sum.split)
qed (simp add: wp)

lemma send_frame_with_retry_sent:
  "wlp (send_frame_with_retry T fuel frame n timeout) s (\<lambda>r s'.
     \<exists>ws. tx_of (log s') = tx_of (log s) @ ws \<and> set ws \<subseteq> {frame} \<and> (r = Inr True \<longrightarrow> delivers [frame] ws))"
  unfolding send_frame_with_retry_def
  by (rule wlp_mono [OF send_frame_attempts_log]) (auto intro: delivers_single)

lemma send_data_sent:
  "wlp (send_data T fuel (int seq) c) s (\<lambda>r s'.
     \<exists>ws. tx_of (log s') = tx_of (log s) @ ws \<and> (r = Inr True \<longrightarrow> delivers (data_frames seq [c]) ws))"
  unfolding send_data_def by (rule wlp_mono [OF send_frame_with_retry_sent]) auto

lemma send_chunks_sent:
  "wlp (send_chunks T fuel stage tot seq cs) s (\<lambda>r s'.
     r = Inr True \<longrightarrow> (\<exists>ws. tx_of (log s') = tx_of (log s) @ ws \<and> delivers (data_frames seq cs) ws))"
proof (induction cs arbitrary: seq s)
  case Nil
  then show ?case by (simp add: wp delivers_Nil)
next
  case (Cons c cs)
  have rest: "wlp (send_chunks T fuel stage tot (Suc seq) cs) s1 (\<lambda>r s'.
     r = Inr True \<longrightarrow> (\<exists>ws. tx_of (log s') = tx_of (log s) @ ws \<and> delivers (f # data_frames (Suc seq) cs) ws))"
    if "tx_of (log s1) = tx_of (log s) @ ws" "delivers [f] ws" for s1 ws f
    using that delivers_append [of "[f]" ws] by (intro wlp_mono [OF Cons.IH]) fastforce
  have emit: "wlp (tr_emit T ev) s1 (\<lambda>r s'. log s' = log s1)" for s1 ev
    by (rule log_emit)
  show ?case
    by (auto simp: wp intro!: wlp_mono [OF send_data_sent] wlp_mono [OF emit] rest split: sum.split)
qed

lemma rehandshake_loop_sent:
  "wlp (rehandshake_loop T fuel deadline n) s (\<lambda>r s'.
     \<exists>k. tx_of (log s') = tx_of (log s) @ replicate k BOOTMODE_ACK)"
proof (induction fuel arbitrary: n s)
  case (Suc fuel)
  show ?case
    by (auto simp: wp rehandshake_silence_def intro!: wlp_readI wlp_writeI
        intro: wlp_mono [OF Suc] split: sum.split)
qed (simp add: wp)

lemma frame_for_start_loop_sent:
  "wlp (frame_for_start_loop T fuel hframe deadline) s (\<lambda>r s'.
     \<exists>k. tx_of (log s') = tx_of (log s) @ replicate k (BOOTMODE_ACK @ hframe))"
proof (induction fuel arbitrary: s)
  case (Suc fuel)
  have more: "wlp (frame_for_start_loop T fuel hframe deadline) s1 (\<lambda>r s'.
      \<exists>k. tx_of (log s') = tx_of (log s) @ replicate k (BOOTMODE_ACK @ hframe))"
    if "tx_of (log s1) = tx_of (log s) @ [BOOTMODE_ACK @ hframe]" for s1
    using that by (intro wlp_mono [OF Suc]) (force intro: exI [of _ "Suc _"])
  show ?case
    by (auto simp: wp intro!: wlp_readI wlp_writeI wlp_flush_inputI more split: sum.split)
qed (simp add: wp)

lemma send_frame_for_start_sent:
  "wlp (send_frame_for_start T fuel p) s (\<lambda>r s'.
     \<exists>ws. tx_of (log s') = tx_of (log s) @ ws \<and> boot_chatter ws)"
  unfolding send_frame_for_start_def
  by (auto simp: wp boot_chatter_def list_all_iff BOOTMODE_ACK_def split: sum.split
      intro!: wlp_mono [OF frame_for_start_loop_sent])

lemma rehandshake_sent:
  "wlp (rehandshake T fuel) s (\<lambda>r s'. \<exists>ws. tx_of (log s') = tx_of (log s) @ ws \<and> boot_chatter ws)"
  unfolding rehandshake_def
  by (auto simp: wp boot_chatter_def list_all_iff BOOTMODE_ACK_def intro!: wlp_mono [OF rehandshake_loop_sent])

lemma chunk_data_MAX: "chunk_data d MAX_DATA_LEN = Inr cs \<longleftrightarrow> cs = chunks_from MAX_DATA_LEN d"
  using chunk_data_chunks [of MAX_DATA_LEN d] by (auto simp: MAX_DATA_LEN_def)

lemma send_tail_sent:
  "wlp (send_tail T fuel (int n + 1)) s (\<lambda>r s'.
     \<exists>ws. tx_of (log s') = tx_of (log s) @ ws \<and> set ws \<subseteq> {tail_frame (Suc n)}
        \<and> (r = Inr True \<longrightarrow> delivers [tail_frame (Suc n)] ws))"
  using wlp_mono [OF send_frame_with_retry_sent]
  by (auto simp: send_tail_def tail_frame_def add.commute)

lemma transfer_sentI:
  assumes "HeadFrame_encode \<lparr>head_length = len, head_address = addr\<rparr> = Inr h" "delivers [h] ws"
    "delivers (data_frames (Suc 0) (chunks_from MAX_DATA_LEN d)) ws'"
    "set post \<subseteq> {tail_frame (Suc (length (chunks_from MAX_DATA_LEN d)))}"
  shows "transfer_sent len addr d (ws @ ws' @ post)"
  unfolding transfer_sent_def transfer_frames_def
  using assms delivers_append [OF assms(2,3)] HeadFrame_encode_Inr [OF assms(1)]
  by (intro exI [of _ "ws @ ws'"] exI [of _ post]) simp

lemma uboot_sentI:
  "boot_chatter pre \<Longrightarrow> transfer_sent (int (length d)) addr d ws \<Longrightarrow> uboot_sent addr d (pre @ ws)"
  by (auto simp: uboot_sent_def)

lemmas sent_lemmas = wlp_emitI wlp_mono [OF log_emit] wlp_mono [OF log_sleep]
  wlp_mono [OF send_frame_for_start_sent] wlp_mono [OF rehandshake_sent]
  wlp_mono [OF send_frame_with_retry_sent] wlp_mono [OF send_chunks_sent] wlp_mono [OF send_tail_sent]

lemma send_uboot_sent:
  "wlp (send_uboot T fuel fw p) s (\<lambda>r s'. r = Inr True \<longrightarrow>
     (\<exists>addr ws. uboot_address p = Inr addr \<and> tx_of (log s') = tx_of (log s) @ ws
        \<and> uboot_sent addr (zero_long_ff_runs fw) ws))"
proof -
  define d where "d = zero_long_ff_runs fw"
  show ?thesis
    unfolding send_uboot_def d_def [symmetric] Let_def
    by (auto simp: wp chunk_data_MAX split: sum.split option.split
        intro!: sent_lemmas uboot_sentI transfer_sentI)
qed

lemma send_spl_sent:
  "wlp (send_spl T fuel fw p ov) s (\<lambda>r s'. r = Inr True \<longrightarrow>
     (\<exists>pmax lim n addr ws. spl_max_size p = Inr pmax \<and> spl_sram_limit p = Inr lim
        \<and> detect_spl_size (case ov of Some d \<Rightarrow> d | None \<Rightarrow> fw) pmax lim = Inr n \<and> spl_address p = Inr addr
        \<and> tx_of (log s') = tx_of (log s) @ ws \<and> transfer_sent n addr (spl_payload fw ov n) ws))"
  unfolding send_spl_def Let_def send_head_def
  by (auto simp: wp chunk_data_MAX split: sum.split intro!: sent_lemmas transfer_sentI)

lemma send_step_sent:
  "wlp (send_step T fuel what len addr d) s (\<lambda>r s'. \<exists>ws. tx_of (log s') = tx_of (log s) @ ws)"
  unfolding send_step_def send_head_def send_data_def send_tail_def
  by (auto simp: wp split: sum.split intro!: sent_lemmas)

lemma send_ddr_step_sent:
  "wlp (send_ddr_step T fuel p) s (\<lambda>r s'. \<exists>ws. tx_of (log s') = tx_of (log s) @ ws)"
  unfolding send_ddr_step_def step_then_def
  by (auto simp: wp split: sum.split option.split intro!: sent_lemmas wlp_mono [OF send_step_sent])

lemma firmware_sentI:
  assumes "spl_max_size p = Inr pmax" "spl_sram_limit p = Inr lim"
    "detect_spl_size (case ov of Some d \<Rightarrow> d | None \<Rightarrow> fw) pmax lim = Inr n" "spl_address p = Inr saddr"
    "uboot_address p = Inr uaddr" "transfer_sent n saddr (spl_payload fw ov n) spl"
    "uboot_sent uaddr (zero_long_ff_runs fw) ub"
  shows "firmware_sent p fw ov (ddr @ hs @ spl @ ub)"
  unfolding firmware_sent_def using assms by (intro exI conjI) (auto simp: append_assoc [symmetric] simp del: append_assoc)

lemma send_firmware_sent:
  "wlp (send_firmware st T fuel fw ov) s (\<lambda>r s'. case r of
     Inl e \<Rightarrow> True
   | Inr res \<Rightarrow>
       if rr_success res
       then rr_stages_completed res = [DDR_INIT, SPL, UBOOT, COMPLETE] \<and> rr_error res = None
         \<and> (\<exists>p ws. hs_profile st = Some p \<and> tx_of (log s') = tx_of (log s) @ ws \<and> firmware_sent p fw ov ws)
       else rr_error res \<noteq> None \<and> rr_stages_completed res \<in> {[], [DDR_INIT], [DDR_INIT, SPL]})"
  unfolding send_firmware_def
  by (auto simp: wp split: sum.split option.split
      intro!: wlp_emitI wlp_mono [OF send_ddr_step_sent] wlp_mono [OF rehandshake_sent]
        wlp_mono [OF send_spl_sent] wlp_mono [OF send_uboot_sent] firmware_sentI)

end

section \<open>Every operation returns\<close>

context timed_transport
begin

text \<open>Enough fuel for a wait is one more than its microseconds.\<close>

lemma await_ack_ends: "nat (deadline - tr_now T s) < fuel \<Longrightarrow> twp (await_ack T fuel deadline) s (\<lambda>_ _. True)"
proof (induction fuel arbitrary: s)
  case (Suc fuel)
  then show ?case by (auto simp: wp intro!: twp_readI split: sum.split)
qed simp

lemma send_attempt_ends: "nat timeout < fuel \<Longrightarrow> twp (send_attempt T fuel frame timeout) s (\<lambda>_ _. True)"
  unfolding send_attempt_def
  by (auto simp: wp intro!: twp_writeI twp_mono [OF await_ack_ends] split: sum.split)

lemma send_frame_ends: "nat timeout < fuel \<Longrightarrow> twp (send_frame_with_retry T fuel frame n timeout) s (\<lambda>_ _. True)"
  unfolding send_frame_with_retry_def
proof (induction n arbitrary: s)
  case (Suc n)
  then show ?case
    by (auto simp: wp intro!: twp_flush_inputI twp_flush_outputI twp_mono [OF send_attempt_ends] split: sum.split)
qed (simp add: wp)

lemma rehandshake_loop_ends:
  "nat (deadline - tr_now T s) < fuel \<Longrightarrow> twp (rehandshake_loop T fuel deadline n) s (\<lambda>_ _. True)"
proof (induction fuel arbitrary: s n)
  case (Suc fuel)
  then show ?case by (auto simp: wp rehandshake_silence_def intro!: twp_readI twp_writeI split: sum.split)
qed simp

lemma frame_for_start_loop_ends:
  "nat (deadline - tr_now T s) < fuel \<Longrightarrow> twp (frame_for_start_loop T fuel h deadline) s (\<lambda>_ _. True)"
proof (induction fuel arbitrary: s)
  case (Suc fuel)
  have "twp (frame_for_start_loop T fuel h deadline) s1 (\<lambda>_ _. True)"
    if "tr_now T s < tr_now T s1" "tr_now T s < deadline" for s1
    using that Suc by auto
  then show ?case
    by (auto simp: wp intro!: twp_readI twp_writeI twp_flush_inputI split: sum.split)
qed simp

lemma twp_tr_emitI:
  assumes "\<And>r s'. tr_now T s \<le> tr_now T s' \<Longrightarrow> Q r s'"
  shows "twp (tr_emit T ev) s Q"
  using emit_ends [of ev s] assms by (auto simp: twp_def)

lemmas standard_ends = twp_emitI twp_tr_emitI twp_sleepI twp_mono [OF send_frame_ends]
  twp_mono [OF rehandshake_loop_ends] twp_mono [OF frame_for_start_loop_ends]

lemma send_chunks_ends: "150000 < fuel \<Longrightarrow> twp (send_chunks T fuel stage tot seq cs) s (\<lambda>_ _. True)"
proof (induction cs arbitrary: seq s)
  case (Cons c cs)
  then show ?case
    by (auto simp: wp send_data_def intro!: standard_ends split: sum.split)
qed (simp add: wp)

lemma send_step_ends: "150000 < fuel \<Longrightarrow> twp (send_step T fuel what len addr d) s (\<lambda>_ _. True)"
  unfolding send_step_def send_head_def send_data_def send_tail_def
  by (auto simp: wp intro!: standard_ends split: sum.split)

lemma send_frame_for_start_ends: "30000000 < fuel \<Longrightarrow> twp (send_frame_for_start T fuel p) s (\<lambda>_ _. True)"
  unfolding send_frame_for_start_def by (auto simp: wp intro!: standard_ends split: sum.split)

lemma rehandshake_ends: "5000000 < fuel \<Longrightarrow> twp (rehandshake T fuel) s (\<lambda>_ _. True)"
  unfolding rehandshake_def by (auto simp: wp intro!: standard_ends split: sum.split)

lemma send_ddr_step_ends: "30000000 < fuel \<Longrightarrow> twp (send_ddr_step T fuel p) s (\<lambda>_ _. True)"
  unfolding send_ddr_step_def step_then_def
  by (auto simp: wp intro!: twp_emitI twp_mono [OF send_frame_for_start_ends] twp_mono [OF send_step_ends]
      split: sum.split option.split)

lemma send_spl_ends: "150000 < fuel \<Longrightarrow> twp (send_spl T fuel fw p ov) s (\<lambda>_ _. True)"
  unfolding send_spl_def Let_def send_head_def send_tail_def
  by (auto simp: wp intro!: standard_ends twp_mono [OF send_chunks_ends] split: sum.split)

lemma send_uboot_ends: "30000000 < fuel \<Longrightarrow> twp (send_uboot T fuel fw p) s (\<lambda>_ _. True)"
  unfolding send_uboot_def Let_def send_tail_def
  by (auto simp: wp intro!: standard_ends twp_mono [OF send_chunks_ends] twp_mono [OF rehandshake_ends]
      twp_mono [OF send_frame_for_start_ends] split: sum.split option.split)

lemma send_firmware_ends: "30000000 < fuel \<Longrightarrow> twp (send_firmware st T fuel fw ov) s (\<lambda>_ _. True)"
  unfolding send_firmware_def
  by (auto simp: wp intro!: twp_emitI twp_mono [OF send_ddr_step_ends] twp_mono [OF rehandshake_ends]
      twp_mono [OF send_spl_ends] twp_mono [OF send_uboot_ends] split: option.split sum.split)

end

section \<open>Zeroing long runs of 0xFF\<close>

text \<open>A structural reading of the loop: \<open>k\<close> bytes 0xFF are pending.\<close>

definition ff_run :: "nat \<Rightarrow> nat \<Rightarrow> bytes" where
  "ff_run t k = replicate k (if t \<le> k then 0 else 0xFF)"

fun zero_runs :: "nat \<Rightarrow> nat \<Rightarrow> bytes \<Rightarrow> bytes" where
  "zero_runs t k [] = ff_run t k"
| "zero_runs t k (b # bs) = (if b = 0xFF then zero_runs t (Suc k) bs else ff_run t k @ b # zero_runs t 0 bs)"

lemma zero_range_eq: "a \<le> b \<Longrightarrow> b \<le> length d \<Longrightarrow> zero_range a b d = take a d @ replicate (b - a) 0 @ drop b d"
proof (induction "b - a" arbitrary: b)
  case 0
  then show ?case by (simp add: zero_range_def)
next
  case (Suc n)
  then obtain c where c: "b = Suc c" "n = c - a" "a \<le> c" by (cases b) auto
  with Suc have "zero_range a c d = take a d @ replicate (c - a) 0 @ drop c d" by simp
  moreover have "zero_range a b d = (zero_range a c d)[c := 0]" using c by (simp add: zero_range_def)
  moreover have "drop c d = d ! c # drop b d" using Suc.prems c by (simp add: Cons_nth_drop_Suc)
  ultimately show ?case
    using Suc.prems c by (simp add: list_update_append Suc_diff_le replicate_append_same [symmetric])
qed

definition zero_run_end :: "nat \<Rightarrow> bytes \<times> nat option \<Rightarrow> bytes" where
  "zero_run_end t st = (case st of
     (d, Some r) \<Rightarrow> if length d - r \<ge> t then zero_range r (length d) d else d
   | (d, None) \<Rightarrow> d)"

lemma zero_run_fold:
  assumes "0 < t"
  shows "zero_run_end t (fold (zero_run_step t) [length don + k..<length don + k + length rest]
            (don @ replicate k 0xFF @ rest, if k = 0 then None else Some (length don)))
       = don @ zero_runs t k rest"
proof (induction rest arbitrary: don k)
  case Nil
  then show ?case
    using assms by (simp add: zero_run_end_def ff_run_def zero_range_eq)
next
  case (Cons b bs)
  let ?i = "length don + k"
  have upt: "[?i..<?i + length (b # bs)] = ?i # [Suc ?i..<?i + length (b # bs)]"
    by (rule upt_conv_Cons) simp
  have at: "(don @ replicate k 0xFF @ b # bs) ! ?i = b" by (simp add: nth_append)
  show ?case
  proof (cases "b = 0xFF")
    case True
    have "zero_run_step t ?i (don @ replicate k 0xFF @ b # bs, if k = 0 then None else Some (length don))
        = (don @ replicate (Suc k) 0xFF @ bs, Some (length don))"
      using at True by (simp add: zero_run_step_def replicate_append_same [symmetric])
    then show ?thesis
      using Cons.IH [of don "Suc k"] True unfolding upt by simp
  next
    case False
    have "zero_run_step t ?i (don @ replicate k 0xFF @ b # bs, if k = 0 then None else Some (length don))
        = (don @ ff_run t k @ b # bs, None)"
      using at False assms by (auto simp: zero_run_step_def ff_run_def zero_range_eq)
    moreover have "length (don @ ff_run t k @ [b]) = Suc ?i" by (simp add: ff_run_def)
    ultimately show ?thesis
      using Cons.IH [of "don @ ff_run t k @ [b]" 0] False unfolding upt by simp
  qed
qed

lemma contains_ff_run_iff: "contains_ff_run t d \<longleftrightarrow> (\<exists>a b. d = a @ replicate t 0xFF @ b)"
proof
  assume "contains_ff_run t d"
  then obtain i where "take t (drop i d) = replicate t 0xFF"
    by (auto simp: contains_ff_run_def list_ex_iff)
  then have "d = take i d @ replicate t 0xFF @ drop t (drop i d)"
    by (metis append_take_drop_id)
  then show "\<exists>a b. d = a @ replicate t 0xFF @ b" by blast
next
  assume "\<exists>a b. d = a @ replicate t 0xFF @ b"
  then obtain a b where "d = a @ replicate t 0xFF @ b" by blast
  then show "contains_ff_run t d"
    by (auto simp: contains_ff_run_def list_ex_iff intro!: bexI [of _ "length a"])
qed

lemma zero_runs_same:
  "\<not> contains_ff_run t (replicate k 0xFF @ xs) \<Longrightarrow> zero_runs t k xs = replicate k 0xFF @ xs"
proof (induction xs arbitrary: k)
  case Nil
  then have "\<not> t \<le> k"
    by (auto simp: contains_ff_run_iff) (metis le_Suc_ex replicate_add append_Nil)
  then show ?case by (simp add: ff_run_def)
next
  case (Cons b xs)
  have run: "\<not> t \<le> k"
    using Cons.prems by (auto simp: contains_ff_run_iff) (metis append.assoc append_Nil le_Suc_ex replicate_add)
  show ?case
  proof (cases "b = 0xFF")
    case True
    then show ?thesis
      using Cons.IH [of "Suc k"] Cons.prems by (simp add: replicate_app_Cons_same)
  next
    case False
    have "\<not> contains_ff_run t xs"
      using Cons.prems by (auto simp: contains_ff_run_iff) (metis append.assoc append_Cons)
    then show ?thesis using Cons.IH [of 0] False run by (simp add: ff_run_def)
  qed
qed

lemma zero_long_ff_runs_zero_runs:
  assumes "0 < t"
  shows "zero_long_ff_runs_threshold t fw = zero_runs t 0 fw"
proof (cases "contains_ff_run t fw")
  case True
  have "zero_long_ff_runs_threshold t fw = zero_run_end t (fold (zero_run_step t) [0..<length fw] (fw, None))"
    using True by (simp add: zero_long_ff_runs_threshold_def zero_run_end_def)
  also have "\<dots> = zero_runs t 0 fw"
    using zero_run_fold [OF assms, of "[]" 0 fw] by simp
  finally show ?thesis .
next
  case False
  then show ?thesis
    using zero_runs_same [of t 0 fw] by (simp add: zero_long_ff_runs_threshold_def)
qed

text \<open>\<open>short_runs t k xs\<close>: after \<open>k\<close> bytes 0xFF, no run in \<open>xs\<close> reaches \<open>t\<close>.\<close>

fun short_runs :: "nat \<Rightarrow> nat \<Rightarrow> bytes \<Rightarrow> bool" where
  "short_runs t k [] \<longleftrightarrow> k < t"
| "short_runs t k (b # bs) \<longleftrightarrow> (if b = 0xFF then short_runs t (Suc k) bs else k < t \<and> short_runs t 0 bs)"

lemma short_runs_lt: "short_runs t k xs \<Longrightarrow> k < t"
  by (induction xs arbitrary: k) (auto split: if_splits dest: Suc_lessD)

lemma short_runs_ff: "short_runs t k (replicate n 0xFF @ xs) = short_runs t (k + n) xs"
  by (induction n arbitrary: k) auto

lemma short_runs_drop: "short_runs t k (a @ xs) \<Longrightarrow> \<exists>j. short_runs t j xs"
  by (induction a arbitrary: k) (auto split: if_splits)

lemma short_runs_no_run: "short_runs t 0 xs \<Longrightarrow> \<not> contains_ff_run t xs"
  using short_runs_drop short_runs_lt by (fastforce simp: contains_ff_run_iff short_runs_ff)

lemma zero_runs_short: "0 < t \<Longrightarrow> short_runs t 0 (zero_runs t k xs)"
proof (induction xs arbitrary: k)
  case Nil
  have "short_runs t 0 (replicate n (0 :: byte))" if "0 < t" for n
    using that by (induction n) auto
  with Nil show ?case using short_runs_ff [of t 0 k "[]"] by (simp add: ff_run_def)
next
  case (Cons b xs)
  have "short_runs t 0 (replicate n (0 :: byte) @ ys)" if "short_runs t 0 ys" for n ys
    using that Cons.prems by (induction n) auto
  with Cons show ?case using short_runs_ff [of t 0 k] by (simp add: ff_run_def)
qed

lemma zero_runs_pointwise:
  "list_all2 (\<lambda>a b. b = a \<or> a = 0xFF \<and> b = 0) (replicate k 0xFF @ xs) (zero_runs t k xs)"
proof (induction xs arbitrary: k)
  case Nil
  then show ?case by (simp add: ff_run_def list_all2_conv_all_nth)
next
  case (Cons b xs)
  have "list_all2 (\<lambda>a b. b = a \<or> a = 0xFF \<and> b = 0) (replicate k 0xFF) (ff_run t k)"
    by (simp add: ff_run_def list_all2_conv_all_nth)
  with Cons.IH [of 0] Cons.IH [of "Suc k"] show ?case
    by (auto simp: replicate_app_Cons_same intro: list_all2_appendI)
qed

section \<open>Boot mode markers\<close>

text \<open>
  With \<open>c\<close> markers counted, the reads \<open>l\<close> complete five in a row: zero bytes are ignored, any
  other byte starts the count again.
\<close>

definition markers_seen :: "nat \<Rightarrow> bytes list \<Rightarrow> bool" where
  "markers_seen c l \<longleftrightarrow>
     (\<exists>p. replicate c BOOTMODE_MARKER @ filter (\<lambda>d. d \<noteq> [0]) l = p @ replicate BOOTMODE_COUNT BOOTMODE_MARKER)"

lemma markers_seen_zero: "markers_seen c l \<Longrightarrow> markers_seen c ([0] # l)"
  by (simp add: markers_seen_def)

lemma markers_seen_marker: "markers_seen (Suc c) l \<Longrightarrow> markers_seen c (BOOTMODE_MARKER # l)"
  by (simp add: markers_seen_def BOOTMODE_MARKER_def replicate_app_Cons_same)

lemma markers_seen_reset: "b \<noteq> [0] \<Longrightarrow> markers_seen 0 l \<Longrightarrow> markers_seen c (b # l)"
  by (auto simp: markers_seen_def intro: exI [of _ "replicate c BOOTMODE_MARKER @ b # p" for p])

lemma markers_seen_last:
  "\<not> Suc c < BOOTMODE_COUNT \<Longrightarrow> c < BOOTMODE_COUNT \<Longrightarrow> markers_seen c [BOOTMODE_MARKER]"
  unfolding markers_seen_def
  by (intro exI [of _ "[]"])
     (simp add: BOOTMODE_MARKER_def replicate_append_same, metis Suc_lessI replicate_Suc)

lemma handshake_byte_cases:
  "handshake_byte ev c b = Inr None \<Longrightarrow> c < BOOTMODE_COUNT \<Longrightarrow> b \<noteq> [] \<and> markers_seen c [b]"
  "handshake_byte ev c b = Inr (Some (ev', c')) \<Longrightarrow> c < BOOTMODE_COUNT \<Longrightarrow>
     b \<noteq> [] \<and> c' < BOOTMODE_COUNT \<and> (markers_seen c' l \<longrightarrow> markers_seen c (b # l))"
  by (auto simp: handshake_byte_def Let_def markers_seen_last markers_seen_zero markers_seen_marker
      intro: markers_seen_reset split: if_splits)

context logged_transport
begin

lemma handshake_enter_log:
  "wlp (handshake_enter T fl) s (\<lambda>r s'. rx_of (log s') = rx_of (log s) \<and> (\<forall>h. r = Inr h \<longrightarrow> hs_success h))"
  unfolding handshake_enter_def
  by (auto simp: wp intro!: wlp_writeI wlp_flush_inputI wlp_emitI split: sum.split)

lemma handshake_loop_markers:
  "c < BOOTMODE_COUNT \<Longrightarrow>
   wlp (handshake_loop T fuel fl ev c) s (\<lambda>r s'. \<forall>h. r = Inr h \<longrightarrow>
      hs_success h \<and> (\<exists>l. rx_of (log s') = rx_of (log s) @ l \<and> markers_seen c l))"
proof (induction fuel arbitrary: fl ev c s)
  case (Suc fuel)
  have step: "wlp (handshake_loop T fuel fl' ev' c') s1 (\<lambda>r s'. \<forall>h. r = Inr h \<longrightarrow>
      hs_success h \<and> (\<exists>l. rx_of (log s') = rx_of (log s) @ l \<and> markers_seen c l))"
    if "c' < BOOTMODE_COUNT" "rx_of (log s1) = rx_of (log s) @ l"
      "\<And>l'. markers_seen c' l' \<Longrightarrow> markers_seen c (l @ l')" for s1 fl' ev' c' l
    using that(2,3) by (intro wlp_mono [OF Suc.IH [OF that(1)]]) fastforce
  have read: "rx_of (read_log (Inr b)) = [b]" if "b \<noteq> []" for b :: bytes
    using that by (cases b) simp_all
  have timeout: "wlp (handshake_loop T fuel fl' ev c) s1 (\<lambda>r s'. \<forall>h. r = Inr h \<longrightarrow>
      hs_success h \<and> (\<exists>l. rx_of (log s') = rx_of (log s) @ l \<and> markers_seen c l))"
    if "rx_of (log s1) = rx_of (log s)" for s1 fl'
    using step [OF Suc.prems, of s1 "[]"] that by simp
  show ?case
    using Suc.prems
    by (auto simp: wp read dest!: handshake_byte_cases(1)
        intro!: wlp_writeI wlp_readI timeout wlp_mono [OF handshake_enter_log]
          step [where l = "[b]" for b] split: sum.split option.split dest: handshake_byte_cases(2))
qed (simp add: wp)

end

section \<open>The handshake against a device that sends the markers\<close>

lemma twp_mock_read:
  "\<not> mk_closed m \<Longrightarrow> mk_rx_buffer m = b # bs \<Longrightarrow>
   twp (mock_read (Suc 0) t) m Q = Q (Inr [b]) (m\<lparr>mk_clock := mk_clock m + 1, mk_rx_buffer := bs\<rparr>)"
  by (simp add: twp_def mock_read_def Let_def)

lemma mock_enter_ok: "twp (handshake_enter mock_transport fl) m (\<lambda>r m'. \<exists>h. r = Inr h \<and> hs_success h)"
  by (simp add: handshake_enter_def emit_def wp mock_write_def mock_flush_input_def)

lemma mock_handshake_markers:
  "\<not> mk_closed m \<Longrightarrow> mk_rx_buffer m = replicate n 0x20 @ post \<Longrightarrow> BOOTMODE_COUNT \<le> c + n \<Longrightarrow> c < BOOTMODE_COUNT \<Longrightarrow>
   n \<le> fuel \<Longrightarrow> twp (handshake_loop mock_transport fuel fl ev c) m (\<lambda>r m'. \<exists>h. r = Inr h \<and> hs_success h)"
proof (induction n arbitrary: m c fuel ev)
  case (Suc n)
  then obtain fuel' where fuel: "fuel = Suc fuel'" "n \<le> fuel'" by (cases fuel) auto
  have more: "twp (handshake_loop mock_transport fuel' fl True (Suc c)) m' (\<lambda>r m'. \<exists>h. r = Inr h \<and> hs_success h)"
    if "\<not> mk_closed m'" "mk_rx_buffer m' = replicate n 0x20 @ post" "Suc c < BOOTMODE_COUNT" for m'
    using Suc.IH [of m' "Suc c" fuel' True] that Suc.prems fuel by simp
  show ?case
    using Suc.prems fuel more
    by (auto simp: wp fuel twp_mock_read handshake_byte_def BOOTMODE_MARKER_def Let_def mock_write_def not_le
        intro: mock_enter_ok)
qed simp

lemma mock_handshake_found:
  "\<not> mk_closed m \<Longrightarrow> mk_rx_buffer m = pre @ replicate BOOTMODE_COUNT 0x20 @ post \<Longrightarrow> c < BOOTMODE_COUNT \<Longrightarrow>
   length pre + BOOTMODE_COUNT \<le> fuel \<Longrightarrow>
   twp (handshake_loop mock_transport fuel fl ev c) m (\<lambda>r m'. \<exists>h. r = Inr h \<and> hs_success h)"
proof (induction pre arbitrary: m c fuel ev)
  case Nil
  then show ?case by (intro mock_handshake_markers [of m BOOTMODE_COUNT post]) auto
next
  case (Cons b pre)
  then obtain fuel' where fuel: "fuel = Suc fuel'" by (cases fuel) auto
  have more: "twp (handshake_loop mock_transport fuel' fl ev' c') m' (\<lambda>r m'. \<exists>h. r = Inr h \<and> hs_success h)"
    if "\<not> mk_closed m'" "mk_rx_buffer m' = pre @ replicate BOOTMODE_COUNT 0x20 @ post" "c' < BOOTMODE_COUNT" for m' c' ev'
    using Cons.IH [of m' c' fuel' ev'] that Cons.prems fuel by simp
  have "0 < BOOTMODE_COUNT" by (simp add: BOOTMODE_COUNT_def)
  with Cons.prems more show ?case
    by (auto simp: wp fuel twp_mock_read handshake_byte_def BOOTMODE_MARKER_def Let_def mock_write_def not_le
        intro: mock_enter_ok)
qed

section \<open>The size of the SPL\<close>

lemma and_not_mask: "int i AND - 1024 = int (i - i mod 1024)"
proof -
  have "(int i AND mask 10) + (int i AND NOT (mask 10)) = (int i AND mask 10) OR (int i AND NOT (mask 10))"
    by (rule disjunctive_add_eq_or) (simp add: and.assoc and.left_commute)
  also have "\<dots> = int i" by (simp add: bit.conj_disj_distrib [symmetric])
  finally have "int i mod 1024 + (int i AND NOT (mask 10)) = int i"
    using take_bit_eq_mask [of 10 "int i"] by (simp add: take_bit_eq_mod)
  moreover have "NOT (mask 10) = (- 1024 :: int)" by (simp add: mask_eq_exp_minus_1)
  ultimately show ?thesis by (simp add: of_nat_diff of_nat_mod)
qed

lemma detect_at_cases:
  "i < length fw \<Longrightarrow> case detect_at fw i of
     Inl e \<Rightarrow> e = IndexError \<and> (i + 1 = length fw \<and> fw ! i = 0x1F
                \<or> i + 2 = length fw \<and> fw ! i = 0x1F \<and> fw ! (i + 1) = 0x8B)
   | Inr None \<Rightarrow> True
   | Inr (Some n) \<Rightarrow> n = int (i - i mod 1024)"
  using and_not_mask [of i] by (auto simp: detect_at_def)

lemma detect_scan_cases:
  "\<forall>i \<in> set is. 0x4000 \<le> i \<and> i < 0x10000 \<and> i < length fw \<Longrightarrow> case detect_scan fw pm lim is of
     Inl e \<Rightarrow> e = IndexError \<and> (\<exists>i \<in> set is. i + 1 = length fw \<and> fw ! i = 0x1F
                \<or> i + 2 = length fw \<and> fw ! i = 0x1F \<and> fw ! (i + 1) = 0x8B)
   | Inr n \<Rightarrow> n = pm \<or> lim = Some n
       \<or> (n mod 1024 = 0 \<and> 0x4000 \<le> n \<and> n < 0x10000 \<and> (case lim of None \<Rightarrow> True | Some l \<Rightarrow> n \<le> l))"
proof (induction "is")
  case (Cons i "is")
  have i: "i < length fw" "0x4000 \<le> i" "i < 0x10000" using Cons.prems by auto
  have div: "i - i mod 1024 = 1024 * (i div 1024)" by (simp add: minus_mod_eq_mult_div)
  have "16 \<le> i div 1024" using i(2) by simp
  then have b: "0x4000 \<le> i - i mod 1024" unfolding div by simp
  have m: "int (i - i mod 1024) mod 1024 = 0" unfolding div by simp
  show ?case
    using detect_at_cases [OF i(1)] Cons b m i(3)
    by (auto split: sum.splits option.splits)
qed simp

section \<open>Properties\<close>





text \<open>C22: a frame counts as sent only when the device acknowledged it: if sending returns true then
  the frame was written between once and \<open>retries\<close> times, nothing else was written, and the last
  thing read was the ACK byte; otherwise at most \<open>retries\<close> copies were written.\<close>

theorem send_frame_acknowledged:
  "wlp (send_frame_with_retry (recording T) fuel frame retries timeout) s (\<lambda>r s'.
     \<exists>k \<le> retries. tx_of (rec_log s') = tx_of (rec_log s) @ replicate k frame
       \<and> (if r = Inr True then 0 < k \<and> last (rec_log s') = (RX, ACK_BYTE) else True))"
proof -
  have "wlp (send_frame_attempts (recording T) fuel frame timeout retries) s (\<lambda>r s'.
     (\<exists>k \<le> retries. tx_of (rec_log s') = tx_of (rec_log s) @ replicate k frame \<and> (r = Inr True \<longrightarrow> 0 < k))
     \<and> (r = Inr True \<longrightarrow> (\<exists>l. rec_log s' = l @ [(RX, ACK_BYTE)])))"
    by (intro wlp_conj rec.send_frame_attempts_log rec.send_frame_attempts_acked)
  then show ?thesis
    unfolding send_frame_with_retry_def by (rule wlp_mono) auto
qed

text \<open>C23: the handshake reports success, and only success, and only after five boot-mode markers in
  a row, zero bytes aside, whatever the transport.\<close>

theorem handshake_needs_markers:
  "wlp (handshake st (recording T) fuel) s (\<lambda>r s'. case r of
     Inl e \<Rightarrow> True
   | Inr h \<Rightarrow> hs_success h \<and> (\<exists>l p. rx_of (rec_log s') = rx_of (rec_log s) @ l
        \<and> filter (\<lambda>d. d \<noteq> [0]) l = p @ replicate 5 [0x20]))"
proof -
  have "wlp (handshake st (recording T) fuel) s (\<lambda>r s'. \<forall>h. r = Inr h \<longrightarrow>
      hs_success h \<and> (\<exists>l. rx_of (rec_log s') = rx_of (rec_log s) @ l \<and> markers_seen 0 l))"
    unfolding handshake_def
    by (auto simp: wp BOOTMODE_COUNT_def intro!: rec.wlp_emitI wlp_mono [OF rec.handshake_loop_markers] split: sum.split)
  then show ?thesis
    by (rule wlp_mono) (auto simp: markers_seen_def BOOTMODE_COUNT_def BOOTMODE_MARKER_def split: sum.split)
qed

text \<open>C24: against a device that sends anything and then five markers in a row, the handshake
  returns with success within one read per byte.\<close>

theorem handshake_completes:
  assumes "\<not> mk_closed m" "mk_rx_buffer m = pre @ replicate 5 0x20 @ post" "length pre + 5 \<le> fuel"
  shows "\<exists>h m'. handshake st mock_transport fuel m = Some (Inr h, m') \<and> hs_success h"
proof -
  let ?m = "m\<lparr>mk_events := mk_events m @ [\<lparr>pe_stage = HANDSHAKE, pe_bytes_sent = 0, pe_bytes_total = 1\<rparr>]\<rparr>"
  have "twp (handshake_loop mock_transport fuel (hs_continuous_ack st) False 0) ?m (\<lambda>r m'. \<exists>h. r = Inr h \<and> hs_success h)"
    using assms by (intro mock_handshake_found [of _ pre post]) (simp_all add: BOOTMODE_COUNT_def)
  then have "twp (handshake st mock_transport fuel) m (\<lambda>r m'. \<exists>h. r = Inr h \<and> hs_success h)"
    by (simp add: handshake_def emit_def wp)
  then show ?thesis by (auto simp: twp_def split: option.splits)
qed

theorem handshake_completes_witness:
  "\<exists>h m'. handshake HiSiliconStandard_init mock_transport 7
     (mock_enqueue_rx [0x41, 0x20, 0x20, 0x20, 0x20, 0x20, 0x0A] (MockTransport True)) = Some (Inr h, m')
   \<and> hs_success h"
  using handshake_completes [of "mock_enqueue_rx [0x41, 0x20, 0x20, 0x20, 0x20, 0x20, 0x0A] (MockTransport True)"
      "[0x41]" "[0x0A]" 7 HiSiliconStandard_init]
  by (simp add: mock_enqueue_rx_def MockTransport_def numeral_eq_Suc [of "num.Bit1 (num.Bit0 num.One)"] eval_nat_numeral)



end
