(* ===== verification/HisiV500.thy ===== *)
theory HisiV500
  imports Delivery Profiles
begin

text \<open>
  \<open>src/defib/protocol/hisilicon_v500.py\<close>: the boot protocol of the GK7205V500 series. Frames are
  acknowledged one by one and sent again when the device answers \<open>U\<close>.
\<close>

unbundle bit_operations_syntax

section \<open>The code\<close>

definition V500_SOCS :: "string list" where
  "V500_SOCS = [''gk7205v500'', ''gk7205v510'', ''gk7205v530'', ''xm7205v500'', ''xm7205v510'', ''xm7205v530'']"

definition CHUNK_ACK_TIMEOUT :: usec where "CHUNK_ACK_TIMEOUT = 4000000"
definition MAX_NAK_RETRIES :: nat where "MAX_NAK_RETRIES = 10"
definition BOOT_LOAD_ADDR :: int where "BOOT_LOAD_ADDR = 0x41000000"

definition HiSiliconV500_matches :: "string \<Rightarrow> bool" where
  "HiSiliconV500_matches chip_name \<longleftrightarrow> lower chip_name \<in> set V500_SOCS"

fun v500_handshake_loop :: "'s transport \<Rightarrow> nat \<Rightarrow> bytes \<Rightarrow> ('s, HandshakeResult) io" where
  "v500_handshake_loop T 0 frame = io_diverge"
| "v500_handshake_loop T (Suc fuel) frame =
     io_then (tr_write T frame)
       (io_try (io_bind (tr_read T 14 (Some 100000)) (\<lambda>response.
          if take 2 response = [0xBD, 0x00] \<and> length response \<ge> 12
          then let chip_id = be_val (pyslice 8 12 response) in
            io_then (emit T HANDSHAKE 1 1) (io_return (Some (HandshakeResult_ok (Some chip_id) None None)))
          else io_return None))
         (\<lambda>e. if e = TransportTimeout then v500_handshake_loop T fuel frame else io_raise e)
         (\<lambda>r. case r of Some h \<Rightarrow> io_return h | None \<Rightarrow> v500_handshake_loop T fuel frame))"

definition v500_handshake :: "'s transport \<Rightarrow> nat \<Rightarrow> ('s, HandshakeResult) io" where
  "v500_handshake T fuel =
     io_then (emit T HANDSHAKE 0 1)
       (v500_handshake_loop T fuel (append_crc (V500_HANDSHAKE_MAGIC @ replicate 8 0)))"

fun v500_ack_loop :: "'s transport \<Rightarrow> nat \<Rightarrow> bytes \<Rightarrow> usec \<Rightarrow> usec \<Rightarrow> nat \<Rightarrow> ('s, bool) io" where
  "v500_ack_loop T 0 data start timeout retries = io_diverge"
| "v500_ack_loop T (Suc fuel) data start timeout retries =
     io_bind (io_get (tr_now T)) (\<lambda>now.
       if now - start < timeout \<and> retries < MAX_NAK_RETRIES
       then io_try (tr_read T 1 (Some timeout))
         (\<lambda>e. if e = TransportTimeout then io_return False else io_raise e)
         (\<lambda>response. if response = ACK_BYTE then io_return True
            else if response = [0x55]
            then io_then (tr_write T data) (v500_ack_loop T fuel data start timeout (retries + 1))
            else v500_ack_loop T fuel data start timeout retries)
       else io_return False)"

definition v500_send_frame_wait_ack :: "'s transport \<Rightarrow> nat \<Rightarrow> bytes \<Rightarrow> usec \<Rightarrow> ('s, bool) io" where
  "v500_send_frame_wait_ack T fuel data timeout =
     io_then (tr_write T data)
       (io_bind (io_get (tr_now T)) (\<lambda>start. v500_ack_loop T fuel data start timeout 0))"

definition v500_head :: "nat \<Rightarrow> int \<Rightarrow> exn + bytes" where
  "v500_head tot address =
     sum_bind (pack_be 4 (int tot)) (\<lambda>l. sum_bind (pack_be 4 address) (\<lambda>a.
       Inr (append_crc ([0xFE, 0x00, 0xFF, 0x01] @ l @ a))))"

definition v500_data :: "nat \<Rightarrow> bytes \<Rightarrow> bytes" where
  "v500_data idx chunk =
     append_crc ([0xDA] @ [word_of_int (int idx AND 0xFF)] @ [word_of_int (NOT (int idx) AND 0xFF)] @ chunk)"

definition v500_tail :: "nat \<Rightarrow> bytes" where
  "v500_tail count =
     append_crc ([0xED] @ [word_of_int (int count AND 0xFF)] @ [word_of_int (NOT (int count) AND 0xFF)])"

function v500_data_loop :: "'s transport \<Rightarrow> nat \<Rightarrow> bytes \<Rightarrow> Stage \<Rightarrow> nat \<Rightarrow> nat \<Rightarrow> nat \<Rightarrow> ('s, bool) io" where
  "v500_data_loop T fuel data stage idx pos remaining =
     (if 0 < remaining then
        let idx = idx + 1;
            chunk_size = min 1024 remaining;
            chunk = pyslice pos (pos + chunk_size) data;
            pos = pos + chunk_size;
            remaining = remaining - chunk_size;
            frame = v500_data idx chunk
        in io_then (emit T stage pos (length data))
             (io_bind (v500_send_frame_wait_ack T fuel frame CHUNK_ACK_TIMEOUT) (\<lambda>ok.
               if \<not> ok then io_return False
               else v500_data_loop T fuel data stage idx pos remaining))
      else io_return True)"
  by pat_completeness auto
termination
  by (relation "measure (\<lambda>(T, fuel, data, stage, idx, pos, remaining). remaining)") auto

declare v500_data_loop.simps [simp del]

definition v500_send_data_to_bootrom :: "'s transport \<Rightarrow> nat \<Rightarrow> bytes \<Rightarrow> int \<Rightarrow> Stage \<Rightarrow> ('s, bool) io" where
  "v500_send_data_to_bootrom T fuel data address stage =
     (let tot = length data in
      io_bind (io_lift (v500_head tot address)) (\<lambda>head.
      io_bind (v500_send_frame_wait_ack T fuel head CHUNK_ACK_TIMEOUT) (\<lambda>ok.
      if \<not> ok then io_return False else
      io_bind (v500_data_loop T fuel data stage 0 0 tot) (\<lambda>ok.
      if \<not> ok then io_return False else
      io_bind (v500_send_frame_wait_ack T fuel (v500_tail ((tot + 1023) div 1024 + 1)) CHUNK_ACK_TIMEOUT) (\<lambda>ok.
      if \<not> ok then io_return False else
      io_then (emit T stage tot tot) (io_return True))))))"

text \<open>\<open>struct.unpack("<I", data[off:off + 4])\<close>\<close>

definition unpack_le4 :: "bytes \<Rightarrow> nat \<Rightarrow> exn + nat" where
  "unpack_le4 data off =
     (let w = pyslice off (off + 4) data
      in if length w = 4 then Inr (nat (le_val w)) else Inl StructError)"

definition v500_send_firmware :: "'s transport \<Rightarrow> nat \<Rightarrow> bytes \<Rightarrow> ('s, RecoveryResult) io" where
  "v500_send_firmware T fuel firmware =
     io_bind (v500_send_data_to_bootrom T fuel (pyslice 0 8192 firmware) 0 HEAD_AREA) (\<lambda>ok.
     if \<not> ok then io_return (RecoveryResult_fail [] ''Failed to send HEAD area'') else
     io_bind (io_lift (unpack_le4 firmware 1024)) (\<lambda>aux_len.
     io_bind (v500_send_data_to_bootrom T fuel (pyslice 8192 (8192 + aux_len) firmware) 8192 AUX_AREA) (\<lambda>ok.
     if \<not> ok then io_return (RecoveryResult_fail [HEAD_AREA] ''Failed to send AUX area'') else
     io_then (tr_sleep T 100000)
     (io_bind (v500_send_data_to_bootrom T fuel firmware BOOT_LOAD_ADDR BOOT_IMAGE) (\<lambda>ok.
     if \<not> ok then io_return (RecoveryResult_fail [HEAD_AREA, AUX_AREA] ''Failed to send boot image'') else
     io_then (emit T COMPLETE 1 1)
       (io_return (RecoveryResult_ok [HEAD_AREA, AUX_AREA, BOOT_IMAGE, COMPLETE])))))))"

section \<open>The frames are those of the frame module\<close>

lemma v500_frames:
  "v500_data idx c = DataFrame_encode \<lparr>data_seq = int idx, data_payload = c\<rparr>"
  "v500_tail n = tail_frame n"
  "v500_head n addr = Inr h \<Longrightarrow> h = head_frame (int n) addr"
  by (auto simp: v500_data_def v500_tail_def v500_head_def DataFrame_encode_append_crc TailFrame_encode_append_crc
      tail_frame_def head_frame_def DATA_MAGIC_def TAIL_MAGIC_def HEAD_MAGIC_def pack_be_def sum_bind_def split: if_splits)

text \<open>The loop over positions sends the numbered chunks.\<close>

lemma v500_data_loop_step:
  assumes "pos < length data"
  shows "v500_data_loop T fuel data stage idx pos (length data - pos) =
     io_then (emit T stage (min (pos + 1024) (length data)) (length data))
       (io_bind (v500_send_frame_wait_ack T fuel (v500_data (Suc idx) (take 1024 (drop pos data))) CHUNK_ACK_TIMEOUT) (\<lambda>ok.
          if \<not> ok then io_return False
          else v500_data_loop T fuel data stage (Suc idx) (min (pos + 1024) (length data))
                 (length data - min (pos + 1024) (length data))))"
proof -
  have *: "pos + min 1024 (length data - pos) = min (pos + 1024) (length data)"
    "length data - pos - min 1024 (length data - pos) = length data - min (pos + 1024) (length data)"
    using assms by auto
  have **: "pyslice pos (min (pos + 1024) (length data)) data = take 1024 (drop pos data)"
    using assms by (auto simp: pyslice_def min_def)
  show ?thesis
    using assms by (subst v500_data_loop.simps) (simp add: Let_def * ** cong: if_cong)
qed

section \<open>What goes over the wire\<close>

text \<open>A transfer in which every frame, the TAIL too, was acknowledged.\<close>

definition acked_transfer :: "int \<Rightarrow> bytes \<Rightarrow> bytes list \<Rightarrow> bool" where
  "acked_transfer addr d ws \<longleftrightarrow>
     delivers (transfer_frames (int (length d)) addr d
       @ [tail_frame (Suc (length (chunks_from MAX_DATA_LEN d)))]) ws"

context logged_transport
begin

lemma v500_ack_loop_sent:
  "wlp (v500_ack_loop T fuel d start timeout n) s (\<lambda>r s'.
     (\<exists>k. tx_of (log s') = tx_of (log s) @ replicate k d)
     \<and> (r = Inr True \<longrightarrow> (\<exists>l. log s' = l @ [(RX, ACK_BYTE)])))"
proof (induction fuel arbitrary: s n)
  case (Suc fuel)
  have again: "wlp (v500_ack_loop T fuel d start timeout (Suc n)) s1 (\<lambda>r s'.
     (\<exists>k. tx_of (log s') = tx_of (log s) @ replicate k d)
     \<and> (r = Inr True \<longrightarrow> (\<exists>l. log s' = l @ [(RX, ACK_BYTE)])))"
    if "tx_of (log s1) = tx_of (log s) @ [d]" for s1
    using that by (intro wlp_mono [OF Suc.IH]) (force intro: exI [of _ "Suc _"])
  show ?case
    by (auto simp: wp ACK_BYTE_def intro!: wlp_readI wlp_writeI again [simplified ACK_BYTE_def]
        intro: wlp_mono [OF Suc.IH] split: sum.split)
qed (simp add: wp)

lemma v500_wait_ack_sent:
  "wlp (v500_send_frame_wait_ack T fuel d timeout) s (\<lambda>r s'.
     \<exists>ws. tx_of (log s') = tx_of (log s) @ ws \<and> delivers [d] ws)"
  unfolding v500_send_frame_wait_ack_def
  by (auto simp: wp delivers_single [of 1, simplified] intro!: wlp_writeI wlp_mono [OF v500_ack_loop_sent]
      delivers_single [of "Suc _", simplified] split: sum.split)

lemma v500_data_loop_sent:
  "pos \<le> length d \<Longrightarrow>
   wlp (v500_data_loop T fuel d stage idx pos (length d - pos)) s (\<lambda>r s'. r = Inr True \<longrightarrow>
     (\<exists>ws. tx_of (log s') = tx_of (log s) @ ws
        \<and> delivers (data_frames (Suc idx) (chunks_from MAX_DATA_LEN (drop pos d))) ws))"
proof (induction "length d - pos" arbitrary: idx pos s rule: less_induct)
  case less
  show ?case
  proof (cases "pos < length d")
    case False
    then show ?thesis
      by (subst v500_data_loop.simps) (simp add: wp delivers_Nil)
  next
    case True
    let ?p = "min (pos + 1024) (length d)"
    have chunks: "chunks_from MAX_DATA_LEN (drop pos d)
        = take 1024 (drop pos d) # chunks_from MAX_DATA_LEN (drop ?p d)"
      using True chunks_from_step [of MAX_DATA_LEN "drop pos d"] by (auto simp: MAX_DATA_LEN_def min_def add.commute)
    have IH: "wlp (v500_data_loop T fuel d stage (Suc idx) ?p (length d - ?p)) s1 (\<lambda>r s'. r = Inr True \<longrightarrow>
       (\<exists>ws. tx_of (log s') = tx_of (log s) @ ws \<and> delivers (f # data_frames (Suc (Suc idx)) (chunks_from MAX_DATA_LEN (drop ?p d))) ws))"
      if "tx_of (log s1) = tx_of (log s) @ ws" "delivers [f] ws" for s1 ws f
      using that True delivers_append [OF that(2)] by (intro wlp_mono [OF less.hyps]) fastforce+
    show ?thesis
      unfolding v500_data_loop_step [OF True]
      by (auto simp: wp chunks v500_frames intro!: wlp_emitI wlp_mono [OF v500_wait_ack_sent] IH split: sum.split)
  qed
qed

lemma acked_transferI:
  assumes "v500_head (length d) addr = Inr h" "delivers [h] a"
    "delivers (data_frames (Suc 0) (chunks_from MAX_DATA_LEN d)) b"
    "delivers [tail_frame (Suc ((length d + 1023) div 1024))] c"
  shows "acked_transfer addr d (a @ b @ c)"
proof -
  have "length (chunks_from MAX_DATA_LEN d) = (length d + 1023) div 1024"
    using length_chunks_from [of MAX_DATA_LEN d] by (simp add: MAX_DATA_LEN_def)
  then show ?thesis
    using delivers_append [OF assms(2) delivers_append [OF assms(3,4)]] v500_frames(3) [OF assms(1)]
    by (simp add: acked_transfer_def transfer_frames_def)
qed

lemma v500_send_data_sent:
  "wlp (v500_send_data_to_bootrom T fuel d addr stage) s (\<lambda>r s'. r = Inr True \<longrightarrow>
     (\<exists>ws. tx_of (log s') = tx_of (log s) @ ws \<and> acked_transfer addr d ws))"
  unfolding v500_send_data_to_bootrom_def Let_def
  using v500_data_loop_sent [of 0 d fuel stage 0]
  by (auto simp: wp v500_frames(2) intro!: wlp_emitI wlp_mono [OF v500_wait_ack_sent]
      wlp_mono [OF v500_data_loop_sent [of 0 d fuel stage 0, simplified]] acked_transferI split: sum.split)

lemma ex_append3: "P a \<Longrightarrow> Q b \<Longrightarrow> R c \<Longrightarrow> \<exists>a' b' c'. a @ b @ c = a' @ b' @ c' \<and> P a' \<and> Q b' \<and> R c'"
  by blast

lemma v500_send_firmware_sent:
  "wlp (v500_send_firmware T fuel fw) s (\<lambda>r s'. case r of
     Inl e \<Rightarrow> True
   | Inr res \<Rightarrow>
       if rr_success res
       then rr_stages_completed res = [HEAD_AREA, AUX_AREA, BOOT_IMAGE, COMPLETE] \<and> rr_error res = None
         \<and> (\<exists>n a b c. unpack_le4 fw 1024 = Inr n \<and> tx_of (log s') = tx_of (log s) @ a @ b @ c
              \<and> acked_transfer 0 (take 8192 fw) a \<and> acked_transfer 8192 (take n (drop 8192 fw)) b
              \<and> acked_transfer BOOT_LOAD_ADDR fw c)
       else rr_error res \<noteq> None \<and> rr_stages_completed res \<in> {[], [HEAD_AREA], [HEAD_AREA, AUX_AREA]})"
  unfolding v500_send_firmware_def
  by (auto simp: wp pyslice_def intro!: wlp_emitI wlp_sleepI wlp_mono [OF v500_send_data_sent] ex_append3
      split: sum.split)

end

section \<open>Every operation returns\<close>

context timed_transport
begin

lemma v500_ack_loop_ends:
  "nat (timeout - (tr_now T s - start)) < fuel \<Longrightarrow>
   twp (v500_ack_loop T fuel d start timeout n) s (\<lambda>_ _. True)"
proof (induction fuel arbitrary: s n)
  case (Suc fuel)
  then show ?case by (auto simp: wp intro!: twp_readI twp_writeI split: sum.split)
qed simp

lemma v500_wait_ack_ends:
  "nat timeout < fuel \<Longrightarrow> twp (v500_send_frame_wait_ack T fuel d timeout) s (\<lambda>_ _. True)"
  unfolding v500_send_frame_wait_ack_def
  by (auto simp: wp intro!: twp_writeI v500_ack_loop_ends split: sum.split)

lemma v500_data_loop_ends:
  "4000000 < fuel \<Longrightarrow> twp (v500_data_loop T fuel d stage idx pos rem) s (\<lambda>_ _. True)"
proof (induction rem arbitrary: idx pos s rule: less_induct)
  case (less rem)
  then show ?case
    by (subst v500_data_loop.simps)
       (auto simp: wp Let_def CHUNK_ACK_TIMEOUT_def intro!: twp_emitI twp_mono [OF v500_wait_ack_ends] split: sum.split)
qed

lemma v500_send_data_ends:
  "4000000 < fuel \<Longrightarrow> twp (v500_send_data_to_bootrom T fuel d addr stage) s (\<lambda>_ _. True)"
  unfolding v500_send_data_to_bootrom_def Let_def
  by (auto simp: wp CHUNK_ACK_TIMEOUT_def intro!: twp_emitI twp_mono [OF v500_wait_ack_ends]
      twp_mono [OF v500_data_loop_ends] split: sum.split)

lemma v500_send_firmware_ends: "4000000 < fuel \<Longrightarrow> twp (v500_send_firmware T fuel fw) s (\<lambda>_ _. True)"
  unfolding v500_send_firmware_def
  by (auto simp: wp intro!: twp_emitI twp_sleepI twp_mono [OF v500_send_data_ends] split: sum.split)

end

section \<open>Properties\<close>



end
