(* ===== verification/HisiCV6xx.thy ===== *)
theory HisiCV6xx
  imports HisiV500
begin

text \<open>
  \<open>src/defib/protocol/hisilicon_cv6xx.py\<close>: the boot protocol of the HI3516CV6xx series: the composite
  boot file, the handshake, the board query and the staged transfer. The frame exchange is a copy of
  the V500 one in the source; the model keeps both and proves them equal.
\<close>

unbundle bit_operations_syntax

section \<open>Composite boot files\<close>

definition CV6XX_SOCS :: "string list" where
  "CV6XX_SOCS = [''hi3516cv608'', ''hi3516cv610'', ''hi3516cv613'', ''hi3516dv500'', ''hi3519dv500'']"

definition GSL_LOAD_ADDR :: int where "GSL_LOAD_ADDR = 0x04020000"
definition DDR_LOAD_ADDR :: int where "DDR_LOAD_ADDR = 0x41000000"
definition UBOOT_LOAD_ADDR :: int where "UBOOT_LOAD_ADDR = 0x41000000"
definition DDR_TRAINING_WAIT :: usec where "DDR_TRAINING_WAIT = 1500000"

record CV6xxBootParts =
  gsl_data :: bytes
  gsl_size :: nat
  params_start :: nat
  offset_32 :: nat
  table_count :: nat
  table_size :: nat
  board_mapping :: bytes
  uboot_data :: bytes
  file_data :: bytes

definition parse_cv6xx_boot :: "bytes \<Rightarrow> exn + CV6xxBootParts" where
  "parse_cv6xx_boot fd =
     sum_bind (unpack_le4 fd 2048) (\<lambda>magic_gsl.
     if int magic_gsl \<noteq> CV6XX_GSL_MAGIC then Inl ProtocolError else
     sum_bind (unpack_le4 fd 2084) (\<lambda>gsl_len.
     let gsize = gsl_len + 3072; pstart = gsize + 1024 in
     sum_bind (unpack_le4 fd pstart) (\<lambda>magic_params.
     if int magic_params \<noteq> CV6XX_DDR_PARAMS_MAGIC then Inl ProtocolError else
     sum_bind (unpack_le4 fd (pstart + 32)) (\<lambda>o32.
     sum_bind (unpack_le4 fd (pstart + 36)) (\<lambda>tsize.
     sum_bind (unpack_le4 fd (pstart + 40)) (\<lambda>tcount.
     case find_sub (le_bytes 4 CV6XX_UBOOT_MAGIC) pstart fd of
       None \<Rightarrow> Inl ProtocolError
     | Some off \<Rightarrow>
         sum_bind (unpack_le4 fd (off + 36)) (\<lambda>uboot_len.
           Inr \<lparr>gsl_data = take gsize fd, gsl_size = gsize, params_start = pstart, offset_32 = o32,
                table_count = tcount, table_size = tsize,
                board_mapping = pyslice (pstart + 300) (pstart + 308) fd,
                uboot_data = pyslice off (off + (uboot_len + 1024)) fd, file_data = fd\<rparr>)))))))"

definition wrap_cv6xx_payload :: "bytes \<Rightarrow> bytes \<Rightarrow> exn + bytes" where
  "wrap_cv6xx_payload header_source payload =
     (if length header_source < 1024 then Inl ValueError
      else sum_bind (pack_le 4 (int (length payload))) (\<lambda>len.
        let header = take 1024 header_source
        in Inr ((take 36 header @ len @ drop 40 header) @ payload)))"

definition build_ddr_table :: "CV6xxBootParts \<Rightarrow> nat \<Rightarrow> exn + bytes" where
  "build_ddr_table parts board_id =
     (let mapping = board_mapping parts;
          i = (if board_id < length mapping then board_id else 0)
      in if i \<ge> length mapping then Inl IndexError
         else let mapped = unat (mapping ! i);
                  mapped_index = (if mapped \<ge> table_count parts then 0 else mapped);
                  table_offset = gsl_size parts + 2048 + offset_32 parts + mapped_index * table_size parts
              in Inr (pyslice (gsl_size parts) (gsl_size parts + 2048) (file_data parts)
                      @ pyslice table_offset (table_offset + table_size parts) (file_data parts)))"

section \<open>The protocol\<close>

definition HiSiliconCV6xx_matches :: "string \<Rightarrow> bool" where
  "HiSiliconCV6xx_matches chip_name \<longleftrightarrow> lower chip_name \<in> set CV6XX_SOCS"

definition ascii :: "string \<Rightarrow> bytes" where
  "ascii s = map (\<lambda>c. of_nat (of_char c)) s"

definition cv6xx_frame :: bytes where
  "cv6xx_frame = append_crc_le (CV6XX_HANDSHAKE_MAGIC @ le_bytes 4 115200 @ [8, 1, 0, 9])"

definition cv6xx_ready :: "bytes \<Rightarrow> bool" where
  "cv6xx_ready buffer \<longleftrightarrow> contains_sub (ascii ''uart ddr'') buffer \<or> contains_sub (ascii ''uart flash'') buffer"

definition cv6xx_handshake_done :: "'s transport \<Rightarrow> ('s, HandshakeResult) io" where
  "cv6xx_handshake_done T =
     io_then (tr_sleep T 500000) (io_then (tr_flush_input T)
       (io_then (emit T HANDSHAKE 1 1) (io_return (HandshakeResult_ok None None None))))"

text \<open>What one poll of the input gives: nothing was waiting, or a chunk.\<close>

definition poll_chunk :: "'s transport \<Rightarrow> nat option \<Rightarrow> usec \<Rightarrow> ('s, bytes option) io" where
  "poll_chunk T limit timeout =
     io_bind (tr_bytes_waiting T) (\<lambda>waiting.
       if 0 < waiting
       then io_bind (tr_read T (case limit of None \<Rightarrow> waiting | Some m \<Rightarrow> min waiting m) (Some timeout))
              (\<lambda>chunk. io_return (Some chunk))
       else io_return None)"

fun cv6xx_handshake_loop :: "'s transport \<Rightarrow> nat \<Rightarrow> bytes \<Rightarrow> ('s, HandshakeResult) io" where
  "cv6xx_handshake_loop T 0 buffer = io_diverge"
| "cv6xx_handshake_loop T (Suc fuel) buffer =
     io_then (tr_write T cv6xx_frame) (io_then (tr_sleep T 10000)
       (io_try (poll_chunk T None 10000)
         (\<lambda>e. if e = TransportTimeout then cv6xx_handshake_loop T fuel buffer else io_raise e)
         (\<lambda>polled. case polled of
            None \<Rightarrow> cv6xx_handshake_loop T fuel buffer
          | Some chunk \<Rightarrow>
              if cv6xx_ready (buffer @ chunk)
              then io_try (cv6xx_handshake_done T)
                (\<lambda>e. if e = TransportTimeout then cv6xx_handshake_loop T fuel (buffer @ chunk) else io_raise e)
                io_return
              else cv6xx_handshake_loop T fuel (buffer @ chunk))))"

definition cv6xx_handshake :: "'s transport \<Rightarrow> nat \<Rightarrow> ('s, HandshakeResult) io" where
  "cv6xx_handshake T fuel = io_then (emit T HANDSHAKE 0 1) (cv6xx_handshake_loop T fuel [])"

text \<open>The board query. The answer in the buffer, if it is complete: CPU, board and what follows.\<close>

definition board_response :: "bytes \<Rightarrow> (byte \<times> nat \<times> bytes) option" where
  "board_response buf =
     (case find_sub [0xCE] 0 buf of
        None \<Rightarrow> None
      | Some idx \<Rightarrow>
          if length buf \<ge> idx + 11 \<and> buf ! (idx + 10) = 0xAA
          then let resp = pyslice idx (idx + 11) buf
               in Some (resp ! 1, nat (be_val (pyslice 4 8 resp)), drop (idx + 11) buf)
          else None)"

definition cv6xx_unread :: "'s transport \<Rightarrow> bytes \<Rightarrow> ('s, unit) io" where
  "cv6xx_unread T remaining =
     (if remaining = [] then io_return ()
      else io_try (tr_unread T remaining)
        (\<lambda>e. if e = NotImplementedError then io_return () else io_raise e) io_return)"

fun get_board_id_loop :: "'s transport \<Rightarrow> nat \<Rightarrow> usec \<Rightarrow> bytes \<Rightarrow> byte option \<Rightarrow> ('s, nat \<times> byte option) io" where
  "get_board_id_loop T 0 start buf cpu = io_diverge"
| "get_board_id_loop T (Suc fuel) start buf cpu =
     io_bind (io_get (tr_now T)) (\<lambda>now.
       if now - start < 2000000
       then io_try (poll_chunk T None 100000)
         (\<lambda>e. if e = TransportTimeout
              then io_then (tr_sleep T 10000) (get_board_id_loop T fuel start buf cpu) else io_raise e)
         (\<lambda>polled. case polled of
            None \<Rightarrow> io_then (tr_sleep T 10000) (get_board_id_loop T fuel start buf cpu)
          | Some chunk \<Rightarrow>
              (case board_response (buf @ chunk) of
                 None \<Rightarrow> io_then (tr_sleep T 10000) (get_board_id_loop T fuel start (buf @ chunk) cpu)
               | Some (c, board_id, remaining) \<Rightarrow>
                   io_try (cv6xx_unread T remaining)
                     (\<lambda>e. if e = TransportTimeout
                          then io_then (tr_sleep T 10000) (get_board_id_loop T fuel start (buf @ chunk) (Some c))
                          else io_raise e)
                     (\<lambda>_. io_return (board_id, Some c))))
       else io_return (0, cpu))"

definition get_board_id :: "'s transport \<Rightarrow> nat \<Rightarrow> int \<Rightarrow> ('s, nat \<times> byte option) io" where
  "get_board_id T fuel unix_time =
     io_bind (io_lift (pack_be 4 unix_time)) (\<lambda>t_bytes.
     io_then (tr_flush_input T)
     (io_then (tr_write T (append_crc (CV6XX_BOARDID_MAGIC @ t_bytes @ t_bytes)))
     (io_bind (io_get (tr_now T)) (\<lambda>start. get_board_id_loop T fuel start [] None))))"

fun cv6xx_ack_loop :: "'s transport \<Rightarrow> nat \<Rightarrow> bytes \<Rightarrow> usec \<Rightarrow> usec \<Rightarrow> nat \<Rightarrow> ('s, bool) io" where
  "cv6xx_ack_loop T 0 data start timeout retries = io_diverge"
| "cv6xx_ack_loop T (Suc fuel) data start timeout retries =
     io_bind (io_get (tr_now T)) (\<lambda>now.
       if now - start < timeout \<and> retries < 10
       then io_try (tr_read T 1 (Some timeout))
         (\<lambda>e. if e = TransportTimeout then io_return False else io_raise e)
         (\<lambda>response. if response = ACK_BYTE then io_return True
            else if response = [0x55]
            then io_then (tr_write T data) (cv6xx_ack_loop T fuel data start timeout (retries + 1))
            else cv6xx_ack_loop T fuel data start timeout retries)
       else io_return False)"

definition cv6xx_send_frame_wait_ack :: "'s transport \<Rightarrow> nat \<Rightarrow> bytes \<Rightarrow> usec \<Rightarrow> ('s, bool) io" where
  "cv6xx_send_frame_wait_ack T fuel data timeout =
     io_then (tr_write T data)
       (io_bind (io_get (tr_now T)) (\<lambda>start. cv6xx_ack_loop T fuel data start timeout 0))"

function cv6xx_data_loop :: "'s transport \<Rightarrow> nat \<Rightarrow> bytes \<Rightarrow> Stage \<Rightarrow> nat \<Rightarrow> nat \<Rightarrow> nat \<Rightarrow> ('s, bool) io" where
  "cv6xx_data_loop T fuel data stage idx pos remaining =
     (if 0 < remaining then
        let idx = idx + 1;
            chunk_size = min 1024 remaining;
            chunk = pyslice pos (pos + chunk_size) data;
            pos = pos + chunk_size;
            remaining = remaining - chunk_size;
            frame = append_crc ([0xDA] @ [word_of_int (int idx AND 0xFF)]
                      @ [word_of_int (NOT (int idx) AND 0xFF)] @ chunk)
        in io_then (emit T stage pos (length data))
             (io_bind (cv6xx_send_frame_wait_ack T fuel frame 4000000) (\<lambda>ok.
               if \<not> ok then io_return False
               else cv6xx_data_loop T fuel data stage idx pos remaining))
      else io_return True)"
  by pat_completeness auto
termination
  by (relation "measure (\<lambda>(T, fuel, data, stage, idx, pos, remaining). remaining)") auto

declare cv6xx_data_loop.simps [simp del]

definition cv6xx_send_data_to_bootrom :: "'s transport \<Rightarrow> nat \<Rightarrow> bytes \<Rightarrow> int \<Rightarrow> Stage \<Rightarrow> ('s, bool) io" where
  "cv6xx_send_data_to_bootrom T fuel data address stage =
     (let tot = length data; count = (tot + 1023) div 1024 + 1 in
      io_bind (io_lift (pack_be 4 (int tot))) (\<lambda>l.
      io_bind (io_lift (pack_be 4 address)) (\<lambda>a.
      io_bind (cv6xx_send_frame_wait_ack T fuel (append_crc ([0xFE, 0x00, 0xFF, 0x01] @ l @ a)) 4000000) (\<lambda>ok.
      if \<not> ok then io_return False else
      io_bind (cv6xx_data_loop T fuel data stage 0 0 tot) (\<lambda>ok.
      if \<not> ok then io_return False else
      io_bind (cv6xx_send_frame_wait_ack T fuel
          (append_crc ([0xED] @ [word_of_int (int count AND 0xFF)] @ [word_of_int (NOT (int count) AND 0xFF)]))
          4000000) (\<lambda>ok.
      if \<not> ok then io_return False else
      io_then (emit T stage tot tot) (io_return True)))))))"

fun ddr_training_loop :: "'s transport \<Rightarrow> nat \<Rightarrow> usec \<Rightarrow> usec \<Rightarrow> ('s, unit) io" where
  "ddr_training_loop T 0 start wait = io_diverge"
| "ddr_training_loop T (Suc fuel) start wait =
     io_bind (io_get (tr_now T)) (\<lambda>now.
       if now - start < wait
       then io_try (poll_chunk T (Some 256) 50000)
         (\<lambda>e. if e = TransportTimeout
              then io_then (tr_sleep T 50000) (ddr_training_loop T fuel start wait) else io_raise e)
         (\<lambda>_. io_then (tr_sleep T 50000) (ddr_training_loop T fuel start wait))
       else io_return ())"

definition cv6xx_send_firmware ::
  "'s transport \<Rightarrow> nat \<Rightarrow> usec \<Rightarrow> int \<Rightarrow> bytes \<Rightarrow> bytes option \<Rightarrow> ('s, RecoveryResult) io" where
  "cv6xx_send_firmware T fuel ddr_training_wait unix_time firmware uboot_override =
     (case parse_cv6xx_boot firmware of
        Inl e \<Rightarrow> if e = ProtocolError then io_return (RecoveryResult_fail [] ''Invalid boot file'') else io_raise e
      | Inr parts \<Rightarrow>
          let uboot_payload = (case uboot_override of Some u \<Rightarrow> u | None \<Rightarrow> uboot_data parts) in
          io_bind (cv6xx_send_data_to_bootrom T fuel (gsl_data parts) GSL_LOAD_ADDR GSL) (\<lambda>ok.
          if \<not> ok then io_return (RecoveryResult_fail [] ''Failed to send GSL'') else
          io_then (emit T BOARD_ID 0 1)
          (io_bind (get_board_id T fuel unix_time) (\<lambda>(board_id, cpu).
          io_then (emit T BOARD_ID 1 1)
          (io_bind (io_lift (build_ddr_table parts board_id)) (\<lambda>ddr_table.
          io_bind (cv6xx_send_data_to_bootrom T fuel ddr_table DDR_LOAD_ADDR DDR_TABLE) (\<lambda>ok.
          if \<not> ok then io_return (RecoveryResult_fail [GSL] ''Failed to send DDR table'') else
          io_then (emit T DDR_TRAINING 0 1)
          (io_bind (io_get (tr_now T)) (\<lambda>start.
          io_then (ddr_training_loop T fuel start ddr_training_wait)
          (io_then (emit T DDR_TRAINING 1 1)
          (io_bind (cv6xx_send_data_to_bootrom T fuel uboot_payload UBOOT_LOAD_ADDR UBOOT) (\<lambda>ok.
          if \<not> ok then io_return (RecoveryResult_fail [GSL, DDR_TABLE, DDR_TRAINING] ''Failed to send U-Boot'')
          else io_then (emit T COMPLETE 1 1)
            (io_return (RecoveryResult_ok [GSL, DDR_TABLE, DDR_TRAINING, UBOOT, COMPLETE]))))))))))))))"

section \<open>The frame exchange is the one of V500\<close>

lemma cv6xx_ack_loop_v500: "cv6xx_ack_loop T fuel d start timeout n = v500_ack_loop T fuel d start timeout n"
proof (induction fuel arbitrary: n)
  case (Suc fuel)
  then show ?case by (simp add: MAX_NAK_RETRIES_def cong: if_cong)
qed simp

lemma cv6xx_wait_ack_v500: "cv6xx_send_frame_wait_ack T fuel d timeout = v500_send_frame_wait_ack T fuel d timeout"
  by (simp add: cv6xx_send_frame_wait_ack_def v500_send_frame_wait_ack_def cv6xx_ack_loop_v500)

lemma cv6xx_data_loop_v500:
  "cv6xx_data_loop T fuel d stage idx pos rem = v500_data_loop T fuel d stage idx pos rem"
proof (induction rem arbitrary: idx pos rule: less_induct)
  case (less rem)
  then show ?case
    by (subst cv6xx_data_loop.simps, subst v500_data_loop.simps)
       (simp add: Let_def cv6xx_wait_ack_v500 v500_data_def CHUNK_ACK_TIMEOUT_def cong: if_cong)
qed

lemma io_bind_lift_sum: "io_bind (io_lift (sum_bind r f)) k = io_bind (io_lift r) (\<lambda>a. io_bind (io_lift (f a)) k)"
  by (cases r) (simp_all add: io_defs sum_bind_def)

lemma io_bind_lift_Inr [simp]: "io_bind (io_lift (Inr a)) k = k a"
  by (simp add: io_defs)

lemma cv6xx_send_data_eq:
  "cv6xx_send_data_to_bootrom T fuel d addr stage = v500_send_data_to_bootrom T fuel d addr stage"
  unfolding cv6xx_send_data_to_bootrom_def v500_send_data_to_bootrom_def v500_head_def v500_tail_def Let_def
  by (simp add: cv6xx_wait_ack_v500 cv6xx_data_loop_v500 CHUNK_ACK_TIMEOUT_def io_bind_lift_sum cong: if_cong)

section \<open>What goes over the wire\<close>

text \<open>The GSL, the board query, the DDR table of some board, and the U-Boot image.\<close>

definition cv6xx_sent :: "CV6xxBootParts \<Rightarrow> bytes \<Rightarrow> bytes list \<Rightarrow> bool" where
  "cv6xx_sent parts u ws \<longleftrightarrow>
     (\<exists>board table a b c d. ws = a @ b @ c @ d \<and> build_ddr_table parts board = Inr table
        \<and> acked_transfer GSL_LOAD_ADDR (gsl_data parts) a \<and> acked_transfer DDR_LOAD_ADDR table c
        \<and> acked_transfer UBOOT_LOAD_ADDR u d)"

context logged_transport
begin

lemma poll_chunk_log: "wlp (poll_chunk T limit timeout) s (\<lambda>r s'. tx_of (log s') = tx_of (log s))"
  unfolding poll_chunk_def
  by (auto simp: wp intro!: wlp_bytes_waitingI wlp_readI split: sum.split)

lemma cv6xx_unread_log: "wlp (cv6xx_unread T d) s (\<lambda>r s'. tx_of (log s') = tx_of (log s))"
  unfolding cv6xx_unread_def by (auto simp: wp intro!: wlp_unreadI split: sum.split)

lemma get_board_id_loop_log:
  "wlp (get_board_id_loop T fuel start buf cpu) s (\<lambda>r s'. tx_of (log s') = tx_of (log s))"
proof (induction fuel arbitrary: buf cpu s)
  case (Suc fuel)
  show ?case
    by (auto simp: wp intro!: wlp_mono [OF poll_chunk_log] wlp_mono [OF cv6xx_unread_log] wlp_sleepI
        wlp_mono [OF Suc.IH] split: sum.split option.split)
qed (simp add: wp)

lemma get_board_id_log: "wlp (get_board_id T fuel t) s (\<lambda>r s'. \<exists>ws. tx_of (log s') = tx_of (log s) @ ws)"
  unfolding get_board_id_def
  by (auto simp: wp intro!: wlp_flush_inputI wlp_writeI wlp_mono [OF get_board_id_loop_log] split: sum.split)

lemma ddr_training_log: "wlp (ddr_training_loop T fuel start wait) s (\<lambda>r s'. tx_of (log s') = tx_of (log s))"
proof (induction fuel arbitrary: s)
  case (Suc fuel)
  show ?case
    by (auto simp: wp intro!: wlp_mono [OF poll_chunk_log] wlp_sleepI wlp_mono [OF Suc.IH] split: sum.split)
qed (simp add: wp)

lemma ex_append4: "P a \<Longrightarrow> Q c \<Longrightarrow> R d \<Longrightarrow> \<exists>a' b' c' d'. a @ b @ c @ d = a' @ b' @ c' @ d' \<and> P a' \<and> Q c' \<and> R d'"
  by blast

lemma cv6xx_sentI:
  assumes "build_ddr_table parts board = Inr table" "acked_transfer GSL_LOAD_ADDR (gsl_data parts) a"
    "acked_transfer DDR_LOAD_ADDR table c" "acked_transfer UBOOT_LOAD_ADDR u d"
  shows "cv6xx_sent parts u (a @ b @ c @ d)"
  unfolding cv6xx_sent_def using assms by blast

lemma cv6xx_send_firmware_sent:
  "wlp (cv6xx_send_firmware T fuel w t fw ov) s (\<lambda>r s'. case r of
     Inl e \<Rightarrow> True
   | Inr res \<Rightarrow>
       if rr_success res
       then rr_stages_completed res = [GSL, DDR_TABLE, DDR_TRAINING, UBOOT, COMPLETE] \<and> rr_error res = None
         \<and> (\<exists>parts ws. parse_cv6xx_boot fw = Inr parts \<and> tx_of (log s') = tx_of (log s) @ ws
              \<and> cv6xx_sent parts (case ov of Some u \<Rightarrow> u | None \<Rightarrow> uboot_data parts) ws)
       else rr_error res \<noteq> None \<and> rr_stages_completed res \<in> {[], [GSL], [GSL, DDR_TABLE, DDR_TRAINING]})"
  unfolding cv6xx_send_firmware_def Let_def cv6xx_send_data_eq
  by (auto simp: wp intro!: wlp_emitI wlp_sleepI wlp_mono [OF v500_send_data_sent] wlp_mono [OF get_board_id_log]
      wlp_mono [OF ddr_training_log] cv6xx_sentI split: sum.split)

end


context logged_transport
begin

lemma poll_chunk_rx:
  "wlp (poll_chunk T limit timeout) s (\<lambda>r s'. concat (rx_of (log s')) =
     concat (rx_of (log s)) @ (case r of Inr (Some d) \<Rightarrow> d | _ \<Rightarrow> []))"
  unfolding poll_chunk_def
  by (auto simp: wp read_log_def intro!: wlp_bytes_waitingI wlp_readI split: sum.split)

lemma cv6xx_handshake_done_rx:
  "wlp (cv6xx_handshake_done T) s (\<lambda>r s'. rx_of (log s') = rx_of (log s) \<and> (\<forall>h. r = Inr h \<longrightarrow> hs_success h))"
  unfolding cv6xx_handshake_done_def
  by (auto simp: wp HandshakeResult_ok_def intro!: wlp_sleepI wlp_flush_inputI wlp_emitI split: sum.split)

lemma cv6xx_handshake_loop_ready:
  "concat (rx_of (log s)) = pre @ buf \<Longrightarrow>
   wlp (cv6xx_handshake_loop T fuel buf) s (\<lambda>r s'. \<forall>h. r = Inr h \<longrightarrow>
     hs_success h \<and> (\<exists>l. concat (rx_of (log s')) = pre @ l \<and> cv6xx_ready l))"
proof (induction fuel arbitrary: buf s)
  case (Suc fuel)
  have next_round: "wlp (cv6xx_handshake_loop T fuel (buf @ d)) s1 (\<lambda>r s'. \<forall>h. r = Inr h \<longrightarrow>
       hs_success h \<and> (\<exists>l. concat (rx_of (log s')) = pre @ l \<and> cv6xx_ready l))"
    if "concat (rx_of (log s1)) = concat (rx_of (log s)) @ d" for d s1
    using that Suc.prems by (intro Suc.IH) simp
  show ?case
    using Suc.prems next_round [of _ "[]"]
    by (auto simp: wp intro!: wlp_writeI wlp_sleepI wlp_mono [OF poll_chunk_rx] next_round
        wlp_mono [OF cv6xx_handshake_done_rx] split: sum.split option.split)
qed (simp add: wp)

end

section \<open>Every operation returns\<close>

context timed_transport
begin

lemma poll_chunk_ends:
  "(\<And>r s'. tr_now T s \<le> tr_now T s' \<Longrightarrow> Q r s') \<Longrightarrow> twp (poll_chunk T limit timeout) s Q"
  unfolding poll_chunk_def
  by (auto simp: wp intro!: twp_bytes_waitingI twp_readI split: sum.split)

lemma cv6xx_unread_ends:
  "(\<And>r s'. tr_now T s \<le> tr_now T s' \<Longrightarrow> Q r s') \<Longrightarrow> twp (cv6xx_unread T d) s Q"
  unfolding cv6xx_unread_def by (auto simp: wp intro!: twp_unreadI split: sum.split)

lemma get_board_id_loop_ends:
  "nat (2000000 - (tr_now T s - start)) < fuel \<Longrightarrow>
   twp (get_board_id_loop T fuel start buf cpu) s (\<lambda>_ _. True)"
proof (induction fuel arbitrary: s buf cpu)
  case (Suc fuel)
  show ?case
    using Suc.prems
    by (auto simp: wp intro!: poll_chunk_ends twp_sleep_posI Suc.IH cv6xx_unread_ends split: sum.split option.split)
qed simp

lemma get_board_id_ends: "2000000 < fuel \<Longrightarrow> twp (get_board_id T fuel t) s (\<lambda>_ _. True)"
  unfolding get_board_id_def
  by (auto simp: wp intro!: twp_flush_inputI twp_writeI get_board_id_loop_ends split: sum.split)

lemma ddr_training_ends:
  "nat (wait - (tr_now T s - start)) < fuel \<Longrightarrow> twp (ddr_training_loop T fuel start wait) s (\<lambda>_ _. True)"
proof (induction fuel arbitrary: s)
  case (Suc fuel)
  show ?case
    using Suc.prems by (auto simp: wp intro!: poll_chunk_ends twp_sleep_posI Suc.IH split: sum.split)
qed simp

lemma cv6xx_send_firmware_ends:
  assumes "4000000 < fuel" "nat w < fuel"
  shows "twp (cv6xx_send_firmware T fuel w t fw ov) s (\<lambda>_ _. True)"
  unfolding cv6xx_send_firmware_def Let_def cv6xx_send_data_eq
  using assms
  by (auto simp: wp intro!: twp_emitI twp_sleepI twp_mono [OF v500_send_data_ends] twp_mono [OF get_board_id_ends]
      twp_mono [OF ddr_training_ends] split: sum.split)

end

section \<open>Properties\<close>



text \<open>C4: the CV6xx handshake reports success only after the bytes read since it began contain one of
  the two mode announcements of the boot ROM, whatever the transport and however the announcement
  was cut into reads.\<close>

theorem cv6xx_handshake_needs_mode:
  "wlp (cv6xx_handshake (recording T) fuel) s (\<lambda>r s'. case r of
     Inl e \<Rightarrow> True
   | Inr h \<Rightarrow> hs_success h \<and> (\<exists>l. concat (rx_of (rec_log s')) = concat (rx_of (rec_log s)) @ l
       \<and> (contains_sub (ascii ''uart ddr'') l \<or> contains_sub (ascii ''uart flash'') l)))"
proof -
  have "wlp (cv6xx_handshake (recording T) fuel) s (\<lambda>r s'. \<forall>h. r = Inr h \<longrightarrow>
      hs_success h \<and> (\<exists>l. concat (rx_of (rec_log s')) = concat (rx_of (rec_log s)) @ l \<and> cv6xx_ready l))"
    unfolding cv6xx_handshake_def
    by (auto simp: wp intro!: rec.wlp_emitI wlp_mono [OF rec.cv6xx_handshake_loop_ready] split: sum.split)
  then show ?thesis
    by (rule wlp_mono) (auto simp: cv6xx_ready_def split: sum.split)
qed

lemma unpack_le4_wrapped:
  assumes "wrap_cv6xx_payload h p = Inr w"
  shows "unpack_le4 (pre @ w @ post) (length pre + 36) = Inr (length p)"
  using assms
  by (auto simp: unpack_le4_def wrap_cv6xx_payload_def sum_bind_def pack_le_def pyslice_def le_val_le_bytes
      Let_def split: if_splits)

text \<open>C5: wrapping a payload succeeds exactly for headers of at least 1024 bytes and payloads below
  4 GiB (it raises ValueError and struct.error otherwise). The result is the header with only its length
  field replaced, followed by the payload; and a boot file that carries the result as its U-Boot part
  parses to exactly that part.\<close>

theorem wrap_cv6xx_payload_correct:
  "case wrap_cv6xx_payload h p of
     Inl e \<Rightarrow> e = (if length h < 1024 then ValueError else StructError)
        \<and> (length h < 1024 \<or> 256 ^ 4 \<le> length p)
   | Inr w \<Rightarrow> 1024 \<le> length h \<and> length p < 256 ^ 4 \<and> length w = 1024 + length p
        \<and> take 36 w = take 36 h \<and> pyslice 40 1024 w = pyslice 40 1024 h
        \<and> pyslice 36 40 w = le_bytes 4 (int (length p)) \<and> drop 1024 w = p
        \<and> (\<forall>pre post parts. parse_cv6xx_boot (pre @ w @ post) = Inr parts
             \<longrightarrow> find_sub (le_bytes 4 CV6XX_UBOOT_MAGIC) (params_start parts) (pre @ w @ post) = Some (length pre)
             \<longrightarrow> uboot_data parts = w)"
proof (cases "wrap_cv6xx_payload h p")
  case (Inl e)
  then show ?thesis
    by (auto simp: wrap_cv6xx_payload_def sum_bind_def pack_le_def Let_def split: if_splits)
next
  case (Inr w)
  then have w: "w = take 36 h @ le_bytes 4 (int (length p)) @ drop 40 (take 1024 h) @ p"
    and h: "1024 \<le> length h" and p: "length p < 256 ^ 4"
    by (auto simp: wrap_cv6xx_payload_def sum_bind_def pack_le_def Let_def split: if_splits)
  have len: "length w = 1024 + length p"
    using w h by simp
  have part: "uboot_data parts = w"
    if "parse_cv6xx_boot (pre @ w @ post) = Inr parts"
      "find_sub (le_bytes 4 CV6XX_UBOOT_MAGIC) (params_start parts) (pre @ w @ post) = Some (length pre)"
    for pre post parts
    using that len unpack_le4_wrapped [OF Inr, of pre post]
    by (auto simp: parse_cv6xx_boot_def sum_bind_def Let_def pyslice_def split: sum.splits if_splits option.splits)
  show ?thesis
    using Inr w h p len part by (simp add: pyslice_def take_drop)
qed

text \<open>A composite file for the witness: a boot file whose U-Boot part is a wrapped one-byte payload.\<close>

definition sample_pre :: bytes where
  "sample_pre = replicate 2048 0 @ le_bytes 4 CV6XX_GSL_MAGIC @ replicate 2044 0
     @ le_bytes 4 CV6XX_DDR_PARAMS_MAGIC @ replicate 40 0"

definition sample_header :: bytes where
  "sample_header = le_bytes 4 CV6XX_UBOOT_MAGIC @ replicate 1020 0"

definition sample_wrapped :: bytes where
  "sample_wrapped = le_bytes 4 CV6XX_UBOOT_MAGIC @ replicate 32 0 @ le_bytes 4 1 @ replicate 984 0 @ [7]"

lemma sample_wrap: "wrap_cv6xx_payload sample_header [7] = Inr sample_wrapped"
  by (simp add: wrap_cv6xx_payload_def sample_header_def sample_wrapped_def sum_bind_def pack_le_def Let_def
      take_append drop_append)

lemma le_val_zeros [simp]: "le_val (replicate n 0) = 0"
  by (induction n) simp_all

lemma length_sample_pre: "length sample_pre = 4140"
  by (simp add: sample_pre_def)

lemma sample_unpack:
  "unpack_le4 (sample_pre @ sample_wrapped) 2048 = Inr (nat CV6XX_GSL_MAGIC)"
  "unpack_le4 (sample_pre @ sample_wrapped) 2084 = Inr 0"
  "unpack_le4 (sample_pre @ sample_wrapped) 4096 = Inr (nat CV6XX_DDR_PARAMS_MAGIC)"
  "unpack_le4 (sample_pre @ sample_wrapped) 4128 = Inr 0"
  "unpack_le4 (sample_pre @ sample_wrapped) 4132 = Inr 0"
  "unpack_le4 (sample_pre @ sample_wrapped) 4136 = Inr 0"
  "unpack_le4 (sample_pre @ sample_wrapped) 4176 = Inr 1"
  by (simp_all add: unpack_le4_def sample_pre_def sample_wrapped_def pyslice_def le_val_le_bytes
      CV6XX_GSL_MAGIC_def CV6XX_DDR_PARAMS_MAGIC_def)

lemma sample_find:
  "find_sub (le_bytes 4 CV6XX_UBOOT_MAGIC) 4096 (sample_pre @ sample_wrapped) = Some (length sample_pre)"
proof (rule find_sub_first)
  let ?s = "sample_pre @ sample_wrapped" and ?m = "le_bytes 4 CV6XX_UBOOT_MAGIC"
  have m: "?m = [0x2D, 0x1E, 0xF0, 0x4B]" and d: "le_bytes 4 CV6XX_DDR_PARAMS_MAGIC = [0x2D, 0xA5, 0x87, 0x4B]"
    by code_simp+
  show "take (length ?m) (drop (length sample_pre) ?s) = ?m"
    by (simp add: sample_wrapped_def)
  show "take (length ?m) (drop j ?s) \<noteq> ?m" if "4096 \<le> j" "j < length sample_pre" for j
  proof -
    have tail: "drop j ?s = drop (j - 4096) ([0x2D, 0xA5, 0x87, 0x4B] @ replicate 40 0 @ sample_wrapped)"
      using that(1) by (simp add: sample_pre_def d)
    have "take 4 (drop k ([0x2D, 0xA5, 0x87, 0x4B] @ replicate 40 0 @ sample_wrapped)) ! (if k = 0 then 1 else 0)
        \<noteq> ?m ! (if k = 0 then 1 else 0)" if k: "k < 44" for k
    proof -
      consider "k = 0" | "k = 1" | "k = 2" | "k = 3" | "4 \<le> k" "k - 4 < 40" using k by linarith
      then show ?thesis by cases (simp_all add: m nth_append numeral_eq_Suc(1) [symmetric], simp add: eval_nat_numeral)
    qed
    from this [of "j - 4096"] that have "take 4 (drop j ?s) \<noteq> ?m"
      unfolding tail [symmetric] length_sample_pre by fastforce
    then show ?thesis by simp
  qed
qed (simp_all add: length_sample_pre)

lemma sample_parse: "\<exists>parts. parse_cv6xx_boot (sample_pre @ sample_wrapped) = Inr parts \<and> params_start parts = 4096"
  using sample_find
  by (simp add: parse_cv6xx_boot_def sum_bind_def sample_unpack CV6XX_GSL_MAGIC_def CV6XX_DDR_PARAMS_MAGIC_def
      Let_def length_sample_pre)

theorem wrap_cv6xx_payload_correct_witness:
  "\<exists>parts. wrap_cv6xx_payload sample_header [7] = Inr sample_wrapped
     \<and> parse_cv6xx_boot (sample_pre @ sample_wrapped @ []) = Inr parts \<and> uboot_data parts = sample_wrapped"
proof -
  obtain parts where parts: "parse_cv6xx_boot (sample_pre @ sample_wrapped @ []) = Inr parts" "params_start parts = 4096"
    using sample_parse by auto
  moreover have "uboot_data parts = sample_wrapped"
    using wrap_cv6xx_payload_correct [of sample_header "[7]"] sample_wrap sample_find parts
    by (simp del: append_Nil2) (metis append_Nil2)
  ultimately show ?thesis using sample_wrap by blast
qed

text \<open>The transfer the CV6xx protocol carries is the transfer of the V500 protocol: on every
  transport, payload, address and stage the two implementations compute the same.\<close>

lemma cv6xx_send_data_is_v500:
  "cv6xx_send_data_to_bootrom T fuel d addr stage = v500_send_data_to_bootrom T fuel d addr stage"
  by (rule cv6xx_send_data_eq)

end
