(* ===== verification/Session.thy ===== *)
theory Session
  imports HisiStandard HisiCV6xx
begin

text \<open>
  \<open>src/defib/protocol/registry.py\<close>, \<open>protocol/base.py\<close>, \<open>power/base.py\<close> and \<open>recovery/session.py\<close>: the choice
  of the boot protocol, the interface of the protocols, and the session that power-cycles the device, runs the
  handshake, sends the firmware and stops U-Boot. Log callbacks are left out.
\<close>

section \<open>The registry\<close>

datatype protocol_class = Standard | V500 | CV6xx

definition class_matches :: "string list \<Rightarrow> protocol_class \<Rightarrow> string \<Rightarrow> bool" where
  "class_matches chips cls chip_name = (case cls of
     Standard \<Rightarrow> HiSiliconStandard_matches chips chip_name
   | V500 \<Rightarrow> HiSiliconV500_matches chip_name
   | CV6xx \<Rightarrow> HiSiliconCV6xx_matches chip_name)"

definition register :: "'c \<Rightarrow> 'c list \<Rightarrow> 'c list" where
  "register cls registry = (if cls \<in> set registry then registry else registry @ [cls])"

definition find_protocol :: "string list \<Rightarrow> protocol_class list \<Rightarrow> string \<Rightarrow> exn + protocol_class" where
  "find_protocol chips registry chip_name =
     (let chip_lower = takeWhile (\<lambda>c. c \<noteq> CHR '':'') (lower chip_name) in
      case List.find (\<lambda>cls. class_matches chips cls chip_lower) registry of
        Some cls \<Rightarrow> Inr cls
      | None \<Rightarrow> Inl ValueError)"

section \<open>Protocols and power\<close>

record 's boot_protocol =
  bp_frame_blast :: bool
  bp_handshake :: "('s, HandshakeResult) io"
  bp_send_firmware :: "bytes \<Rightarrow> ('s, RecoveryResult) io"

text \<open>The protocol object of a session; only the standard protocol loads a profile.\<close>

definition standard_protocol :: "HiSiliconStandard \<Rightarrow> bool \<Rightarrow> 's transport \<Rightarrow> nat \<Rightarrow> 's boot_protocol" where
  "standard_protocol st blast T fuel =
     \<lparr>bp_frame_blast = blast, bp_handshake = handshake st T fuel,
      bp_send_firmware = (\<lambda>fw. send_firmware st T fuel fw None)\<rparr>"

definition v500_protocol :: "'s transport \<Rightarrow> nat \<Rightarrow> 's boot_protocol" where
  "v500_protocol T fuel =
     \<lparr>bp_frame_blast = False, bp_handshake = v500_handshake T fuel, bp_send_firmware = v500_send_firmware T fuel\<rparr>"

definition cv6xx_protocol :: "int \<Rightarrow> 's transport \<Rightarrow> nat \<Rightarrow> 's boot_protocol" where
  "cv6xx_protocol unix_time T fuel =
     \<lparr>bp_frame_blast = False, bp_handshake = cv6xx_handshake T fuel,
      bp_send_firmware = (\<lambda>fw. cv6xx_send_firmware T fuel DDR_TRAINING_WAIT unix_time fw None)\<rparr>"

definition session_protocol ::
  "'j json_reader \<Rightarrow> profile_dir \<Rightarrow> protocol_class \<Rightarrow> string \<Rightarrow> bool \<Rightarrow> int \<Rightarrow> 's transport \<Rightarrow> nat \<Rightarrow> exn + 's boot_protocol" where
  "session_protocol J dir cls chip powered unix_time T fuel = (case cls of
     Standard \<Rightarrow>
       sum_bind (load_profile J dir chip) (\<lambda>profile.
         let st = set_profile profile HiSiliconStandard_init;
             st = (if powered then set_continuous_ack True st else st)
         in sum_bind (uses_frame_blast_handshake st) (\<lambda>blast. Inr (standard_protocol st blast T fuel)))
   | V500 \<Rightarrow> Inr (v500_protocol T fuel)
   | CV6xx \<Rightarrow> Inr (cv6xx_protocol unix_time T fuel))"

text \<open>The default power cycle of a controller, from its two switching operations.\<close>

definition power_cycle ::
  "(string \<Rightarrow> ('s, unit) io) \<Rightarrow> (string \<Rightarrow> ('s, unit) io) \<Rightarrow> (usec \<Rightarrow> ('s, unit) io) \<Rightarrow> usec \<Rightarrow> string \<Rightarrow> ('s, unit) io" where
  "power_cycle power_off power_on sleep off_duration port =
     io_then (power_off port) (io_then (sleep off_duration) (power_on port))"

section \<open>The session\<close>

record 's RecoverySession =
  rs_chip :: string
  rs_firmware_data :: "bytes option"
  rs_firmware_path :: "(exn + bytes) option"
  rs_class :: protocol_class
  rs_power :: "(string \<Rightarrow> ('s, unit) io) option"
  rs_poe_port :: "string option"

definition RecoverySession_init ::
  "string list \<Rightarrow> protocol_class list \<Rightarrow> string \<Rightarrow> (exn + bytes) option \<Rightarrow> bytes option
   \<Rightarrow> (string \<Rightarrow> ('s, unit) io) option \<Rightarrow> string option \<Rightarrow> exn + 's RecoverySession" where
  "RecoverySession_init chips registry chip path data pw port =
     sum_bind (find_protocol chips registry (lower chip)) (\<lambda>cls.
       Inr \<lparr>rs_chip = lower chip, rs_firmware_data = data, rs_firmware_path = path, rs_class = cls,
            rs_power = pw, rs_poe_port = port\<rparr>)"

text \<open>The firmware given, or the contents of the file (its reading is a parameter).\<close>

definition load_firmware :: "'s RecoverySession \<Rightarrow> exn + bytes" where
  "load_firmware se = (case rs_firmware_data se of
     Some d \<Rightarrow> Inr d
   | None \<Rightarrow> (case rs_firmware_path se of Some contents \<Rightarrow> contents | None \<Rightarrow> Inl ValueError))"

text \<open>
  A task of the event loop runs beside the code that created it. How the two are interleaved is the
  scheduler's: it runs the foreground to its end, and gives its outcome and what is left of the task.
\<close>

type_synonym 's scheduler =
  "('s, HandshakeResult) io \<Rightarrow> ('s, unit) io \<Rightarrow> ('s, (exn + unit) \<times> ('s, HandshakeResult) io) io"

text \<open>Power cycle and handshake of one attempt; nothing when the power cycle failed.\<close>

definition attempt_handshake ::
  "'s transport \<Rightarrow> 's scheduler \<Rightarrow> 's boot_protocol \<Rightarrow> ((string \<Rightarrow> ('s, unit) io) \<times> string) option
   \<Rightarrow> ('s, HandshakeResult option) io" where
  "attempt_handshake T beside bp pw = (case pw of
     Some (cycle, port) \<Rightarrow>
       io_then (emit T POWER_CYCLE 0 1)
         (if bp_frame_blast bp
          then io_try (cycle port) (\<lambda>_. io_return None)
            (\<lambda>_. io_then (tr_flush_input T) (io_then (emit T POWER_CYCLE 1 1)
              (io_bind (bp_handshake bp) (\<lambda>h. io_return (Some h)))))
          else io_then (tr_flush_input T)
            (io_bind (beside (bp_handshake bp) (io_then (tr_sleep T 50000) (cycle port))) (\<lambda>(cycled, task).
              case cycled of
                Inl _ \<Rightarrow> io_return None
              | Inr _ \<Rightarrow> io_then (emit T POWER_CYCLE 1 1) (io_bind task (\<lambda>h. io_return (Some h))))))
   | None \<Rightarrow>
       if bp_frame_blast bp then io_return (Some (HandshakeResult_ok None None None))
       else io_bind (bp_handshake bp) (\<lambda>h. io_return (Some h)))"

text \<open>How the loop over the attempts ends: with the result of a transfer, on a failed power cycle, by a
  \<open>break\<close> that leaves no result behind, or without having run.\<close>

datatype attempts_end = Finished RecoveryResult | PowerFailed | NoResult | Exhausted

fun run_attempts ::
  "'s transport \<Rightarrow> 's scheduler \<Rightarrow> 's boot_protocol \<Rightarrow> ((string \<Rightarrow> ('s, unit) io) \<times> string) option \<Rightarrow> bytes \<Rightarrow> nat
   \<Rightarrow> ('s, attempts_end) io" where
  "run_attempts T beside bp pw firmware 0 = io_return Exhausted"
| "run_attempts T beside bp pw firmware (Suc n) =
     io_bind (attempt_handshake T beside bp pw) (\<lambda>shaken. case shaken of
       None \<Rightarrow> io_return PowerFailed
     | Some h \<Rightarrow>
         if \<not> hs_success h
         then if 0 < n then run_attempts T beside bp pw firmware n else io_return NoResult
         else io_bind (bp_send_firmware bp firmware) (\<lambda>send_result.
           if rr_success send_result then io_return (Finished send_result)
           else if DDR_INIT \<notin> set (rr_stages_completed send_result) \<and> 0 < n
           then run_attempts T beside bp pw firmware n
           else io_return (Finished send_result)))"

section \<open>Stopping U-Boot\<close>

definition lower_byte :: "byte \<Rightarrow> byte" where
  "lower_byte b = (if 65 \<le> b \<and> b \<le> 90 then b + 32 else b)"

definition autoboot_seen :: "bytes \<Rightarrow> bool" where
  "autoboot_seen buf \<longleftrightarrow> contains_sub (ascii ''autoboot'') (map lower_byte buf)"

definition prompt_seen :: "bytes \<Rightarrow> bool" where
  "prompt_seen buf \<longleftrightarrow>
     (let tail = (if 256 < length buf then drop (length buf - 256) buf else buf) in
      contains_sub (ascii ''OpenIPC #'') tail \<or> contains_sub (ascii ''hisilicon #'') tail
      \<or> contains_sub (10 # ascii ''=> '') tail)"

fun ctrl_c_burst :: "'s transport \<Rightarrow> nat \<Rightarrow> ('s, unit) io" where
  "ctrl_c_burst T 0 = io_return ()"
| "ctrl_c_burst T (Suc n) = io_then (tr_write T [3]) (io_then (tr_sleep T 100000) (ctrl_c_burst T n))"

text \<open>Exceptions of the read or of the burst are dropped; what was read stays in the buffer.\<close>

fun send_break_loop :: "'s transport \<Rightarrow> nat \<Rightarrow> usec \<Rightarrow> bytes \<Rightarrow> ('s, bytes) io" where
  "send_break_loop T 0 start_break buf = io_diverge"
| "send_break_loop T (Suc fuel) start_break buf =
     io_bind (io_get (tr_now T)) (\<lambda>now.
       if now - start_break < 15000000
       then io_then (tr_write T [3])
         (io_try (tr_read T 256 (Some 200000))
           (\<lambda>_. send_break_loop T fuel start_break buf)
           (\<lambda>data. let buf = buf @ data in
             if autoboot_seen buf
             then io_try (ctrl_c_burst T 20) (\<lambda>_. send_break_loop T fuel start_break buf) (\<lambda>_. io_return buf)
             else if prompt_seen buf then io_return buf
             else send_break_loop T fuel start_break buf))
       else io_return buf)"

definition finish_session :: "'s transport \<Rightarrow> nat \<Rightarrow> bool \<Rightarrow> RecoveryResult \<Rightarrow> ('s, RecoveryResult) io" where
  "finish_session T fuel send_break result =
     (if send_break \<and> rr_success result
      then io_bind (io_get (tr_now T)) (\<lambda>start_break.
        io_bind (send_break_loop T fuel start_break []) (\<lambda>buf.
          io_return (result\<lparr>rr_post_burn_buffer := buf\<rparr>)))
      else io_return result)"

definition session_power :: "'s RecoverySession \<Rightarrow> ((string \<Rightarrow> ('s, unit) io) \<times> string) option" where
  "session_power se = (case (rs_power se, rs_poe_port se) of (Some c, Some p) \<Rightarrow> Some (c, p) | _ \<Rightarrow> None)"

definition run_protocol ::
  "'s transport \<Rightarrow> nat \<Rightarrow> 's scheduler \<Rightarrow> 's boot_protocol \<Rightarrow> 's RecoverySession \<Rightarrow> bool \<Rightarrow> nat \<Rightarrow> usec
   \<Rightarrow> ('s, RecoveryResult) io" where
  "run_protocol T fuel beside bp se send_break max_handshake_attempts start_time =
     (let pw = session_power se;
          attempts = (if pw \<noteq> None then max_handshake_attempts else 1);
          timed = (\<lambda>res. io_bind (io_get (tr_now T)) (\<lambda>now. io_return (res\<lparr>rr_elapsed := now - start_time\<rparr>)))
      in io_bind (io_lift (load_firmware se)) (\<lambda>firmware.
         io_bind (run_attempts T beside bp pw firmware attempts) (\<lambda>ended. case ended of
           PowerFailed \<Rightarrow> timed (RecoveryResult_fail [] ''Power cycle failed'')
         | Exhausted \<Rightarrow> timed (RecoveryResult_fail [] ''Handshake failed'')
         | NoResult \<Rightarrow> io_raise UnboundLocalError
         | Finished res \<Rightarrow> io_bind (timed res) (finish_session T fuel send_break))))"

definition session_run ::
  "'j json_reader \<Rightarrow> profile_dir \<Rightarrow> int \<Rightarrow> 's transport \<Rightarrow> nat \<Rightarrow> 's scheduler \<Rightarrow> 's RecoverySession \<Rightarrow> bool \<Rightarrow> nat
   \<Rightarrow> ('s, RecoveryResult) io" where
  "session_run J dir unix_time T fuel beside se send_break max_handshake_attempts =
     io_bind (io_get (tr_now T)) (\<lambda>start_time.
     io_bind (io_lift (session_protocol J dir (rs_class se) (rs_chip se) (rs_power se \<noteq> None) unix_time T fuel)) (\<lambda>bp.
       run_protocol T fuel beside bp se send_break max_handshake_attempts start_time))"


section \<open>What a protocol promises a session\<close>

text \<open>
  A handshake that returns reports success; a transfer that returns either succeeded, and then wrote what the
  protocol prescribes for the firmware, or names an error.
\<close>

locale recovery_protocol = logged_transport T log
  for T :: "'s transport" and log :: "'s \<Rightarrow> (Direction \<times> bytes) list" +
  fixes bp :: "'s boot_protocol" and Sent :: "bytes \<Rightarrow> bytes list \<Rightarrow> bool"
  assumes handshake_reports: "wlp (bp_handshake bp) s (\<lambda>r s'. \<forall>h. r = Inr h \<longrightarrow> hs_success h)"
    and send_reports: "wlp (bp_send_firmware bp fw) s (\<lambda>r s'. case r of
        Inl e \<Rightarrow> True
      | Inr res \<Rightarrow>
          if rr_success res
          then rr_error res = None \<and> (\<exists>ws. tx_of (log s') = tx_of (log s) @ ws \<and> Sent fw ws)
          else rr_error res \<noteq> None)"
begin

text \<open>A result as a session may report it, when the world is \<open>s'\<close>: the writes end in a transfer, followed
  by Ctrl-C only.\<close>

definition reported :: "bytes \<Rightarrow> RecoveryResult \<Rightarrow> 's \<Rightarrow> bool" where
  "reported fw res s' \<longleftrightarrow> (if rr_success res
     then rr_error res = None \<and> (\<exists>pre ws k. tx_of (log s') = pre @ ws @ replicate k [3] \<and> Sent fw ws)
     else rr_error res \<noteq> None)"

lemma reported_sent:
  "rr_success res \<Longrightarrow> rr_error res = None \<Longrightarrow> tx_of (log s') = pre @ ws \<Longrightarrow> Sent fw ws \<Longrightarrow> reported fw res s'"
  unfolding reported_def by (simp, intro exI [of _ pre] exI [of _ ws] conjI exI [of _ "0 :: nat"]) simp_all

lemma reported_failed: "\<not> rr_success res \<Longrightarrow> rr_error res \<noteq> None \<Longrightarrow> reported fw res s'"
  by (simp add: reported_def)

lemma reported_log:
  "reported fw res s1 \<Longrightarrow> tx_of (log s') = tx_of (log s1) @ replicate k [3] \<Longrightarrow> reported fw res s'"
  unfolding reported_def by (auto simp: replicate_add [symmetric]) blast

lemma run_attempts_reports:
  "wlp (run_attempts T beside bp pw fw n) s (\<lambda>r s'. \<forall>res. r = Inr (Finished res) \<longrightarrow> reported fw res s')"
proof (induction n arbitrary: s)
  case (Suc n)
  have sent: "wlp (bp_send_firmware bp fw) s1 (\<lambda>r s'. case r of
        Inl e \<Rightarrow> True
      | Inr res \<Rightarrow> reported fw res s')" for s1
    by (rule wlp_mono [OF send_reports])
       (auto intro: reported_sent reported_failed split: sum.splits if_splits)
  have anything: "wlp (attempt_handshake T beside bp pw) s1 (\<lambda>_ _. True)" for s1
    by (simp add: wlp_def split: option.split)
  show ?case
    by (auto simp: wp intro!: wlp_mono [OF anything] wlp_mono [OF sent] Suc.IH split: sum.split option.split)
qed (simp add: wp)

lemma ctrl_c_burst_log: "wlp (ctrl_c_burst T n) s (\<lambda>r s'. \<exists>k. tx_of (log s') = tx_of (log s) @ replicate k [3])"
proof (induction n arbitrary: s)
  case (Suc n)
  have "wlp (ctrl_c_burst T n) s1 (\<lambda>r s'. \<exists>k. tx_of (log s') = tx_of (log s) @ replicate k [3])"
    if "tx_of (log s1) = tx_of (log s) @ [[3]]" for s1
    using that by (intro wlp_mono [OF Suc.IH]) (force intro: exI [of _ "Suc _"])
  then show ?case
    by (auto simp: wp intro!: wlp_writeI wlp_sleepI split: sum.split)
qed (simp add: wp)

lemma send_break_log:
  "wlp (send_break_loop T fuel start buf) s (\<lambda>r s'. \<exists>k. tx_of (log s') = tx_of (log s) @ replicate k [3])"
proof (induction fuel arbitrary: s buf)
  case (Suc fuel)
  have again: "wlp (send_break_loop T fuel start b) s1 (\<lambda>r s'. \<exists>k. tx_of (log s') = tx_of (log s) @ replicate k [3])"
    if "tx_of (log s1) = tx_of (log s) @ replicate j [3]" for s1 b j
    using that by (intro wlp_mono [OF Suc.IH]) (force simp: replicate_add [symmetric])
  have again': "wlp (send_break_loop T fuel start b) s1 (\<lambda>r s'. \<exists>k. tx_of (log s') = tx_of (log s) @ replicate k [3])"
    if "tx_of (log s1) = tx_of (log s) @ [[3]]" for s1 b
    using again [of s1 1] that by simp
  have burst: "\<exists>k. tx_of (log s') = tx_of (log s) @ replicate k [3]"
    if "tx_of (log s') = tx_of (log s) @ [3] # replicate j [3]" for s' j
    using that by (intro exI [of _ "Suc j"]) simp
  show ?case
    by (auto simp: wp Let_def intro!: wlp_writeI wlp_readI again' again [of _ "Suc _"] burst
        wlp_mono [OF ctrl_c_burst_log] split: sum.split)
qed (simp add: wp)

lemma finish_session_reports:
  "reported fw res s \<Longrightarrow> wlp (finish_session T fuel brk res) s (\<lambda>r s'. \<forall>x. r = Inr x \<longrightarrow> reported fw x s')"
  unfolding finish_session_def
  by (auto simp: wp intro!: wlp_mono [OF send_break_log] split: sum.split)
     (auto simp: reported_def replicate_add [symmetric], blast)

lemma reported_elapsed: "reported fw res s' \<Longrightarrow> reported fw (res\<lparr>rr_elapsed := t\<rparr>) s'"
  by (auto simp: reported_def split: if_splits)

lemma run_protocol_reports:
  "wlp (run_protocol T fuel beside bp se brk n t0) s (\<lambda>r s'. case r of
     Inl e \<Rightarrow> True
   | Inr res \<Rightarrow> \<exists>fw. load_firmware se = Inr fw \<and> reported fw res s')"
proof (cases "load_firmware se")
  case (Inr fw)
  have finish: "wlp (finish_session T fuel brk (res\<lparr>rr_elapsed := t\<rparr>)) s1 (\<lambda>r s'. \<forall>x. r = Inr x \<longrightarrow> reported fw x s')"
    if "reported fw res s1" for res t s1
    by (rule finish_session_reports [OF reported_elapsed [OF that]])
  show ?thesis
    unfolding run_protocol_def Let_def using Inr
    by (auto simp: wp reported_failed simp del: run_attempts.simps intro!: wlp_mono [OF run_attempts_reports] finish
        split: sum.split attempts_end.split)
qed (simp add: run_protocol_def Let_def wp)

text \<open>With a scheduler that does not make up results of the task, an attempt never ends without a result.\<close>

definition fair :: "'s scheduler \<Rightarrow> bool" where
  "fair beside \<longleftrightarrow> (\<forall>task fg Q. (\<forall>s. wlp task s (\<lambda>r _. Q r)) \<longrightarrow>
     (\<forall>s. wlp (beside task fg) s (\<lambda>r _. case r of Inl e \<Rightarrow> True | Inr x \<Rightarrow> \<forall>s'. wlp (snd x) s' (\<lambda>r _. Q r))))"

lemma attempt_handshake_succeeds:
  assumes "fair beside"
  shows "wlp (attempt_handshake T beside bp pw) s (\<lambda>r s'. \<forall>h. r = Inr (Some h) \<longrightarrow> hs_success h)"
proof -
  have task: "wlp (beside (bp_handshake bp) fg) s1 (\<lambda>r _. case r of Inl e \<Rightarrow> True
      | Inr x \<Rightarrow> \<forall>s'. wlp (snd x) s' (\<lambda>r _. \<forall>h. r = Inr h \<longrightarrow> hs_success h))" for fg s1
    using assms handshake_reports
    by (simp add: fair_def)
  have anything: "wlp m s1 (\<lambda>_ _. True)" for m :: "('s, unit) io" and s1
    by (simp add: wlp_def split: option.split)
  show ?thesis
    unfolding attempt_handshake_def
    by (auto simp: wp intro!: wlp_emitI wlp_flush_inputI wlp_mono [OF handshake_reports] wlp_mono [OF task]
        wlp_mono [OF anything] split: option.split sum.split)
qed

lemma run_attempts_result:
  assumes "fair beside"
  shows "wlp (run_attempts T beside bp pw fw n) s (\<lambda>r s'. r \<noteq> Inr NoResult)"
proof (induction n arbitrary: s)
  case (Suc n)
  have anything: "wlp (bp_send_firmware bp fw) s1 (\<lambda>_ _. True)" for s1
    by (simp add: wlp_def split: option.split)
  show ?case
    by (auto simp: wp intro!: wlp_mono [OF attempt_handshake_succeeds [OF assms]] wlp_mono [OF anything] Suc.IH
        split: sum.split option.split)
qed (simp add: wp)

end

section \<open>The three protocols keep the promise\<close>

definition v500_sent :: "bytes \<Rightarrow> bytes list \<Rightarrow> bool" where
  "v500_sent fw ws \<longleftrightarrow> (\<exists>n a b c. unpack_le4 fw 1024 = Inr n \<and> ws = a @ b @ c
     \<and> acked_transfer 0 (take 8192 fw) a \<and> acked_transfer 8192 (take n (drop 8192 fw)) b
     \<and> acked_transfer BOOT_LOAD_ADDR fw c)"

lemma v500_sentI:
  "unpack_le4 fw 1024 = Inr n \<Longrightarrow> acked_transfer 0 (take 8192 fw) a \<Longrightarrow> acked_transfer 8192 (take n (drop 8192 fw)) b
   \<Longrightarrow> acked_transfer BOOT_LOAD_ADDR fw c \<Longrightarrow> v500_sent fw (a @ b @ c)"
  unfolding v500_sent_def by blast

definition composite_sent :: "bytes \<Rightarrow> bytes list \<Rightarrow> bool" where
  "composite_sent fw ws \<longleftrightarrow> (\<exists>parts. parse_cv6xx_boot fw = Inr parts \<and> cv6xx_sent parts (uboot_data parts) ws)"

definition profile_sent :: "HiSiliconStandard \<Rightarrow> bytes \<Rightarrow> bytes list \<Rightarrow> bool" where
  "profile_sent st fw ws \<longleftrightarrow> (\<exists>p. hs_profile st = Some p \<and> firmware_sent p fw None ws)"

context logged_transport
begin

lemma v500_handshake_loop_reports: "wlp (v500_handshake_loop T fuel frame) s (\<lambda>r s'. \<forall>h. r = Inr h \<longrightarrow> hs_success h)"
proof (induction fuel arbitrary: s)
  case (Suc fuel)
  show ?case
    by (auto simp: wp Let_def intro!: wlp_writeI wlp_readI wlp_emitI Suc.IH split: sum.split option.split)
qed (simp add: wp)

end

interpretation standard: recovery_protocol "recording T" rec_log "standard_protocol st blast (recording T) fuel" "profile_sent st"
  for T :: "'s transport" and st blast fuel
proof
  show "wlp (bp_handshake (standard_protocol st blast (recording T) fuel)) s (\<lambda>r s'. \<forall>h. r = Inr h \<longrightarrow> hs_success h)" for s
    unfolding standard_protocol_def handshake_def
    by (auto simp: wp BOOTMODE_COUNT_def intro!: rec.wlp_emitI wlp_mono [OF rec.handshake_loop_markers] split: sum.split)
  show "wlp (bp_send_firmware (standard_protocol st blast (recording T) fuel) fw) s (\<lambda>r s'. case r of
        Inl e \<Rightarrow> True
      | Inr res \<Rightarrow> if rr_success res
          then rr_error res = None \<and> (\<exists>ws. tx_of (rec_log s') = tx_of (rec_log s) @ ws \<and> profile_sent st fw ws)
          else rr_error res \<noteq> None)" for fw s
    unfolding standard_protocol_def
    by (simp, rule wlp_mono [OF rec.send_firmware_sent]) (auto simp: profile_sent_def split: sum.splits if_splits)
qed

interpretation v500: recovery_protocol "recording T" rec_log "v500_protocol (recording T) fuel" v500_sent
  for T :: "'s transport" and fuel
proof
  show "wlp (bp_handshake (v500_protocol (recording T) fuel)) s (\<lambda>r s'. \<forall>h. r = Inr h \<longrightarrow> hs_success h)" for s
    unfolding v500_protocol_def v500_handshake_def
    by (auto simp: wp intro!: rec.wlp_emitI wlp_mono [OF rec.v500_handshake_loop_reports] split: sum.split)
  show "wlp (bp_send_firmware (v500_protocol (recording T) fuel) fw) s (\<lambda>r s'. case r of
        Inl e \<Rightarrow> True
      | Inr res \<Rightarrow> if rr_success res
          then rr_error res = None \<and> (\<exists>ws. tx_of (rec_log s') = tx_of (rec_log s) @ ws \<and> v500_sent fw ws)
          else rr_error res \<noteq> None)" for fw s
    unfolding v500_protocol_def
    by (simp, rule wlp_mono [OF rec.v500_send_firmware_sent]) (auto intro: v500_sentI split: sum.splits if_splits)
qed

interpretation cv6xx: recovery_protocol "recording T" rec_log "cv6xx_protocol t (recording T) fuel" composite_sent
  for T :: "'s transport" and t fuel
proof
  show "wlp (bp_handshake (cv6xx_protocol t (recording T) fuel)) s (\<lambda>r s'. \<forall>h. r = Inr h \<longrightarrow> hs_success h)" for s
    unfolding cv6xx_protocol_def cv6xx_handshake_def
    by (auto simp: wp intro!: rec.wlp_emitI wlp_mono [OF rec.cv6xx_handshake_loop_ready] split: sum.split)
  show "wlp (bp_send_firmware (cv6xx_protocol t (recording T) fuel) fw) s (\<lambda>r s'. case r of
        Inl e \<Rightarrow> True
      | Inr res \<Rightarrow> if rr_success res
          then rr_error res = None \<and> (\<exists>ws. tx_of (rec_log s') = tx_of (rec_log s) @ ws \<and> composite_sent fw ws)
          else rr_error res \<noteq> None)" for fw s
    unfolding cv6xx_protocol_def
    by (simp, rule wlp_mono [OF rec.cv6xx_send_firmware_sent]) (auto simp: composite_sent_def split: sum.splits if_splits)
qed

section \<open>A whole session\<close>

text \<open>What the writes of a successful transfer are, by the protocol of the session.\<close>

definition class_sent :: "'j json_reader \<Rightarrow> profile_dir \<Rightarrow> protocol_class \<Rightarrow> string \<Rightarrow> bytes \<Rightarrow> bytes list \<Rightarrow> bool" where
  "class_sent J dir cls chip fw ws \<longleftrightarrow> (case cls of
     Standard \<Rightarrow> \<exists>p. load_profile J dir chip = Inr p \<and> firmware_sent p fw None ws
   | V500 \<Rightarrow> v500_sent fw ws
   | CV6xx \<Rightarrow> composite_sent fw ws)"

lemma class_sent_simps [simp]:
  "class_sent J dir V500 chip = v500_sent" "class_sent J dir CV6xx chip = composite_sent"
  by (simp_all add: class_sent_def fun_eq_iff)

definition session_reported :: "(bytes \<Rightarrow> bytes list \<Rightarrow> bool) \<Rightarrow> 's RecoverySession \<Rightarrow> bytes list \<Rightarrow> RecoveryResult \<Rightarrow> bool" where
  "session_reported Sent se tx res \<longleftrightarrow> (\<exists>fw. load_firmware se = Inr fw \<and> (if rr_success res
     then rr_error res = None \<and> (\<exists>pre ws k. tx = pre @ ws @ replicate k [3] \<and> Sent fw ws)
     else rr_error res \<noteq> None))"

lemma session_reported_mono:
  "session_reported P se tx res \<Longrightarrow> (\<And>fw ws. P fw ws \<Longrightarrow> Q fw ws) \<Longrightarrow> session_reported Q se tx res"
  unfolding session_reported_def by (metis (no_types, lifting))

context recovery_protocol
begin

lemma run_protocol_session:
  "wlp (run_protocol T fuel beside bp se brk n t0) s (\<lambda>r s'. case r of
     Inl e \<Rightarrow> True
   | Inr res \<Rightarrow> session_reported Sent se (tx_of (log s')) res)"
  by (rule wlp_mono [OF run_protocol_reports]) (auto simp only: session_reported_def reported_def split: sum.splits)

end

lemma standard_session:
  assumes "load_profile J dir chip = Inr p" "hs_profile st = Some p"
  shows "wlp (run_protocol (recording T) fuel beside (standard_protocol st blast (recording T) fuel) se brk n t0) s
    (\<lambda>r s'. \<forall>res. r = Inr res \<longrightarrow> session_reported (class_sent J dir Standard chip) se (tx_of (rec_log s')) res)"
  by (rule wlp_mono [OF standard.run_protocol_session])
     (auto split: sum.splits elim!: session_reported_mono simp: assms class_sent_def profile_sent_def)

lemma hs_profile_session [simp]:
  "hs_profile (set_profile p st) = Some p" "hs_profile (set_continuous_ack b st) = hs_profile st"
  by (simp_all add: set_continuous_ack_def set_profile_def)

text \<open>C6: a recovery session that reports success has sent the firmware it was given. Whatever the chip's protocol,
  the scheduling of the handshake beside the power cycle, the number of attempts and the transport, the writes end in
  one complete transfer of the firmware as that protocol prescribes it, with nothing after it but the Ctrl-C bytes that
  stop U-Boot; the result then carries no error, and a result without success always carries one.\<close>

theorem session_run_transfers:
  "wlp (session_run J dir unix_time (recording T) fuel beside se send_break max_attempts) s (\<lambda>r s'. case r of
     Inl e \<Rightarrow> True
   | Inr res \<Rightarrow> session_reported (class_sent J dir (rs_class se) (rs_chip se)) se (tx_of (rec_log s')) res)"
proof (cases "rs_class se")
  case Standard
  then show ?thesis
    by (auto simp: session_run_def session_protocol_def sum_bind_def Let_def wp intro!: standard_session
        split: sum.splits)
next
  case V500
  then show ?thesis
    by (simp add: session_run_def session_protocol_def wp v500.run_protocol_session cong: sum.case_cong)
next
  case CV6xx
  then show ?thesis
    by (simp add: session_run_def session_protocol_def wp cv6xx.run_protocol_session cong: sum.case_cong)
qed


definition refusing_protocol :: "mock boot_protocol" where
  "refusing_protocol = \<lparr>bp_frame_blast = False, bp_handshake = (\<lambda>s. Some (Inr ((HandshakeResult_ok None None None)\<lparr>hs_success := False\<rparr>), s)),
     bp_send_firmware = (\<lambda>_ s. Some (Inr (RecoveryResult_ok [COMPLETE]), s))\<rparr>"


end
