(* ===== verification/Links.thy ===== *)
theory Links
  imports HisiCV6xx
begin

text \<open>
  The transports over real links: \<open>src/defib/transport/serial.py\<close>, \<open>transport/rfc2217.py\<close>,
  \<open>transport/socket.py\<close> and \<open>transport/rack.py\<close>. The serial port (pyserial), the socket and the HTTP
  request are parameters: records of computations over the world.
\<close>

section \<open>The outside\<close>

text \<open>The clock, the sleeps and the progress callback.\<close>

record 's environment =
  ev_now :: "'s \<Rightarrow> usec"
  ev_sleep :: "usec \<Rightarrow> ('s, unit) io"
  ev_emit :: "ProgressEvent \<Rightarrow> ('s, unit) io"

text \<open>
  A pyserial port. \<open>sp_read_within\<close> is a read run in a worker thread and awaited for at most the given
  time; it raises \<open>TimeoutError\<close> when that time is over.
\<close>

record 's serial_port =
  sp_read :: "nat \<Rightarrow> ('s, bytes) io"
  sp_read_within :: "nat \<Rightarrow> usec option \<Rightarrow> ('s, bytes) io"
  sp_write :: "bytes \<Rightarrow> ('s, unit) io"
  sp_in_waiting :: "('s, nat) io"
  sp_timeout :: "'s \<Rightarrow> usec option"
  sp_set_timeout :: "usec option \<Rightarrow> ('s, unit) io"
  sp_write_timeout :: "'s \<Rightarrow> usec option"
  sp_set_write_timeout :: "usec option \<Rightarrow> ('s, unit) io"
  sp_reset_input_buffer :: "('s, unit) io"
  sp_reset_output_buffer :: "('s, unit) io"
  sp_set_baudrate :: "int \<Rightarrow> ('s, unit) io"
  sp_set_dtr :: "bool \<Rightarrow> ('s, unit) io"
  sp_set_rts :: "bool \<Rightarrow> ('s, unit) io"
  sp_is_open :: "'s \<Rightarrow> bool"
  sp_close :: "('s, unit) io"

text \<open>A non-blocking stream socket; \<open>sk_recv_wait\<close> is the awaited receive of the event loop.\<close>

record 's socket =
  sk_recv_wait :: "nat \<Rightarrow> usec option \<Rightarrow> ('s, bytes) io"
  sk_recv :: "nat \<Rightarrow> ('s, bytes) io"
  sk_sendall :: "bytes \<Rightarrow> ('s, unit) io"
  sk_close :: "('s, unit) io"

definition is_os_error :: "exn \<Rightarrow> bool" where
  "is_os_error e \<longleftrightarrow> e \<in> {OSError, BlockingIOError, TimeoutError, SerialTimeoutException, ConnectionError, FileNotFoundError}"

section \<open>Serial ports\<close>

definition serial_read :: "'s serial_port \<Rightarrow> nat \<Rightarrow> usec option \<Rightarrow> ('s, bytes) io" where
  "serial_read P sz timeout =
     io_bind (io_get (sp_timeout P)) (\<lambda>old_timeout.
       io_finally
         (io_try
           (io_then (sp_set_timeout P timeout)
             (io_bind (sp_read_within P sz (map_option (\<lambda>t. t * 2 + 1000000) timeout)) (\<lambda>data.
               if data = [] \<and> timeout \<noteq> None then io_raise TransportTimeout else io_return data)))
           (\<lambda>e. if e = TimeoutError then io_raise TransportTimeout else io_raise e)
           io_return)
         (sp_set_timeout P old_timeout))"

definition serial_write :: "'s serial_port \<Rightarrow> bytes \<Rightarrow> ('s, unit) io" where
  "serial_write P data =
     io_bind (io_get (sp_write_timeout P)) (\<lambda>old_wt.
       io_then (sp_set_write_timeout P (Some 5000000))
         (io_finally
           (io_try (sp_write P data)
             (\<lambda>e. if e = SerialTimeoutException then io_raise TransportTimeout else io_raise e)
             io_return)
           (sp_set_write_timeout P old_wt)))"

definition serial_close :: "'s serial_port \<Rightarrow> ('s, unit) io" where
  "serial_close P = io_bind (io_get (sp_is_open P)) (\<lambda>opened. if opened then sp_close P else io_return ())"

definition SerialTransport :: "'s environment \<Rightarrow> 's serial_port \<Rightarrow> 's transport" where
  "SerialTransport E P =
     \<lparr>tr_read = serial_read P,
      tr_write = serial_write P,
      tr_flush_input = sp_reset_input_buffer P,
      tr_flush_output = sp_reset_output_buffer P,
      tr_bytes_waiting = sp_in_waiting P,
      tr_unread = default_unread,
      tr_set_baudrate = sp_set_baudrate P,
      tr_close = serial_close P,
      tr_now = ev_now E,
      tr_sleep = ev_sleep E,
      tr_emit = ev_emit E\<rparr>"

section \<open>RFC 2217\<close>

record 's rfc2217 =
  rf_world :: 's
  rf_buf :: bytes

definition on_port :: "('s, 'a) io \<Rightarrow> ('s rfc2217, 'a) io" where
  "on_port = io_on rf_world (\<lambda>w st. st\<lparr>rf_world := w\<rparr>)"

fun rfc2217_read_loop ::
  "'s environment \<Rightarrow> 's serial_port \<Rightarrow> nat \<Rightarrow> nat \<Rightarrow> usec option \<Rightarrow> bytes \<Rightarrow> ('s rfc2217, bytes) io" where
  "rfc2217_read_loop E P 0 sz deadline buf = io_diverge"
| "rfc2217_read_loop E P (Suc fuel) sz deadline buf =
     (let remaining = sz - length buf in
      if remaining = 0 then io_return buf
      else io_bind (on_port (sp_read P remaining)) (\<lambda>chunk.
        let buf' = buf @ take remaining chunk in
        io_then (io_modify (\<lambda>st. st\<lparr>rf_buf := rf_buf st @ drop remaining chunk\<rparr>))
          (if chunk \<noteq> [] \<and> length buf' \<ge> sz then io_return buf'
           else case deadline of
             None \<Rightarrow> rfc2217_read_loop E P fuel sz deadline buf'
           | Some d \<Rightarrow> io_bind (io_get (\<lambda>st. ev_now E (rf_world st))) (\<lambda>now.
               if now \<ge> d
               then if buf' \<noteq> [] then io_return buf' else io_raise TransportTimeout
               else rfc2217_read_loop E P fuel sz deadline buf'))))"

definition rfc2217_read ::
  "'s environment \<Rightarrow> 's serial_port \<Rightarrow> nat \<Rightarrow> nat \<Rightarrow> usec option \<Rightarrow> ('s rfc2217, bytes) io" where
  "rfc2217_read E P fuel sz timeout =
     io_bind (io_get (\<lambda>st. map_option (\<lambda>t. ev_now E (rf_world st) + t) timeout)) (\<lambda>deadline.
     io_bind (io_get rf_buf) (\<lambda>stash.
       if stash = [] then rfc2217_read_loop E P fuel sz deadline []
       else let k = min sz (length stash); buf = take k stash in
         io_then (io_modify (\<lambda>st. st\<lparr>rf_buf := drop k stash\<rparr>))
           (if length buf \<ge> sz then io_return buf else rfc2217_read_loop E P fuel sz deadline buf)))"

definition rfc2217_unread :: "bytes \<Rightarrow> ('s rfc2217, unit) io" where
  "rfc2217_unread data = io_modify (\<lambda>st. st\<lparr>rf_buf := data @ rf_buf st\<rparr>)"

definition rfc2217_bytes_waiting :: "'s serial_port \<Rightarrow> ('s rfc2217, nat) io" where
  "rfc2217_bytes_waiting P =
     io_bind (io_get rf_buf) (\<lambda>stash. io_bind (on_port (sp_in_waiting P)) (\<lambda>w. io_return (length stash + w)))"

definition rfc2217_flush_input :: "'s serial_port \<Rightarrow> ('s rfc2217, unit) io" where
  "rfc2217_flush_input P =
     io_then (io_modify (\<lambda>st. st\<lparr>rf_buf := []\<rparr>)) (on_port (sp_reset_input_buffer P))"

definition rfc2217_set_dtr :: "'s serial_port \<Rightarrow> bool \<Rightarrow> ('s rfc2217, unit) io" where
  "rfc2217_set_dtr P active = on_port (sp_set_dtr P active)"

definition rfc2217_set_rts :: "'s serial_port \<Rightarrow> bool \<Rightarrow> ('s rfc2217, unit) io" where
  "rfc2217_set_rts P active = on_port (sp_set_rts P active)"

definition Rfc2217Transport :: "'s environment \<Rightarrow> 's serial_port \<Rightarrow> nat \<Rightarrow> 's rfc2217 transport" where
  "Rfc2217Transport E P fuel =
     \<lparr>tr_read = rfc2217_read E P fuel,
      tr_write = (\<lambda>data. on_port (sp_write P data)),
      tr_flush_input = rfc2217_flush_input P,
      tr_flush_output = on_port (sp_reset_output_buffer P),
      tr_bytes_waiting = rfc2217_bytes_waiting P,
      tr_unread = rfc2217_unread,
      tr_set_baudrate = (\<lambda>b. on_port (sp_set_baudrate P b)),
      tr_close = on_port (serial_close P),
      tr_now = (\<lambda>st. ev_now E (rf_world st)),
      tr_sleep = (\<lambda>t. on_port (ev_sleep E t)),
      tr_emit = (\<lambda>e. on_port (ev_emit E e))\<rparr>"

section \<open>Sockets\<close>

record 's sock_state =
  so_world :: 's
  so_buf :: bytes

definition SocketTransport_init :: "'s \<Rightarrow> 's sock_state" where
  "SocketTransport_init w = \<lparr>so_world = w, so_buf = []\<rparr>"

definition on_sock :: "('s, 'a) io \<Rightarrow> ('s sock_state, 'a) io" where
  "on_sock = io_on so_world (\<lambda>w st. st\<lparr>so_world := w\<rparr>)"

definition socket_read :: "'s socket \<Rightarrow> nat \<Rightarrow> usec option \<Rightarrow> ('s sock_state, bytes) io" where
  "socket_read K sz timeout =
     io_bind (io_get so_buf) (\<lambda>stash.
       if stash \<noteq> []
       then io_then (io_modify (\<lambda>st. st\<lparr>so_buf := drop sz stash\<rparr>)) (io_return (take sz stash))
       else io_try (on_sock (sk_recv_wait K sz timeout))
         (\<lambda>e. if e = TimeoutError then io_raise TransportTimeout
              else if is_os_error e then io_raise TransportError else io_raise e)
         (\<lambda>data. if data = [] then io_raise TransportError else io_return data))"

definition socket_write :: "'s socket \<Rightarrow> bytes \<Rightarrow> ('s sock_state, unit) io" where
  "socket_write K data =
     io_try (on_sock (sk_sendall K data))
       (\<lambda>e. if is_os_error e then io_raise TransportError else io_raise e) io_return"

fun socket_drain :: "'s socket \<Rightarrow> nat \<Rightarrow> ('s sock_state, unit) io" where
  "socket_drain K 0 = io_diverge"
| "socket_drain K (Suc fuel) =
     io_try (on_sock (sk_recv K 4096))
       (\<lambda>e. if is_os_error e then io_return () else io_raise e)
       (\<lambda>data. if data = [] then io_return () else socket_drain K fuel)"

definition socket_flush_input :: "'s socket \<Rightarrow> nat \<Rightarrow> ('s sock_state, unit) io" where
  "socket_flush_input K fuel = io_then (io_modify (\<lambda>st. st\<lparr>so_buf := []\<rparr>)) (socket_drain K fuel)"

definition socket_close :: "'s socket \<Rightarrow> ('s sock_state, unit) io" where
  "socket_close K =
     io_try (on_sock (sk_close K)) (\<lambda>e. if is_os_error e then io_return () else io_raise e) io_return"

definition SocketTransport :: "'s environment \<Rightarrow> 's socket \<Rightarrow> nat \<Rightarrow> 's sock_state transport" where
  "SocketTransport E K fuel =
     \<lparr>tr_read = socket_read K,
      tr_write = socket_write K,
      tr_flush_input = socket_flush_input K fuel,
      tr_flush_output = io_return (),
      tr_bytes_waiting = io_get (\<lambda>st. length (so_buf st)),
      tr_unread = default_unread,
      tr_set_baudrate = default_set_baudrate,
      tr_close = socket_close K,
      tr_now = (\<lambda>st. ev_now E (so_world st)),
      tr_sleep = (\<lambda>t. on_sock (ev_sleep E t)),
      tr_emit = (\<lambda>e. on_sock (ev_emit E e))\<rparr>"

text \<open>Decimal digits, as Python prints a non-negative integer.\<close>

fun dec_digits :: "nat \<Rightarrow> string" where
  "dec_digits n = (if n < 10 then [char_of (48 + n)] else dec_digits (n div 10) @ [char_of (48 + n mod 10)])"

declare dec_digits.simps [simp del]

definition rstrip_slash :: "string \<Rightarrow> string" where
  "rstrip_slash s = rev (dropWhile (\<lambda>c. c = CHR ''/'') (rev s))"

definition rack_set_baudrate ::
  "(string \<Rightarrow> bytes \<Rightarrow> ('s, unit) io) \<Rightarrow> string \<Rightarrow> int \<Rightarrow> ('s sock_state, unit) io" where
  "rack_set_baudrate post http_base baud =
     io_try
       (on_sock (post (rstrip_slash http_base @ ''/uart/baud'')
         (ascii ([CHR ''{'', CHR 0x22] @ ''rate'' @ [CHR 0x22] @ '': ''
            @ (if baud < 0 then ''-'' else []) @ dec_digits (nat \<bar>baud\<bar>) @ ''}''))))
       (\<lambda>e. if is_os_error e then io_raise TransportError else io_raise e) io_return"

definition RackTransport ::
  "'s environment \<Rightarrow> 's socket \<Rightarrow> (string \<Rightarrow> bytes \<Rightarrow> ('s, unit) io) \<Rightarrow> string \<Rightarrow> nat \<Rightarrow> 's sock_state transport" where
  "RackTransport E K post http_base fuel =
     (SocketTransport E K fuel)\<lparr>tr_set_baudrate := rack_set_baudrate post http_base\<rparr>"


section \<open>The serial transport keeps the transport contract\<close>

text \<open>What pyserial promises: reads awaited for a bounded time end, take time and are no longer than
  asked for; the other calls end and do not move the clock back.\<close>

definition ends :: "('s \<Rightarrow> usec) \<Rightarrow> ('s, 'a) io \<Rightarrow> bool" where
  "ends now m \<longleftrightarrow> (\<forall>s. \<exists>r s'. m s = Some (r, s') \<and> now s \<le> now s')"

definition timed_port :: "'s environment \<Rightarrow> 's serial_port \<Rightarrow> bool" where
  "timed_port E P \<longleftrightarrow>
     (\<forall>n t s. \<exists>r s'. sp_read_within P n (Some t) s = Some (r, s'))
   \<and> (\<forall>n t s r s'. sp_read_within P n t s = Some (r, s') \<longrightarrow> ev_now E s < ev_now E s')
   \<and> (\<forall>n t s d s'. sp_read_within P n t s = Some (Inr d, s') \<longrightarrow> length d \<le> n)
   \<and> (\<forall>t s. \<exists>s'. sp_set_timeout P t s = Some (Inr (), s') \<and> ev_now E s \<le> ev_now E s')
   \<and> (\<forall>t. ends (ev_now E) (sp_set_write_timeout P t)) \<and> (\<forall>d. ends (ev_now E) (sp_write P d))
   \<and> ends (ev_now E) (sp_reset_input_buffer P) \<and> ends (ev_now E) (sp_reset_output_buffer P)
   \<and> ends (ev_now E) (sp_in_waiting P) \<and> (\<forall>ev. ends (ev_now E) (ev_emit E ev))
   \<and> (\<forall>t. ends (ev_now E) (ev_sleep E t))
   \<and> (\<forall>t s r s'. ev_sleep E t s = Some (r, s') \<longrightarrow> 0 < t \<longrightarrow> ev_now E s < ev_now E s')"

lemma SerialTransport_sel [simp]:
  "tr_read (SerialTransport E P) = serial_read P" "tr_write (SerialTransport E P) = serial_write P"
  "tr_flush_input (SerialTransport E P) = sp_reset_input_buffer P"
  "tr_flush_output (SerialTransport E P) = sp_reset_output_buffer P"
  "tr_bytes_waiting (SerialTransport E P) = sp_in_waiting P"
  "tr_unread (SerialTransport E P) = default_unread" "tr_now (SerialTransport E P) = ev_now E"
  "tr_sleep (SerialTransport E P) = ev_sleep E" "tr_emit (SerialTransport E P) = ev_emit E"
  by (simp_all add: SerialTransport_def)

lemma ends_twp: "ends now m \<Longrightarrow> (\<And>r s'. now s \<le> now s' \<Longrightarrow> Q r s') \<Longrightarrow> twp m s Q"
  unfolding ends_def twp_def by (metis (mono_tags, lifting) case_prod_conv option.simps(5))

lemma timed_portD:
  assumes "timed_port E P"
  shows "\<exists>r s'. sp_read_within P n (Some u) s = Some (r, s')"
    and "sp_read_within P n t s = Some (r, s') \<Longrightarrow> ev_now E s < ev_now E s'"
    and "sp_read_within P n t s = Some (Inr d, s') \<Longrightarrow> length d \<le> n"
    and "\<exists>s'. sp_set_timeout P t s = Some (Inr (), s') \<and> ev_now E s \<le> ev_now E s'"
    and "ends (ev_now E) (sp_set_write_timeout P t)" "ends (ev_now E) (sp_write P d)"
  using assms by (auto simp: timed_port_def) blast

lemma serial_read_twp:
  assumes "timed_port E P" "\<And>r s'. ev_now E s < ev_now E s' \<Longrightarrow> (\<forall>d. r = Inr d \<longrightarrow> length d \<le> n) \<Longrightarrow> Q r s'"
  shows "twp (serial_read P n (Some t)) s Q"
proof -
  note port = timed_portD [OF assms(1)]
  have set_timeout: "twp (sp_set_timeout P t') s1 R"
    if "\<And>s2. ev_now E s1 \<le> ev_now E s2 \<Longrightarrow> R (Inr ()) s2" for t' s1 R
    using port(4) [of t' s1] that by (auto simp: twp_def)
  have read: "twp (sp_read_within P n (Some g)) s1 R"
    if "\<And>r s2. ev_now E s1 < ev_now E s2 \<Longrightarrow> (\<forall>d. r = Inr d \<longrightarrow> length d \<le> n) \<Longrightarrow> R r s2" for g s1 R
  proof -
    obtain r s2 where r: "sp_read_within P n (Some g) s1 = Some (r, s2)" using port(1) by blast
    moreover have "R r s2" using r by (intro that) (auto intro: port(2,3))
    ultimately show ?thesis by (simp add: twp_def)
  qed
  show ?thesis
    unfolding serial_read_def
    by (auto simp: wp intro!: set_timeout read assms(2) split: sum.split)
qed

lemma serial_read_shape:
  assumes "timed_port E P" "serial_read P n t s = Some (r, s')"
  shows "ev_now E s < ev_now E s' \<and> (\<forall>d. r = Inr d \<longrightarrow> length d \<le> n)"
proof -
  note port = timed_portD [OF assms(1)]
  have set_timeout: "wlp (sp_set_timeout P t') s1 R"
    if "\<And>s2. ev_now E s1 \<le> ev_now E s2 \<Longrightarrow> R (Inr ()) s2" for t' s1 R
    using port(4) [of t' s1] that by (auto simp: wlp_def)
  have read: "wlp (sp_read_within P n g) s1 R"
    if "\<And>r s2. ev_now E s1 < ev_now E s2 \<Longrightarrow> (\<forall>d. r = Inr d \<longrightarrow> length d \<le> n) \<Longrightarrow> R r s2" for g s1 R
    unfolding wlp_def by (auto intro!: that dest: port(2,3) split: option.split)
  have "wlp (serial_read P n t) s (\<lambda>r s'. ev_now E s < ev_now E s' \<and> (\<forall>d. r = Inr d \<longrightarrow> length d \<le> n))"
    unfolding serial_read_def
    by (auto simp: wp intro!: set_timeout read split: sum.split)
  then show ?thesis using assms(2) by (rule wlp_Some)
qed

text \<open>Over a serial port that keeps its documented contract (reads awaited for a bounded time end,
  take time and are no longer than asked), the serial transport keeps the contract the protocols rely
  on, so every statement above about firmware transfers holds over it.\<close>

lemma SerialTransport_timed:
  assumes "timed_port E P"
  shows "timed_transport (SerialTransport E P)"
proof
  show "\<exists>r s'. tr_read (SerialTransport E P) n (Some t) s = Some (r, s')" for n t s
    using serial_read_twp [OF assms, of s n "\<lambda>_ _. True" t] by (auto simp: twp_def split: option.splits)
  show "tr_now (SerialTransport E P) s < tr_now (SerialTransport E P) s'"
    if "tr_read (SerialTransport E P) n t s = Some (r, s')" for n t s r s'
    using serial_read_shape [OF assms] that by simp
  show "length d \<le> n" if "tr_read (SerialTransport E P) n t s = Some (Inr d, s')" for n t s d s'
    using serial_read_shape [OF assms, of n t s "Inr d" s'] that by simp
  have "twp (serial_write P d) s (\<lambda>r s'. ev_now E s \<le> ev_now E s')" for d s
    unfolding serial_write_def
    by (auto simp: wp intro!: ends_twp [OF timed_portD(5) [OF assms]] ends_twp [OF timed_portD(6) [OF assms]] split: sum.split)
  then show "\<exists>r s'. tr_write (SerialTransport E P) d s = Some (r, s')
      \<and> tr_now (SerialTransport E P) s \<le> tr_now (SerialTransport E P) s'" for d s
    using twp_Some by fastforce
qed (use assms in \<open>auto simp: timed_port_def ends_def default_unread_def io_defs\<close>)

definition mock_port :: "mock serial_port" where
  "mock_port =
     \<lparr>sp_read = (\<lambda>n. mock_read n (Some 10000)), sp_read_within = mock_read, sp_write = mock_write,
      sp_in_waiting = io_get (\<lambda>m. length (mk_rx_buffer m)),
      sp_timeout = (\<lambda>_. None), sp_set_timeout = (\<lambda>_. io_return ()),
      sp_write_timeout = (\<lambda>_. None), sp_set_write_timeout = (\<lambda>_. io_return ()),
      sp_reset_input_buffer = mock_flush_input, sp_reset_output_buffer = io_return (),
      sp_set_baudrate = (\<lambda>_. io_return ()), sp_set_dtr = (\<lambda>_. io_return ()), sp_set_rts = (\<lambda>_. io_return ()),
      sp_is_open = (\<lambda>_. True), sp_close = mock_close\<rparr>"

definition mock_environment :: "mock environment" where
  "mock_environment = \<lparr>ev_now = tr_now mock_transport, ev_sleep = tr_sleep mock_transport, ev_emit = tr_emit mock_transport\<rparr>"

lemma mock_port_timed: "timed_port mock_environment mock_port"
  unfolding timed_port_def ends_def mock_port_def mock_environment_def
  using mock.read_ends mock.read_advances mock.read_size mock.write_ends mock.flush_input_ends
    mock.sleep_ends mock.sleep_advances mock.emit_ends mock.bytes_waiting_ends
  by (simp add: io_defs)

lemma SerialTransport_timed_witness: "timed_transport (SerialTransport mock_environment mock_port)"
  using SerialTransport_timed [OF mock_port_timed] .


section \<open>RFC 2217 neither loses nor repeats bytes\<close>

text \<open>The port with a record of every byte its reads delivered.\<close>

definition traced_read :: "('s, bytes) io \<Rightarrow> ('s \<times> bytes, bytes) io" where
  "traced_read m = (\<lambda>(s, l). map_option (\<lambda>(r, s'). (r, s', l @ (case r of Inr d \<Rightarrow> d | Inl _ \<Rightarrow> []))) (m s))"

definition traced_port :: "'s serial_port \<Rightarrow> ('s \<times> bytes) serial_port" where
  "traced_port P =
     (let lift = (\<lambda>m. io_on fst (\<lambda>w st. (w, snd st)) m) in
     \<lparr>sp_read = (\<lambda>n. traced_read (sp_read P n)),
      sp_read_within = (\<lambda>n t. traced_read (sp_read_within P n t)),
      sp_write = (\<lambda>d. lift (sp_write P d)), sp_in_waiting = io_on fst (\<lambda>w st. (w, snd st)) (sp_in_waiting P),
      sp_timeout = (\<lambda>st. sp_timeout P (fst st)), sp_set_timeout = (\<lambda>t. lift (sp_set_timeout P t)),
      sp_write_timeout = (\<lambda>st. sp_write_timeout P (fst st)),
      sp_set_write_timeout = (\<lambda>t. lift (sp_set_write_timeout P t)),
      sp_reset_input_buffer = lift (sp_reset_input_buffer P),
      sp_reset_output_buffer = lift (sp_reset_output_buffer P),
      sp_set_baudrate = (\<lambda>b. lift (sp_set_baudrate P b)), sp_set_dtr = (\<lambda>b. lift (sp_set_dtr P b)),
      sp_set_rts = (\<lambda>b. lift (sp_set_rts P b)), sp_is_open = (\<lambda>st. sp_is_open P (fst st)),
      sp_close = lift (sp_close P)\<rparr>)"

definition traced_environment :: "'s environment \<Rightarrow> ('s \<times> bytes) environment" where
  "traced_environment E =
     \<lparr>ev_now = (\<lambda>st. ev_now E (fst st)), ev_sleep = (\<lambda>t. io_on fst (\<lambda>w st. (w, snd st)) (ev_sleep E t)),
      ev_emit = (\<lambda>e. io_on fst (\<lambda>w st. (w, snd st)) (ev_emit E e))\<rparr>"

definition port_bytes :: "('s \<times> bytes) rfc2217 \<Rightarrow> bytes" where
  "port_bytes st = snd (rf_world st)"

text \<open>How a read that asks for \<open>n\<close> bytes ends, from the stash \<open>b\<close> and after the port delivered \<open>new\<close>.\<close>

definition read_outcome ::
  "'s serial_port \<Rightarrow> nat \<Rightarrow> bytes \<Rightarrow> bytes \<Rightarrow> exn + bytes \<Rightarrow> bytes \<Rightarrow> bool" where
  "read_outcome P n b new r b' = (case r of
     Inr d \<Rightarrow> length d \<le> n \<and> b @ new = d @ b'
   | Inl e \<Rightarrow> (e = TransportTimeout \<and> b @ new = [] \<and> b' = []) \<or> (\<exists>k s s'. sp_read P k s = Some (Inl e, s')))"

lemma wlp_traced_read:
  assumes "\<And>r st'. port_bytes st' = port_bytes st @ (case r of Inr d \<Rightarrow> d | Inl _ \<Rightarrow> []) \<Longrightarrow> rf_buf st' = rf_buf st
     \<Longrightarrow> (\<forall>e. r = Inl e \<longrightarrow> (\<exists>k s s'. sp_read P k s = Some (Inl e, s'))) \<Longrightarrow> Q r st'"
  shows "wlp (on_port (sp_read (traced_port P) n)) st Q"
proof -
  obtain w l where w: "rf_world st = (w, l)" by (cases "rf_world st")
  show ?thesis
    unfolding on_port_def wlp_on traced_port_def Let_def
    by (auto simp: wlp_def traced_read_def w split: option.split
        intro!: assms [simplified port_bytes_def w] simp: port_bytes_def)
qed

definition conserves ::
  "'s serial_port \<Rightarrow> nat \<Rightarrow> bytes \<Rightarrow> ('s \<times> bytes) rfc2217 \<Rightarrow> exn + bytes \<Rightarrow> ('s \<times> bytes) rfc2217 \<Rightarrow> bool" where
  "conserves P n b st r st' \<longleftrightarrow>
     (\<exists>new. port_bytes st' = port_bytes st @ new \<and> read_outcome P n b new r (rf_buf st'))"

lemma conserves_raised: "sp_read P k s = Some (Inl e, s') \<Longrightarrow> port_bytes st' = port_bytes st \<Longrightarrow> conserves P n b st (Inl e) st'"
  by (auto simp: conserves_def read_outcome_def)

lemma conserves_timeout:
  "port_bytes st' = port_bytes st \<Longrightarrow> rf_buf st' = [] \<Longrightarrow> conserves P n [] st (Inl TransportTimeout) st'"
  by (auto simp: conserves_def read_outcome_def)

lemma conserves_data:
  "port_bytes st' = port_bytes st @ c \<Longrightarrow> b @ c = d @ rf_buf st' \<Longrightarrow> length d \<le> n \<Longrightarrow> conserves P n b st (Inr d) st'"
  by (auto simp: conserves_def read_outcome_def)

lemma conserves_trans:
  assumes "conserves P n (b @ c) st1 r st'" "port_bytes st1 = port_bytes st @ c"
  shows "conserves P n b st r st'"
  using assms by (auto simp: conserves_def read_outcome_def split: sum.splits intro!: exI [of _ "c @ _"])

lemma port_bytes_buf [simp]: "port_bytes (st\<lparr>rf_buf := b\<rparr>) = port_bytes st"
  by (simp add: port_bytes_def)

lemma rfc2217_read_loop_conserves:
  "rf_buf st = [] \<Longrightarrow> length buf \<le> n \<Longrightarrow>
   wlp (rfc2217_read_loop E (traced_port P) fuel n deadline buf) st (conserves P n buf st)"
proof (induction fuel arbitrary: buf st deadline)
  case (Suc fuel)
  have again: "wlp (rfc2217_read_loop E (traced_port P) fuel n dl (buf @ c)) st1 (conserves P n buf st)"
    if "port_bytes st1 = port_bytes st @ c" "rf_buf st1 = []" "length buf + length c \<le> n" for st1 c dl
    using that by (intro wlp_mono [OF Suc.IH]) (auto intro: conserves_trans)
  show ?case
    using Suc.prems again [of _ "[]"]
    by (auto simp: wp Let_def intro!: wlp_traced_read again conserves_timeout
        intro: conserves_raised conserves_data split: sum.split option.split)
qed (simp add: wp)


text \<open>C19: reading over RFC 2217 keeps the byte stream. Whatever chunks the port delivers, oversized
  ones included, a read returns at most as many bytes as asked for, and the stash before it with
  the bytes delivered meanwhile is exactly what it returns followed by the stash after it; it reports
  a timeout only when there was nothing to return, and passes on only what the port raises.\<close>

theorem rfc2217_read_conserves:
  "wlp (rfc2217_read (traced_environment E) (traced_port P) fuel n timeout) st (\<lambda>r st'.
     \<exists>new. port_bytes st' = port_bytes st @ new \<and> (case r of
       Inr d \<Rightarrow> length d \<le> n \<and> rf_buf st @ new = d @ rf_buf st'
     | Inl e \<Rightarrow> (e = TransportTimeout \<and> rf_buf st @ new = [] \<and> rf_buf st' = [])
         \<or> (\<exists>k s s'. sp_read P k s = Some (Inl e, s'))))"
proof -
  have loop: "wlp (rfc2217_read_loop (traced_environment E) (traced_port P) fuel k dl b) st1 (conserves P k b st)"
    if "rf_buf st1 = []" "length b \<le> k" "port_bytes st1 = port_bytes st" for dl b st1 k
    using that by (intro wlp_mono [OF rfc2217_read_loop_conserves]) (auto simp: conserves_def)
  have "wlp (rfc2217_read (traced_environment E) (traced_port P) fuel n timeout) st (conserves P n (rf_buf st) st)"
    unfolding rfc2217_read_def
    by (auto simp: wp Let_def min_def intro!: loop conserves_data [of _ _ "[]"])
  then show ?thesis
    by (rule wlp_mono) (auto simp: conserves_def read_outcome_def)
qed

section \<open>The CV6xx protocol over sockets\<close>

lemma on_sock_buf: "wlp (on_sock m) st (\<lambda>r st'. so_buf st' = so_buf st)"
  by (simp add: on_sock_def wlp_on) (simp add: wlp_def split: option.split)

lemma socket_write_buf: "wlp (socket_write K d) st (\<lambda>r st'. so_buf st' = so_buf st)"
  unfolding socket_write_def by (auto simp: wp intro!: wlp_mono [OF on_sock_buf] split: sum.split)

lemma socket_drain_buf: "wlp (socket_drain K fuel) st (\<lambda>r st'. so_buf st' = so_buf st)"
proof (induction fuel arbitrary: st)
  case (Suc fuel)
  show ?case by (auto simp: wp intro!: wlp_mono [OF on_sock_buf] wlp_mono [OF Suc.IH] split: sum.split)
qed (simp add: wp)

lemma socket_no_poll:
  "so_buf st = [] \<Longrightarrow> wlp (poll_chunk (SocketTransport E K fuel) limit t) st (\<lambda>r st'. r = Inr None \<and> st' = st)"
  by (simp add: poll_chunk_def SocketTransport_def wp)

lemma cv6xx_handshake_loop_socket:
  "so_buf st = [] \<Longrightarrow> wlp (cv6xx_handshake_loop (SocketTransport E K f) fuel b) st (\<lambda>r st'. \<forall>h. r \<noteq> Inr h)"
proof (induction fuel arbitrary: st)
  case (Suc fuel)
  have "wlp (tr_write (SocketTransport E K f) d) st (\<lambda>r st'. so_buf st' = [])"
    "wlp (tr_sleep (SocketTransport E K f) u) s1 (\<lambda>r st'. so_buf st' = so_buf s1)" for d u s1
    using Suc.prems socket_write_buf [of K d st] on_sock_buf by (simp_all add: SocketTransport_def)
  then show ?case
    using Suc.IH
    by (auto simp: wp intro!: wlp_mono [OF \<open>wlp (tr_write _ _) _ _\<close>] wlp_mono [OF \<open>\<And>u s1. wlp (tr_sleep _ u) s1 _\<close>]
        wlp_mono [OF socket_no_poll] split: sum.split option.split)
qed (simp add: wp)


lemma get_board_id_loop_socket:
  "so_buf st = [] \<Longrightarrow> wlp (get_board_id_loop (SocketTransport E K f) fuel start b c) st
     (\<lambda>r st'. \<forall>x. r = Inr x \<longrightarrow> x = (0, c))"
proof (induction fuel arbitrary: st)
  case (Suc fuel)
  have "wlp (tr_sleep (SocketTransport E K f) u) s1 (\<lambda>r st'. so_buf st' = so_buf s1)" for u s1
    using on_sock_buf by (simp add: SocketTransport_def)
  then show ?case
    using Suc
    by (auto simp: wp intro!: wlp_mono [OF \<open>\<And>u s1. wlp (tr_sleep _ u) s1 _\<close>]
        wlp_mono [OF socket_no_poll] split: sum.split option.split)
qed (simp add: wp)

text \<open>C20: over a socket the CV6xx protocol never gets an answer. The buffer that \<open>bytes_waiting\<close> measures
  is never filled, so from a fresh connection the handshake never reports success, however long it
  runs and whatever the device sends, and the board query always reports board 0.\<close>

theorem cv6xx_deaf_on_sockets:
  "wlp (cv6xx_handshake (SocketTransport E K f) fuel) (SocketTransport_init w) (\<lambda>r st'. \<forall>h. r \<noteq> Inr h)
   \<and> wlp (get_board_id (SocketTransport E K f) fuel t) (SocketTransport_init w)
       (\<lambda>r st'. case r of Inl e \<Rightarrow> True | Inr x \<Rightarrow> x = (0, None))"
proof
  have emit: "wlp (emit (SocketTransport E K f) x a b) st (\<lambda>r st'. so_buf st' = so_buf st)" for x a b st
    unfolding emit_def using on_sock_buf by (simp add: SocketTransport_def)
  show "wlp (cv6xx_handshake (SocketTransport E K f) fuel) (SocketTransport_init w) (\<lambda>r st'. \<forall>h. r \<noteq> Inr h)"
    unfolding cv6xx_handshake_def
    by (auto simp: wp SocketTransport_init_def intro!: wlp_mono [OF emit] cv6xx_handshake_loop_socket split: sum.split)
  have flush: "wlp (tr_flush_input (SocketTransport E K f)) st (\<lambda>r st'. so_buf st' = [])" for st
    by (auto simp: wp SocketTransport_def socket_flush_input_def intro!: wlp_mono [OF socket_drain_buf])
  have wr: "wlp (tr_write (SocketTransport E K f) d) st (\<lambda>r st'. so_buf st' = so_buf st)" for d st
    using socket_write_buf by (simp add: SocketTransport_def)
  show "wlp (get_board_id (SocketTransport E K f) fuel t) (SocketTransport_init w)
       (\<lambda>r st'. case r of Inl e \<Rightarrow> True | Inr x \<Rightarrow> x = (0, None))"
    unfolding get_board_id_def
    by (auto simp: wp intro!: wlp_mono [OF flush] wlp_mono [OF wr] wlp_mono [OF get_board_id_loop_socket] split: sum.split)
qed

end
