(* ===== verification/Cobs.thy ===== *)
theory Cobs
  imports Prelude
begin

text \<open>
  \<open>src/defib/agent/cobs.py\<close>: the byte stuffing of the flash agent's link. The encoder is the
  source's loop over an output buffer with a placeholder that is patched later; the decoder is
  the source's index loop. A block-structured reading of both carries the proofs.
\<close>

section \<open>The code\<close>

record cobs_state =
  cobs_output :: bytes
  cobs_code_idx :: nat
  cobs_code :: nat

definition cobs_close :: "cobs_state \<Rightarrow> cobs_state" where
  "cobs_close st =
     (let out = (cobs_output st)[cobs_code_idx st := of_nat (cobs_code st)]
      in \<lparr>cobs_output = out @ [0], cobs_code_idx = length out, cobs_code = 1\<rparr>)"

definition cobs_push :: "byte \<Rightarrow> cobs_state \<Rightarrow> cobs_state" where
  "cobs_push b st =
     (if b = 0 then cobs_close st
      else let st = st\<lparr>cobs_output := cobs_output st @ [b], cobs_code := cobs_code st + 1\<rparr>
           in if cobs_code st = 0xFF then cobs_close st else st)"

definition cobs_encode :: "bytes \<Rightarrow> bytes" where
  "cobs_encode data =
     (let st = fold cobs_push data \<lparr>cobs_output = [0], cobs_code_idx = 0, cobs_code = 1\<rparr>
      in (cobs_output st)[cobs_code_idx st := of_nat (cobs_code st)])"

text \<open>The inner loop of the decoder: copy \<open>n\<close> bytes from index \<open>idx\<close> on.\<close>

fun cobs_copy :: "bytes \<Rightarrow> nat \<Rightarrow> nat \<Rightarrow> bytes \<Rightarrow> exn + nat \<times> bytes" where
  "cobs_copy data 0 idx out = Inr (idx, out)"
| "cobs_copy data (Suc n) idx out =
     (if length data \<le> idx then Inl ValueError
      else cobs_copy data n (idx + 1) (out @ [data ! idx]))"

lemma cobs_copy_eq:
  "cobs_copy data n idx out =
     (if n = 0 \<or> idx + n \<le> length data then Inr (idx + n, out @ take n (drop idx data))
      else Inl ValueError)"
proof (induction n arbitrary: idx out)
  case (Suc n)
  then show ?case
    by (auto simp: Cons_nth_drop_Suc [symmetric] take_Suc_conv_app_nth)
qed simp

function cobs_decode_loop :: "bytes \<Rightarrow> nat \<Rightarrow> bytes \<Rightarrow> exn + bytes" where
  "cobs_decode_loop data idx out =
     (if idx < length data then
        (let code = unat (data ! idx) in
         if code = 0 then Inl ValueError
         else (case cobs_copy data (code - 1) (idx + 1) out of
                 Inl e \<Rightarrow> Inl e
               | Inr (idx', out') \<Rightarrow>
                   cobs_decode_loop data idx'
                     (if code < 0xFF \<and> idx' < length data then out' @ [0] else out')))
      else Inr out)"
  by pat_completeness auto
termination
  by (relation "measure (\<lambda>(data, idx, out). length data - idx)")
     (auto simp: cobs_copy_eq split: if_splits)

declare cobs_decode_loop.simps [simp del]

definition cobs_decode :: "bytes \<Rightarrow> exn + bytes" where
  "cobs_decode data = cobs_decode_loop data 0 []"

section \<open>Blocks\<close>

text \<open>
  The encoding of \<open>data\<close> when the block \<open>cur\<close> is open: what the encoder will have written from
  the placeholder of that block on.
\<close>

fun cobs_blocks :: "bytes \<Rightarrow> bytes \<Rightarrow> bytes" where
  "cobs_blocks cur [] = of_nat (length cur + 1) # cur"
| "cobs_blocks cur (b # bs) =
     (if b = 0 then of_nat (length cur + 1) # cur @ cobs_blocks [] bs
      else if length cur = 253 then 0xFF # cur @ [b] @ cobs_blocks [] bs
      else cobs_blocks (cur @ [b]) bs)"

definition cobs_abs :: "bytes \<Rightarrow> bytes \<Rightarrow> cobs_state" where
  "cobs_abs written cur =
     \<lparr>cobs_output = written @ 0 # cur, cobs_code_idx = length written, cobs_code = length cur + 1\<rparr>"

lemma cobs_push_abs:
  "cobs_push b (cobs_abs written cur) =
     (if b = 0 then cobs_abs (written @ of_nat (length cur + 1) # cur) []
      else if length cur = 253 then cobs_abs (written @ 0xFF # cur @ [b]) []
      else cobs_abs written (cur @ [b]))"
  by (simp add: cobs_push_def cobs_close_def cobs_abs_def Let_def list_update_append)

lemma cobs_fold_blocks:
  "(let st = fold cobs_push data (cobs_abs written cur)
    in (cobs_output st)[cobs_code_idx st := of_nat (cobs_code st)]) = written @ cobs_blocks cur data"
proof (induction data arbitrary: written cur)
  case Nil
  then show ?case by (simp add: cobs_abs_def list_update_append)
next
  case (Cons b bs)
  then show ?case by (simp add: cobs_push_abs)
qed

lemma cobs_encode_blocks: "cobs_encode data = cobs_blocks [] data"
  using cobs_fold_blocks [of data "[]" "[]"] by (simp add: cobs_encode_def cobs_abs_def)

text \<open>Decoding of the bytes that are left.\<close>

function cobs_unblock :: "bytes \<Rightarrow> exn + bytes" where
  "cobs_unblock [] = Inr []"
| "cobs_unblock (c # r) =
     (let n = unat c - 1; r' = drop n r in
      if c = 0 \<or> length r < n then Inl ValueError
      else map_sum id (\<lambda>out. take n r @ (if c \<noteq> 0xFF \<and> r' \<noteq> [] then [0] else []) @ out) (cobs_unblock r'))"
  by pat_completeness auto
termination by (relation "measure length") auto

lemma unat_lt_256: "unat (b :: byte) < 256"
  using unsigned_less [of b] by simp

lemma unat_eq_0_byte: "unat (b :: byte) = 0 \<longleftrightarrow> b = 0"
  by (simp add: unat_eq_zero)

lemma unat_lt_255: "unat (b :: byte) < 0xFF \<longleftrightarrow> b \<noteq> 0xFF"
proof -
  have "unat b = 0xFF \<longleftrightarrow> b = 0xFF"
    using word_unat_eq_iff [of b "0xFF"] by simp
  then show ?thesis using unat_lt_256 [of b] by auto
qed

lemma cobs_decode_unblock:
  "cobs_decode_loop data idx out = map_sum id ((@) out) (cobs_unblock (drop idx data))"
proof (induction "length data - idx" arbitrary: idx out rule: less_induct)
  case less
  show ?case
  proof (cases "idx < length data")
    case False
    then show ?thesis by (simp add: cobs_decode_loop.simps)
  next
    case True
    define c r n where "c = data ! idx" and "r = drop (Suc idx) data" and "n = unat c - Suc 0"
    have split: "drop idx data = c # r"
      using True by (simp add: c_def r_def Cons_nth_drop_Suc)
    have len: "length r = length data - Suc idx" by (simp add: r_def)
    have step: "cobs_decode_loop data idx out =
        (if c = 0 then Inl ValueError
         else case cobs_copy data n (Suc idx) out of
             Inl e \<Rightarrow> Inl e
           | Inr (idx', out') \<Rightarrow> cobs_decode_loop data idx'
               (if c \<noteq> 0xFF \<and> idx' < length data then out' @ [0] else out'))"
      using True by (subst cobs_decode_loop.simps)
        (simp add: c_def n_def Let_def unat_lt_255 unat_eq_0_byte split: sum.split)
    show ?thesis
    proof (cases "c = 0 \<or> length r < n")
      case bad: True
      then have "cobs_decode_loop data idx out = Inl ValueError"
        using len True by (auto simp: step cobs_copy_eq)
      with bad show ?thesis by (auto simp: split n_def)
    next
      case good: False
      then have copy: "cobs_copy data n (Suc idx) out = Inr (Suc (idx + n), out @ take n r)"
        using len True by (auto simp: cobs_copy_eq r_def)
      have rest: "drop (Suc (idx + n)) data = drop n r" "Suc (idx + n) < length data \<longleftrightarrow> drop n r \<noteq> []"
        using len by (auto simp: r_def add.commute)
      define z where "z = (if c \<noteq> 0xFF \<and> drop n r \<noteq> [] then [0 :: byte] else [])"
      have "cobs_decode_loop data idx out = cobs_decode_loop data (Suc (idx + n)) (out @ take n r @ z)"
        using good rest(2) by (simp add: step copy z_def)
      also have "\<dots> = map_sum id ((@) (out @ take n r @ z)) (cobs_unblock (drop n r))"
        using less [of "Suc (idx + n)" "out @ take n r @ z"] True by (simp only: rest(1))
      also have "\<dots> = map_sum id ((@) out) (cobs_unblock (c # r))"
        using good by (cases "cobs_unblock (drop n r)") (auto simp: n_def z_def)
      finally show ?thesis by (simp only: split)
    qed
  qed
qed

lemma cobs_blocks_not_Nil [simp]: "cobs_blocks cur data \<noteq> []"
  by (induction cur data rule: cobs_blocks.induct) auto

lemma unat_of_nat_byte: "n < 256 \<Longrightarrow> unat (of_nat n :: byte) = n"
  by (simp add: unat_of_nat)

lemma cobs_unblock_block:
  assumes "length cur < 254"
  shows "cobs_unblock (of_nat (length cur + 1) # cur @ r) =
           map_sum id (\<lambda>out. cur @ (if r \<noteq> [] then [0] else []) @ out) (cobs_unblock r)"
proof -
  have u: "unat (of_nat (length cur + 1) :: byte) = length cur + 1"
    using assms by (intro unat_of_nat_byte) simp
  then have "(of_nat (length cur + 1) :: byte) \<noteq> 0" "(of_nat (length cur + 1) :: byte) \<noteq> 0xFF"
    using assms unat_eq_0_byte [of "of_nat (length cur + 1)"] unat_lt_255 [of "of_nat (length cur + 1)"]
    by simp_all
  then show ?thesis by (simp only: cobs_unblock.simps u Let_def) simp
qed

lemma cobs_unblock_blocks:
  "length cur < 254 \<Longrightarrow> cobs_unblock (cobs_blocks cur data) = Inr (cur @ data)"
proof (induction cur data rule: cobs_blocks.induct)
  case (1 cur)
  then show ?case using cobs_unblock_block [of cur "[]"] by simp
next
  case (2 cur b bs)
  then show ?case using cobs_unblock_block [of cur "cobs_blocks [] bs"] by simp
qed

lemma cobs_blocks_nonzero:
  "length cur < 254 \<Longrightarrow> 0 \<notin> set cur \<Longrightarrow> 0 \<notin> set (cobs_blocks cur data)"
proof (induction cur data rule: cobs_blocks.induct)
  case (1 cur)
  then show ?case using unat_of_nat_byte [of "length cur + 1"] unat_eq_0_byte [of "of_nat (length cur + 1)"] by auto
next
  case (2 cur b bs)
  then show ?case using unat_of_nat_byte [of "length cur + 1"] unat_eq_0_byte [of "of_nat (length cur + 1)"] by auto
qed

lemma cobs_blocks_length:
  "length cur < 254 \<Longrightarrow>
   length (cobs_blocks cur data) \<le> length cur + length data + 1 + (length cur + length data) div 254"
proof (induction cur data rule: cobs_blocks.induct)
  case (1 cur)
  then show ?case by simp
next
  case (2 cur b bs)
  consider "b = 0" | "b \<noteq> 0" "length cur = 253" | "b \<noteq> 0" "length cur \<noteq> 253" by blast
  then show ?case
  proof cases
    case 1
    have "length bs div 254 \<le> (length cur + length (b # bs)) div 254" by (rule div_le_mono) simp
    with 2 1 show ?thesis by simp
  next
    case 2
    then have "(length cur + length (b # bs)) div 254 = length bs div 254 + 1" by simp
    with "2.IH" 2 show ?thesis by simp
  next
    case 3
    with 2 show ?thesis by simp
  qed
qed

lemma cobs_blocks_length_ge: "length cur + length data + 1 \<le> length (cobs_blocks cur data)"
  by (induction cur data rule: cobs_blocks.induct) auto

lemma cobs_blocks_full:
  "data \<noteq> [] \<Longrightarrow> 0 \<notin> set data \<Longrightarrow> length cur + length data = 254 \<Longrightarrow>
   cobs_blocks cur data = 0xFF # cur @ data @ [1]"
proof (induction cur data rule: cobs_blocks.induct)
  case (2 cur b bs)
  then show ?case by (cases "bs = []") auto
qed simp

section \<open>Properties\<close>

lemma cobs_decode_encode: "cobs_decode (cobs_encode data) = Inr data"
  using cobs_decode_unblock [of _ 0 "[]"] cobs_unblock_blocks [of "[]" data]
  by (simp add: cobs_decode_def cobs_encode_blocks)

lemma cobs_encode_nonzero: "0 \<notin> set (cobs_encode data)"
  using cobs_blocks_nonzero [of "[]" data] by (simp add: cobs_encode_blocks)

lemma cobs_encode_length: "length (cobs_encode data) \<le> length data + 1 + length data div 254"
  using cobs_blocks_length [of "[]" data] by (simp add: cobs_encode_blocks)

lemma cobs_encode_not_Nil [simp]: "cobs_encode data \<noteq> []"
  by (simp add: cobs_encode_blocks)

lemma map_sum_InlD: "map_sum id g x = Inl e \<Longrightarrow> x = Inl e"
  by (cases x) auto

lemma cobs_unblock_error: "cobs_unblock data = Inl e \<Longrightarrow> e = ValueError"
  by (induction data rule: cobs_unblock.induct) (auto split: if_splits simp: Let_def dest!: map_sum_InlD)

lemma cobs_decode_error: "cobs_decode data = Inl e \<Longrightarrow> e = ValueError"
  using cobs_decode_unblock [of data 0 "[]"] cobs_unblock_error [of data]
  by (cases "cobs_unblock data") (simp_all add: cobs_decode_def)

text \<open>C29: stuffing round-trips, and the stuffed bytes contain no zero, so the frame delimiter can only be a
  delimiter. The overhead of stuffing \<open>n\<close> bytes is at least one byte and at most \<open>n div 254 + 1\<close> bytes, and 254
  non-zero bytes need two: one more than the \<open>ceil(n/254)\<close> of the module documentation.\<close>

theorem cobs_roundtrip:
  "cobs_decode (cobs_encode data) = Inr data \<and> 0 \<notin> set (cobs_encode data)
   \<and> length data + 1 \<le> length (cobs_encode data)
   \<and> length (cobs_encode data) \<le> length data + 1 + length data div 254
   \<and> length (cobs_encode (replicate 254 1)) = 256"
  using cobs_blocks_length_ge [of "[]" data] cobs_blocks_length [of "[]" data]
    cobs_blocks_full [of "replicate 254 1" "[]"] cobs_decode_encode [of data] cobs_encode_nonzero [of data]
  by (simp add: cobs_encode_blocks)

end
