(* ===== verification/AgentProtocol.thy ===== *)
theory AgentProtocol
  imports Links Cobs
begin

text \<open>
  \<open>src/defib/agent/protocol.py\<close>: the packets the host exchanges with the flash agent. Packets are
  stuffed and checksummed, and are cut out of a byte stream that arrives in arbitrary pieces; bytes
  behind a packet are kept for the next call in one buffer per port and one per transport.
\<close>

unbundle bit_operations_syntax

section \<open>Packets\<close>

definition CMD_INFO :: byte where "CMD_INFO = 0x01"
definition CMD_READ :: byte where "CMD_READ = 0x02"
definition CMD_WRITE :: byte where "CMD_WRITE = 0x03"
definition CMD_ERASE :: byte where "CMD_ERASE = 0x04"
definition CMD_CRC32 :: byte where "CMD_CRC32 = 0x05"
definition CMD_REBOOT :: byte where "CMD_REBOOT = 0x06"
definition CMD_SELFUPDATE :: byte where "CMD_SELFUPDATE = 0x07"
definition CMD_SET_BAUD :: byte where "CMD_SET_BAUD = 0x08"
definition CMD_SCAN :: byte where "CMD_SCAN = 0x09"
definition CMD_FLASH_STREAM :: byte where "CMD_FLASH_STREAM = 0x0B"
definition CMD_MARK_BAD :: byte where "CMD_MARK_BAD = 0x0C"
definition CMD_MEMBW :: byte where "CMD_MEMBW = 0x0D"

definition RSP_INFO :: byte where "RSP_INFO = 0x81"
definition RSP_DATA :: byte where "RSP_DATA = 0x82"
definition RSP_ACK :: byte where "RSP_ACK = 0x83"
definition RSP_CRC32 :: byte where "RSP_CRC32 = 0x84"
definition RSP_READY :: byte where "RSP_READY = 0x85"
definition RSP_SCAN :: byte where "RSP_SCAN = 0x86"
definition RSP_MEMBW :: byte where "RSP_MEMBW = 0x87"

definition ACK_OK :: byte where "ACK_OK = 0x00"
definition MAX_PACKET_SIZE :: nat where "MAX_PACKET_SIZE = 1100"

lemmas rsp_defs = RSP_INFO_def RSP_DATA_def RSP_ACK_def RSP_CRC32_def RSP_READY_def RSP_SCAN_def RSP_MEMBW_def

lemma rsp_distinct [simp]:
  "RSP_READY \<noteq> RSP_DATA" "RSP_DATA \<noteq> RSP_READY" "RSP_READY \<noteq> RSP_ACK" "RSP_ACK \<noteq> RSP_READY"
  "RSP_DATA \<noteq> RSP_ACK" "RSP_ACK \<noteq> RSP_DATA"
  by (simp_all add: rsp_defs)

type_synonym packet = "byte \<times> bytes"

text \<open>\<open>zlib.crc32\<close>: the reflected CRC-32 of IEEE 802.3.\<close>

definition crc32_bit :: "32 word \<Rightarrow> 32 word" where
  "crc32_bit c = (if c AND 1 = 0 then drop_bit 1 c else drop_bit 1 c XOR 0xEDB88320)"

definition crc32_byte :: "byte \<Rightarrow> 32 word \<Rightarrow> 32 word" where
  "crc32_byte b c = (crc32_bit ^^ 8) (c XOR ucast b)"

definition crc32 :: "bytes \<Rightarrow> int" where
  "crc32 data = uint (NOT (fold crc32_byte data (NOT 0)))"

definition build_packet :: "byte \<Rightarrow> bytes \<Rightarrow> bytes" where
  "build_packet cmd data =
     (let raw = cmd # data in cobs_encode (raw @ le_bytes 4 (crc32 raw)) @ [0])"

definition parse_packet :: "bytes \<Rightarrow> exn + packet" where
  "parse_packet raw =
     sum_bind (cobs_decode raw) (\<lambda>decoded.
       if length decoded < 5 then Inl ValueError
       else let payload = take (length decoded - 4) decoded;
                expected_crc = le_val (drop (length decoded - 4) decoded)
            in if crc32 payload \<noteq> expected_crc then Inl ValueError
               else Inr (hd payload, tl payload))"

text \<open>
  Walking the bytes of one chunk: the packet found if any, the frame collected so far, and the bytes
  behind the delimiter. A frame that does not parse is dropped, and so is one that grows too long.
\<close>

fun consume :: "bytes \<Rightarrow> bytes \<Rightarrow> packet option \<times> bytes \<times> bytes" where
  "consume frame [] = (None, frame, [])"
| "consume frame (b # data) =
     (if b = 0 then
        if frame \<noteq> [] then
          (case parse_packet frame of
             Inr p \<Rightarrow> (Some p, frame, data)
           | Inl _ \<Rightarrow> consume [] data)
        else consume frame data
      else let frame = frame @ [b] in
        if MAX_PACKET_SIZE < length frame then consume [] data else consume frame data)"

section \<open>Sending and receiving\<close>

text \<open>A transport with the serial port behind it, when it has one.\<close>

record 's link =
  lk_transport :: "'s transport"
  lk_port :: "'s serial_port option"

record 's agent =
  ag_world :: 's
  ag_leftover :: bytes
  ag_portbuf :: bytes

definition on_agent :: "('s, 'a) io \<Rightarrow> (('s, 'z) agent_scheme, 'a) io" where
  "on_agent = io_on ag_world (\<lambda>w st. st\<lparr>ag_world := w\<rparr>)"

definition ag_now :: "'s link \<Rightarrow> ('s, 'z) agent_scheme \<Rightarrow> usec" where
  "ag_now L st = tr_now (lk_transport L) (ag_world st)"

definition send_packet :: "'s link \<Rightarrow> byte \<Rightarrow> bytes \<Rightarrow> (('s, 'z) agent_scheme, unit) io" where
  "send_packet L cmd data =
     (let packet = build_packet cmd data in
      case lk_port L of
        Some port \<Rightarrow> on_agent (sp_write port packet)
      | None \<Rightarrow> on_agent (tr_write (lk_transport L) packet))"

definition next_chunk_sync :: "'s serial_port \<Rightarrow> (('s, 'z) agent_scheme, bytes) io" where
  "next_chunk_sync port =
     io_bind (io_get ag_portbuf) (\<lambda>portbuf.
       if portbuf \<noteq> [] then io_then (io_modify (\<lambda>st. st\<lparr>ag_portbuf := []\<rparr>)) (io_return portbuf)
       else io_bind (on_agent (sp_in_waiting port)) (\<lambda>waiting.
         on_agent (sp_read port (if 0 < waiting then waiting else 1))))"

fun recv_sync_loop ::
  "'s link \<Rightarrow> 's serial_port \<Rightarrow> nat \<Rightarrow> usec \<Rightarrow> bytes \<Rightarrow> (('s, 'z) agent_scheme, packet) io" where
  "recv_sync_loop L port 0 deadline frame = io_diverge"
| "recv_sync_loop L port (Suc fuel) deadline frame =
     io_bind (io_get (ag_now L)) (\<lambda>now.
       if now < deadline
       then io_bind (next_chunk_sync port) (\<lambda>data.
         case consume frame data of
           (Some p, _, rest) \<Rightarrow>
             io_then (io_modify (\<lambda>st. st\<lparr>ag_portbuf := ag_portbuf st @ rest\<rparr>)) (io_return p)
         | (None, frame', _) \<Rightarrow> recv_sync_loop L port fuel deadline frame')
       else io_raise TransportTimeout)"

definition recv_packet_sync :: "'s link \<Rightarrow> 's serial_port \<Rightarrow> nat \<Rightarrow> usec \<Rightarrow> (('s, 'z) agent_scheme, packet) io" where
  "recv_packet_sync L port fuel timeout =
     io_bind (io_get (ag_now L)) (\<lambda>now. recv_sync_loop L port fuel (now + timeout) [])"

definition stash_leftover :: "bytes \<Rightarrow> (('s, 'z) agent_scheme, unit) io" where
  "stash_leftover rest = io_modify (\<lambda>st. st\<lparr>ag_leftover := rest @ ag_leftover st\<rparr>)"

fun recv_async_loop :: "'s link \<Rightarrow> nat \<Rightarrow> usec \<Rightarrow> bytes \<Rightarrow> (('s, 'z) agent_scheme, packet) io" where
  "recv_async_loop L 0 deadline frame = io_diverge"
| "recv_async_loop L (Suc fuel) deadline frame =
     io_bind (io_get (ag_now L)) (\<lambda>now.
       if now < deadline
       then io_try (on_agent (tr_read (lk_transport L) 256 (Some (min (deadline - now) 1000000))))
         (\<lambda>e. if e = TransportTimeout then recv_async_loop L fuel deadline frame else io_raise e)
         (\<lambda>data. case consume frame data of
            (Some p, _, rest) \<Rightarrow> io_then (stash_leftover rest) (io_return p)
          | (None, frame', _) \<Rightarrow> recv_async_loop L fuel deadline frame')
       else io_raise TransportTimeout)"

definition recv_packet :: "'s link \<Rightarrow> nat \<Rightarrow> usec \<Rightarrow> (('s, 'z) agent_scheme, packet) io" where
  "recv_packet L fuel timeout =
     (case lk_port L of
        Some port \<Rightarrow> recv_packet_sync L port fuel timeout
      | None \<Rightarrow>
          io_bind (io_get (ag_now L)) (\<lambda>now.
          io_bind (io_get ag_leftover) (\<lambda>chunk.
          io_then (io_modify (\<lambda>st. st\<lparr>ag_leftover := []\<rparr>))
            (case consume [] chunk of
               (Some p, _, rest) \<Rightarrow> io_then (stash_leftover rest) (io_return p)
             | (None, frame, _) \<Rightarrow> recv_async_loop L fuel (now + timeout) frame))))"

fun recv_response_loop :: "'s link \<Rightarrow> nat \<Rightarrow> nat \<Rightarrow> usec \<Rightarrow> usec \<Rightarrow> (('s, 'z) agent_scheme, packet) io" where
  "recv_response_loop L rx_fuel 0 timeout deadline = io_diverge"
| "recv_response_loop L rx_fuel (Suc fuel) timeout deadline =
     io_bind (io_get (ag_now L)) (\<lambda>now.
       if now < deadline
       then io_bind (recv_packet L rx_fuel (deadline - now)) (\<lambda>(cmd, data).
         if cmd \<noteq> RSP_READY then io_return (cmd, data)
         else io_bind (io_get (ag_now L)) (\<lambda>now'.
           recv_response_loop L rx_fuel fuel timeout (now' + timeout)))
       else io_raise TransportTimeout)"

definition recv_response :: "'s link \<Rightarrow> nat \<Rightarrow> usec \<Rightarrow> (('s, 'z) agent_scheme, packet) io" where
  "recv_response L fuel timeout =
     io_bind (io_get (ag_now L)) (\<lambda>now. recv_response_loop L fuel fuel timeout (now + timeout))"

text \<open>One round of waiting for the agent, as the body of the \<open>try\<close>: it may find READY, in which case
  the input that is waiting is read and dropped, whatever happens to that read.\<close>

definition ready_round :: "'s link \<Rightarrow> nat \<Rightarrow> usec \<Rightarrow> (('s, 'z) agent_scheme, bool) io" where
  "ready_round L fuel remaining =
     io_bind (recv_packet L fuel remaining) (\<lambda>(cmd, data).
       if cmd = RSP_READY
       then io_then (on_agent (tr_sleep (lk_transport L) 100000))
         (io_try
           (io_bind (on_agent (tr_bytes_waiting (lk_transport L))) (\<lambda>w.
             if 0 < w then io_then (on_agent (tr_read (lk_transport L) w (Some 100000))) (io_return ())
             else io_return ()))
           (\<lambda>e. io_return True) (\<lambda>_. io_return True))
       else io_return False)"

fun wait_for_ready_loop :: "'s link \<Rightarrow> nat \<Rightarrow> nat \<Rightarrow> usec \<Rightarrow> (('s, 'z) agent_scheme, bool) io" where
  "wait_for_ready_loop L rx_fuel 0 deadline = io_diverge"
| "wait_for_ready_loop L rx_fuel (Suc fuel) deadline =
     io_bind (io_get (ag_now L)) (\<lambda>now.
       if now < deadline
       then io_try (ready_round L rx_fuel (deadline - now))
         (\<lambda>e. if e = TransportTimeout \<or> e = ValueError then wait_for_ready_loop L rx_fuel fuel deadline else io_raise e)
         (\<lambda>ready. if ready then io_return True else wait_for_ready_loop L rx_fuel fuel deadline)
       else io_return False)"

definition wait_for_ready :: "'s link \<Rightarrow> nat \<Rightarrow> usec \<Rightarrow> (('s, 'z) agent_scheme, bool) io" where
  "wait_for_ready L fuel timeout =
     io_bind (io_get (ag_now L)) (\<lambda>now. wait_for_ready_loop L fuel fuel (now + timeout))"

section \<open>Cutting packets out of a stream\<close>

definition first_packet :: "bytes \<Rightarrow> (packet \<times> bytes) option" where
  "first_packet stream = (case consume [] stream of (Some p, _, rest) \<Rightarrow> Some (p, rest) | (None, _, _) \<Rightarrow> None)"

lemma consume_append:
  "consume frame (xs @ ys) = (case consume frame xs of
     (Some p, frame', rest) \<Rightarrow> (Some p, frame', rest @ ys)
   | (None, frame', _) \<Rightarrow> consume frame' ys)"
  by (induction frame xs rule: consume.induct) (auto simp: Let_def split: sum.split)

lemma consume_nonzero:
  "0 \<notin> set xs \<Longrightarrow> length frame + length xs \<le> MAX_PACKET_SIZE \<Longrightarrow> consume frame xs = (None, frame @ xs, [])"
  by (induction xs arbitrary: frame) auto

lemma parse_packet_error: "parse_packet raw = Inl e \<Longrightarrow> e = ValueError"
  by (auto simp: parse_packet_def sum_bind_def Let_def dest: cobs_decode_error split: sum.splits if_splits)

lemma crc32_bounds: "0 \<le> crc32 d \<and> crc32 d < 256 ^ 4"
  using uint_lt2p [of "NOT (fold crc32_byte d (NOT 0))"] by (simp add: crc32_def)

definition packet_fits :: "packet \<Rightarrow> bool" where
  "packet_fits p \<longleftrightarrow> length (build_packet (fst p) (snd p)) \<le> Suc MAX_PACKET_SIZE"

lemma packet_fits_short: "length (snd p) \<le> 1090 \<Longrightarrow> packet_fits p"
  using cobs_encode_length [of "fst p # snd p @ le_bytes 4 (crc32 (fst p # snd p))"]
  by (auto simp: packet_fits_def build_packet_def MAX_PACKET_SIZE_def Let_def
      dest: div_le_mono [of _ 1095 254] intro: order_trans)

lemma parse_build_packet:
  "parse_packet (cobs_encode ((cmd # data) @ le_bytes 4 (crc32 (cmd # data)))) = Inr (cmd, data)"
  using crc32_bounds [of "cmd # data"]
  by (simp add: parse_packet_def sum_bind_def cobs_decode_encode Let_def le_val_le_bytes)

lemma first_packet_build:
  assumes "packet_fits p"
  shows "first_packet (build_packet (fst p) (snd p) @ rest) = Some (p, rest)"
proof -
  let ?e = "cobs_encode ((fst p # snd p) @ le_bytes 4 (crc32 (fst p # snd p)))"
  have "consume [] ?e = (None, ?e, [])"
    using assms cobs_encode_nonzero by (intro consume_nonzero [of _ "[]", simplified]) (auto simp: packet_fits_def build_packet_def Let_def)
  then show ?thesis
    using parse_build_packet [of "fst p" "snd p"]
    by (simp add: first_packet_def build_packet_def Let_def consume_append)
qed


section \<open>What the link carries\<close>

text \<open>An observed link: the bytes received and the messages written, as functions of the world.\<close>

definition read_bytes :: "exn + bytes \<Rightarrow> bytes" where
  "read_bytes r = (case r of Inr d \<Rightarrow> d | Inl _ \<Rightarrow> [])"

lemma read_bytes_simps [simp]: "read_bytes (Inl e) = []" "read_bytes (Inr d) = d"
  by (simp_all add: read_bytes_def)

locale observed_link =
  fixes L :: "'s link" and rx :: "'s \<Rightarrow> bytes" and tx :: "'s \<Rightarrow> bytes list"
  assumes obs_read: "wlp (tr_read (lk_transport L) n t) s (\<lambda>r s'. rx s' = rx s @ read_bytes r \<and> tx s' = tx s)"
    and obs_write: "wlp (tr_write (lk_transport L) d) s (\<lambda>r s'. rx s' = rx s \<and> tx s' = tx s @ [d])"
    and obs_waiting: "wlp (tr_bytes_waiting (lk_transport L)) s (\<lambda>r s'. rx s' = rx s \<and> tx s' = tx s)"
    and obs_flush: "wlp (tr_flush_input (lk_transport L)) s (\<lambda>r s'. rx s' = rx s \<and> tx s' = tx s)"
    and obs_sleep: "wlp (tr_sleep (lk_transport L) u) s (\<lambda>r s'. rx s' = rx s \<and> tx s' = tx s)"
    and obs_baudrate: "wlp (tr_set_baudrate (lk_transport L) b) s (\<lambda>r s'. rx s' = rx s \<and> tx s' = tx s)"
    and obs_port_read: "lk_port L = Some P \<Longrightarrow> wlp (sp_read P n) s (\<lambda>r s'. rx s' = rx s @ read_bytes r \<and> tx s' = tx s)"
    and obs_port_write: "lk_port L = Some P \<Longrightarrow> wlp (sp_write P d) s (\<lambda>r s'. rx s' = rx s \<and> tx s' = tx s @ [d])"
    and obs_port_waiting: "lk_port L = Some P \<Longrightarrow> wlp (sp_in_waiting P) s (\<lambda>r s'. rx s' = rx s \<and> tx s' = tx s)"
    and obs_port_reset: "lk_port L = Some P \<Longrightarrow> wlp (sp_reset_input_buffer P) s (\<lambda>r s'. rx s' = rx s \<and> tx s' = tx s)"
begin

definition rxs :: "('s, 'z) agent_scheme \<Rightarrow> bytes" where "rxs st = rx (ag_world st)"
definition txs :: "('s, 'z) agent_scheme \<Rightarrow> bytes list" where "txs st = tx (ag_world st)"

text \<open>The bytes received before and not yet looked at.\<close>

definition pending :: "('s, 'z) agent_scheme \<Rightarrow> bytes" where
  "pending st = (case lk_port L of None \<Rightarrow> ag_leftover st | Some _ \<Rightarrow> ag_portbuf st)"

lemma obs_simps [simp]:
  "rxs (st\<lparr>ag_leftover := l\<rparr>) = rxs st" "txs (st\<lparr>ag_leftover := l\<rparr>) = txs st"
  "rxs (st\<lparr>ag_portbuf := l\<rparr>) = rxs st" "txs (st\<lparr>ag_portbuf := l\<rparr>) = txs st"
  by (simp_all add: rxs_def txs_def)

text \<open>A computation on the world seen through the observations; the buffers are kept.\<close>

lemma on_agent_obs:
  assumes "wlp m (ag_world st) (\<lambda>r s'. rx s' = rx (ag_world st) @ f r \<and> tx s' = tx (ag_world st) @ g r)"
    and "\<And>r st'. rxs st' = rxs st @ f r \<Longrightarrow> txs st' = txs st @ g r \<Longrightarrow> ag_leftover st' = ag_leftover st
          \<Longrightarrow> ag_portbuf st' = ag_portbuf st \<Longrightarrow> Q r st'"
  shows "wlp (on_agent m) st Q"
  unfolding on_agent_def wlp_on
  by (rule wlp_mono [OF assms(1)]) (auto intro!: assms(2) simp: rxs_def txs_def)

lemmas obs_on_agent =
  on_agent_obs [where f = read_bytes and g = "\<lambda>_. []", simplified]
  on_agent_obs [where f = "\<lambda>_. []" and g = "\<lambda>_. []", simplified]
  on_agent_obs [where f = "\<lambda>_. []" and g = "\<lambda>_. [d]" for d, simplified]

lemma obs_readI: "(\<And>r st'. rxs st' = rxs st @ read_bytes r \<Longrightarrow> txs st' = txs st \<Longrightarrow> ag_leftover st' = ag_leftover st
   \<Longrightarrow> ag_portbuf st' = ag_portbuf st \<Longrightarrow> Q r st') \<Longrightarrow> wlp (on_agent (tr_read (lk_transport L) n t)) st Q"
  by (rule obs_on_agent(1) [OF obs_read])

lemma obs_port_readI: "lk_port L = Some P \<Longrightarrow> (\<And>r st'. rxs st' = rxs st @ read_bytes r \<Longrightarrow> txs st' = txs st
   \<Longrightarrow> ag_leftover st' = ag_leftover st \<Longrightarrow> ag_portbuf st' = ag_portbuf st \<Longrightarrow> Q r st')
   \<Longrightarrow> wlp (on_agent (sp_read P n)) st Q"
  by (rule obs_on_agent(1) [OF obs_port_read])

lemma obs_port_waitingI: "lk_port L = Some P \<Longrightarrow> (\<And>r st'. rxs st' = rxs st \<Longrightarrow> txs st' = txs st
   \<Longrightarrow> ag_leftover st' = ag_leftover st \<Longrightarrow> ag_portbuf st' = ag_portbuf st \<Longrightarrow> Q r st')
   \<Longrightarrow> wlp (on_agent (sp_in_waiting P)) st Q"
  by (rule obs_on_agent(2) [OF obs_port_waiting])

lemma obs_quietI:
  "(\<And>r st'. rxs st' = rxs st \<Longrightarrow> txs st' = txs st \<Longrightarrow> ag_leftover st' = ag_leftover st
     \<Longrightarrow> ag_portbuf st' = ag_portbuf st \<Longrightarrow> Q r st') \<Longrightarrow> wlp (on_agent (tr_sleep (lk_transport L) u)) st Q"
  by (rule obs_on_agent(2) [OF obs_sleep])

lemma send_packet_obs:
  assumes "\<And>r st'. rxs st' = rxs st \<Longrightarrow> txs st' = txs st @ [build_packet cmd data] \<Longrightarrow> ag_leftover st' = ag_leftover st
     \<Longrightarrow> ag_portbuf st' = ag_portbuf st \<Longrightarrow> Q r st'"
  shows "wlp (send_packet L cmd data) st Q"
proof (cases "lk_port L")
  case None
  then show ?thesis
    by (auto simp: send_packet_def Let_def intro!: obs_on_agent(3) [OF obs_write] assms)
next
  case (Some P)
  then show ?thesis
    by (auto simp: send_packet_def Let_def intro!: obs_on_agent(3) [OF obs_port_write [OF Some]] assms)
qed

text \<open>How receiving one packet ends. \<open>frame\<close> holds the bytes since the last delimiter.\<close>

definition received :: "bytes \<Rightarrow> ('s, 'z) agent_scheme \<Rightarrow> exn + packet \<Rightarrow> ('s, 'z) agent_scheme \<Rightarrow> bool" where
  "received frame st r st' \<longleftrightarrow> txs st' = txs st \<and> (\<exists>new. rxs st' = rxs st @ new \<and>
     (case r of
        Inr p \<Rightarrow> (\<exists>f. consume frame (pending st @ new) = (Some p, f, pending st'))
      | Inl e \<Rightarrow> (new = [] \<and> pending st' = pending st) \<or> (pending st' = [] \<and> (\<exists>f rest. consume frame (pending st @ new) = (None, f, rest)))))"

lemma received_step:
  assumes "received frame' st1 r st'" "consume frame (pending st @ c) = (None, frame', rest)" "pending st1 = []"
    "rxs st1 = rxs st @ c" "txs st1 = txs st"
  shows "received frame st r st'"
proof -
  obtain new where new: "rxs st' = rxs st1 @ new" "txs st' = txs st1"
    "case r of Inr p \<Rightarrow> (\<exists>f. consume frame' new = (Some p, f, pending st'))
     | Inl e \<Rightarrow> pending st' = [] \<and> (new = [] \<or> (\<exists>f rest. consume frame' new = (None, f, rest)))"
    using assms(1,3) unfolding received_def by (cases r) auto
  have step: "consume frame (pending st @ c @ new) = consume frame' new"
    using assms(2) consume_append [of frame "pending st @ c" new] by simp
  show ?thesis
    unfolding received_def
  proof (intro conjI exI [of _ "c @ new"])
    show "case r of Inr p \<Rightarrow> (\<exists>f. consume frame (pending st @ c @ new) = (Some p, f, pending st'))
      | Inl e \<Rightarrow> (c @ new = [] \<and> pending st' = pending st)
          \<or> (pending st' = [] \<and> (\<exists>f rest. consume frame (pending st @ c @ new) = (None, f, rest)))"
      using new(3) unfolding step by (cases r) auto
  qed (use assms new in simp_all)
qed

lemma recv_sync_loop_received:
  assumes "lk_port L = Some P"
  shows "wlp (recv_sync_loop L P fuel deadline frame) st (received frame st)"
proof (induction fuel arbitrary: st frame)
  case (Suc fuel)
  have found: "received frame st (Inr p) (st1\<lparr>ag_portbuf := rest\<rparr>)"
    if "rxs st1 = rxs st @ c" "txs st1 = txs st" "consume frame (pending st @ c) = (Some p, f, rest)" for st1 c p f rest
    using that assms unfolding received_def by (auto simp: pending_def)
  have again: "wlp (recv_sync_loop L P fuel deadline f) st1 (received frame st)"
    if "consume frame (pending st @ c) = (None, f, rest)" "rxs st1 = rxs st @ c" "txs st1 = txs st" "ag_portbuf st1 = []"
    for st1 c f rest
    by (rule wlp_mono [OF Suc.IH], erule received_step [OF _ that(1)]) (use that assms in \<open>simp_all add: pending_def\<close>)
  have raised: "received frame st (Inl e) st1"
    if "rxs st1 = rxs st" "txs st1 = txs st" "ag_portbuf st1 = ag_portbuf st" for e st1
    using that assms by (auto simp: received_def pending_def)
  show ?case
    using assms
    by (auto simp: wp next_chunk_sync_def pending_def intro!: obs_port_waitingI obs_port_readI found [of _ "[]"] found again [of "[]"] again raised
        split: sum.split prod.split option.split)
qed (simp add: wp)

lemma recv_async_loop_received:
  assumes "lk_port L = None"
  shows "ag_leftover st = [] \<Longrightarrow> wlp (recv_async_loop L fuel deadline frame) st (received frame st)"
proof (induction fuel arbitrary: st frame)
  case (Suc fuel)
  have found: "received frame st (Inr p) (st1\<lparr>ag_leftover := rest\<rparr>)"
    if "rxs st1 = rxs st @ c" "txs st1 = txs st" "consume frame c = (Some p, f, rest)" for st1 c p f rest
    using that assms Suc.prems unfolding received_def by (auto simp: pending_def)
  have again: "wlp (recv_async_loop L fuel deadline f) st1 (received frame st)"
    if "consume frame c = (None, f, rest)" "rxs st1 = rxs st @ c" "txs st1 = txs st" "ag_leftover st1 = []"
    for st1 c f rest
    by (rule wlp_mono [OF Suc.IH], use that in simp, erule received_step [where c = c])
       (use that assms Suc.prems in \<open>simp_all add: pending_def\<close>)
  have raised: "received frame st (Inl e) st1"
    if "rxs st1 = rxs st" "txs st1 = txs st" "ag_leftover st1 = []" for e st1
    using that assms Suc.prems by (auto simp: received_def pending_def)
  show ?case
    using Suc.prems
    by (auto simp: wp stash_leftover_def intro!: obs_readI found again [of "[]"] again raised
        split: sum.split prod.split option.split)
qed (simp add: wp)

lemma recv_packet_received: "wlp (recv_packet L fuel timeout) st (received [] st)"
proof (cases "lk_port L")
  case (Some P)
  then show ?thesis
    by (auto simp: recv_packet_def recv_packet_sync_def wp intro!: recv_sync_loop_received)
next
  case None
  have found: "received [] st (Inr p) (st\<lparr>ag_leftover := rest\<rparr>)"
    if "consume [] (ag_leftover st) = (Some p, f, rest)" for p f rest
    using that None unfolding received_def by (auto simp: pending_def)
  have again: "wlp (recv_async_loop L fuel deadline f) (st\<lparr>ag_leftover := []\<rparr>) (received [] st)"
    if "consume [] (ag_leftover st) = (None, f, rest)" for deadline f rest
    by (rule wlp_mono [OF recv_async_loop_received [OF None]], simp, erule received_step [where c = "[]"])
       (use that None in \<open>simp_all add: pending_def\<close>)
  show ?thesis
    using None by (auto simp: recv_packet_def wp stash_leftover_def intro!: found again split: prod.split option.split)
qed

end

text \<open>A link with a record of everything it carried.\<close>

type_synonym 's traced = "'s \<times> bytes \<times> bytes list"

definition on_traced :: "('s, 'a) io \<Rightarrow> ('s traced, 'a) io" where
  "on_traced = io_on fst (\<lambda>w st. (w, snd st))"

definition trace_read :: "('s, bytes) io \<Rightarrow> ('s traced, bytes) io" where
  "trace_read m = (\<lambda>(s, r, t). map_option (\<lambda>(x, s'). (x, s', r @ read_bytes x, t)) (m s))"

definition trace_write :: "bytes \<Rightarrow> ('s, unit) io \<Rightarrow> ('s traced, unit) io" where
  "trace_write d m = (\<lambda>(s, r, t). map_option (\<lambda>(x, s'). (x, s', r, t @ [d])) (m s))"

definition trace_transport :: "'s transport \<Rightarrow> 's traced transport" where
  "trace_transport T =
     \<lparr>tr_read = (\<lambda>n t. trace_read (tr_read T n t)),
      tr_write = (\<lambda>d. trace_write d (tr_write T d)),
      tr_flush_input = on_traced (tr_flush_input T), tr_flush_output = on_traced (tr_flush_output T),
      tr_bytes_waiting = on_traced (tr_bytes_waiting T), tr_unread = (\<lambda>d. on_traced (tr_unread T d)),
      tr_set_baudrate = (\<lambda>b. on_traced (tr_set_baudrate T b)), tr_close = on_traced (tr_close T),
      tr_now = (\<lambda>st. tr_now T (fst st)), tr_sleep = (\<lambda>u. on_traced (tr_sleep T u)),
      tr_emit = (\<lambda>e. on_traced (tr_emit T e))\<rparr>"

definition trace_port :: "'s serial_port \<Rightarrow> 's traced serial_port" where
  "trace_port P =
     \<lparr>sp_read = (\<lambda>n. trace_read (sp_read P n)), sp_read_within = (\<lambda>n t. trace_read (sp_read_within P n t)),
      sp_write = (\<lambda>d. trace_write d (sp_write P d)), sp_in_waiting = on_traced (sp_in_waiting P),
      sp_timeout = (\<lambda>st. sp_timeout P (fst st)), sp_set_timeout = (\<lambda>t. on_traced (sp_set_timeout P t)),
      sp_write_timeout = (\<lambda>st. sp_write_timeout P (fst st)),
      sp_set_write_timeout = (\<lambda>t. on_traced (sp_set_write_timeout P t)),
      sp_reset_input_buffer = on_traced (sp_reset_input_buffer P),
      sp_reset_output_buffer = on_traced (sp_reset_output_buffer P),
      sp_set_baudrate = (\<lambda>b. on_traced (sp_set_baudrate P b)), sp_set_dtr = (\<lambda>b. on_traced (sp_set_dtr P b)),
      sp_set_rts = (\<lambda>b. on_traced (sp_set_rts P b)), sp_is_open = (\<lambda>st. sp_is_open P (fst st)),
      sp_close = on_traced (sp_close P)\<rparr>"

definition trace_link :: "'s link \<Rightarrow> 's traced link" where
  "trace_link L = \<lparr>lk_transport = trace_transport (lk_transport L), lk_port = map_option trace_port (lk_port L)\<rparr>"

definition link_rx :: "'s traced \<Rightarrow> bytes" where "link_rx w = fst (snd w)"
definition link_tx :: "'s traced \<Rightarrow> bytes list" where "link_tx w = snd (snd w)"

lemma trace_obs:
  "wlp (trace_read m) w (\<lambda>r w'. link_rx w' = link_rx w @ read_bytes r \<and> link_tx w' = link_tx w)"
  "wlp (trace_write d m') w (\<lambda>r w'. link_rx w' = link_rx w \<and> link_tx w' = link_tx w @ [d])"
  "wlp (on_traced m'') w (\<lambda>r w'. link_rx w' = link_rx w \<and> link_tx w' = link_tx w)"
  by (auto simp: wlp_def trace_read_def trace_write_def on_traced_def io_on_def link_rx_def link_tx_def
      split: option.split prod.split)

interpretation traced: observed_link "trace_link L" link_rx link_tx for L :: "'s link"
  by unfold_locales (auto simp: trace_link_def trace_transport_def trace_port_def intro: trace_obs)


section \<open>Receiving ends\<close>

locale timed_link = timed_transport "lk_transport L" for L :: "'s link" +
  assumes port_read_ends:
      "lk_port L = Some P \<Longrightarrow> \<exists>r s'. sp_read P n s = Some (r, s') \<and> tr_now (lk_transport L) s < tr_now (lk_transport L) s'"
    and port_waiting_ends: "lk_port L = Some P \<Longrightarrow> ends (tr_now (lk_transport L)) (sp_in_waiting P)"
    and port_write_ends: "lk_port L = Some P \<Longrightarrow> ends (tr_now (lk_transport L)) (sp_write P d)"
    and port_reset_ends: "lk_port L = Some P \<Longrightarrow> ends (tr_now (lk_transport L)) (sp_reset_input_buffer P)"
begin

lemma ag_now_simps [simp]:
  "ag_now L (st\<lparr>ag_leftover := l\<rparr>) = ag_now L st" "ag_now L (st\<lparr>ag_portbuf := l\<rparr>) = ag_now L st"
  by (simp_all add: ag_now_def)

lemma twp_ag_readI:
  "(\<And>r st'. ag_now L st < ag_now L st' \<Longrightarrow> Q r st') \<Longrightarrow> twp (on_agent (tr_read (lk_transport L) n (Some t))) st Q"
  unfolding on_agent_def twp_on by (rule twp_readI) (simp add: ag_now_def)

lemma twp_ag_port_readI:
  "lk_port L = Some P \<Longrightarrow> (\<And>r st'. ag_now L st < ag_now L st' \<Longrightarrow> ag_portbuf st' = ag_portbuf st \<Longrightarrow> Q r st')
   \<Longrightarrow> twp (on_agent (sp_read P n)) st Q"
  unfolding on_agent_def twp_on
  using port_read_ends [of P n "ag_world st"] by (auto simp: twp_def ag_now_def)

lemma twp_ag_waitingI:
  "lk_port L = Some P \<Longrightarrow> (\<And>r st'. ag_now L st \<le> ag_now L st' \<Longrightarrow> ag_portbuf st' = ag_portbuf st \<Longrightarrow> Q r st')
   \<Longrightarrow> twp (on_agent (sp_in_waiting P)) st Q"
  unfolding on_agent_def twp_on by (rule ends_twp [OF port_waiting_ends]) (simp_all add: ag_now_def)

lemma recv_sync_loop_ends:
  "lk_port L = Some P \<Longrightarrow> nat (deadline - ag_now L st) + (if ag_portbuf st = [] then 0 else 1) < fuel
   \<Longrightarrow> twp (recv_sync_loop L P fuel deadline frame) st (\<lambda>_ _. True)"
proof (induction fuel arbitrary: st frame)
  case (Suc fuel)
  then show ?case
    by (auto simp: wp next_chunk_sync_def intro!: twp_ag_waitingI twp_ag_port_readI Suc.IH
        split: sum.split prod.split option.split if_splits)
qed simp

lemma recv_async_loop_ends:
  "nat (deadline - ag_now L st) < fuel \<Longrightarrow> twp (recv_async_loop L fuel deadline frame) st (\<lambda>_ _. True)"
proof (induction fuel arbitrary: st frame)
  case (Suc fuel)
  then show ?case
    by (auto simp: wp stash_leftover_def intro!: twp_ag_readI Suc.IH split: sum.split prod.split option.split)
qed simp

lemma recv_packet_ends:
  assumes "nat timeout + 1 < fuel"
  shows "twp (recv_packet L fuel timeout) st (\<lambda>_ _. True)"
  using assms
  by (auto simp: recv_packet_def recv_packet_sync_def stash_leftover_def wp
      intro!: recv_sync_loop_ends recv_async_loop_ends split: option.split prod.split)

end

text \<open>The mock transport, which has no port behind it, and any traced link.\<close>

definition mock_link :: "mock link" where
  "mock_link = \<lparr>lk_transport = mock_transport, lk_port = None\<rparr>"

interpretation mock_link: timed_link mock_link
  unfolding timed_link_def timed_link_axioms_def mock_link_def by (simp add: mock.timed_transport_axioms)

lemma trace_ends:
  "\<exists>x s'. m (fst w) = Some (x, s') \<and> P s' \<Longrightarrow> \<exists>x w'. on_traced m w = Some (x, w') \<and> P (fst w')"
  "\<exists>x s'. m' (fst w) = Some (x, s') \<and> P s' \<Longrightarrow> \<exists>x w'. trace_write d m' w = Some (x, w') \<and> P (fst w')"
  "\<exists>x s'. m'' (fst w) = Some (x, s') \<and> P s' \<Longrightarrow> \<exists>x w'. trace_read m'' w = Some (x, w') \<and> P (fst w')"
  by (auto simp: on_traced_def trace_write_def trace_read_def io_on_def split: prod.split)

lemma trace_inv:
  "on_traced m w = Some (x, w') \<Longrightarrow> m (fst w) = Some (x, fst w')"
  "trace_read m'' w = Some (y, w') \<Longrightarrow> m'' (fst w) = Some (y, fst w')"
  by (auto simp: on_traced_def trace_read_def io_on_def split: prod.splits)

lemma timed_trace_transport:
  assumes "timed_transport T"
  shows "timed_transport (trace_transport T)"
proof
  note [simp] = trace_transport_def
  show "\<exists>r s'. tr_read (trace_transport T) n (Some t) s = Some (r, s')" for n t s
    using trace_ends(3) [of "tr_read T n (Some t)" s "\<lambda>_. True"] timed_transport.read_ends [OF assms] by simp
  show "tr_now (trace_transport T) s < tr_now (trace_transport T) s'"
    if "tr_read (trace_transport T) n t s = Some (r, s')" for n t s r s'
    using that timed_transport.read_advances [OF assms trace_inv(2)] by simp
  show "length d \<le> n" if "tr_read (trace_transport T) n t s = Some (Inr d, s')" for n t s d s'
    using that timed_transport.read_size [OF assms trace_inv(2)] by simp
  show "tr_now (trace_transport T) s < tr_now (trace_transport T) s'"
    if "tr_sleep (trace_transport T) t s = Some (ru, s')" "0 < t" for t s ru s'
    using that timed_transport.sleep_advances [OF assms trace_inv(1)] by simp
qed (auto simp: trace_transport_def simp del: split_paired_Ex intro!: trace_ends timed_transport.write_ends [OF assms]
    timed_transport.flush_input_ends [OF assms] timed_transport.flush_output_ends [OF assms]
    timed_transport.sleep_ends [OF assms] timed_transport.emit_ends [OF assms]
    timed_transport.bytes_waiting_ends [OF assms] timed_transport.unread_ends [OF assms])

lemma timed_trace_link:
  assumes "timed_link L"
  shows "timed_link (trace_link L)"
proof -
  have "timed_transport (trace_transport (lk_transport L))"
    using assms by (simp add: timed_link_def timed_trace_transport)
  then show ?thesis
    using assms unfolding timed_link_def timed_link_axioms_def
    by (auto simp: trace_link_def trace_transport_def trace_port_def ends_def
        simp del: split_paired_Ex split_paired_All intro!: trace_ends)
qed

section \<open>Properties\<close>

text \<open>The first packets of a stream and what is left.\<close>

fun take_packets :: "nat \<Rightarrow> bytes \<Rightarrow> packet list \<times> bytes" where
  "take_packets 0 stream = ([], stream)"
| "take_packets (Suc n) stream = (case first_packet stream of
     None \<Rightarrow> ([], stream)
   | Some (p, rest) \<Rightarrow> (let (ps, rest') = take_packets n rest in (p # ps, rest')))"

lemma first_packet_append: "first_packet xs = Some (p, rest) \<Longrightarrow> first_packet (xs @ ys) = Some (p, rest @ ys)"
  by (auto simp: first_packet_def consume_append split: prod.splits option.splits)

lemma take_packets_Suc:
  "first_packet xs = Some (p, rest) \<Longrightarrow> take_packets n (rest @ ys) = (ps, rest')
   \<Longrightarrow> take_packets (Suc n) (xs @ ys) = (p # ps, rest')"
  by (simp add: first_packet_append)

lemma take_packets_append:
  "take_packets n xs = (ps, rest) \<Longrightarrow> length ps = n \<Longrightarrow> take_packets m (rest @ ys) = (qs, rest')
   \<Longrightarrow> take_packets (n + m) (xs @ ys) = (ps @ qs, rest')"
proof (induction n arbitrary: xs ps)
  case (Suc n)
  then obtain p r ps' where "first_packet xs = Some (p, r)" "take_packets n r = (ps', rest)" "ps = p # ps'"
    by (auto split: option.splits prod.splits)
  then show ?case using Suc by (auto simp: first_packet_append)
qed simp

definition packets_bytes :: "packet list \<Rightarrow> bytes" where
  "packets_bytes ps = concat (map (\<lambda>p. build_packet (fst p) (snd p)) ps)"

lemma take_packets_build:
  "\<forall>p \<in> set ps. packet_fits p \<Longrightarrow> take_packets (length ps) (packets_bytes ps @ rest) = (ps, rest)"
  by (induction ps) (simp_all add: packets_bytes_def first_packet_build)

lemma consume_junk:
  "consume frame (junk @ [0]) = (None, f, r) \<Longrightarrow> f = []"
proof (induction frame junk rule: consume.induct)
  case (1 frame)
  then show ?case by (auto split: if_splits sum.splits)
next
  case (2 frame b data)
  then show ?case by (auto simp: Let_def split: if_splits sum.splits)
qed

lemma first_packet_junk:
  assumes "first_packet (junk @ [0]) = None"
  shows "first_packet (junk @ [0] @ stream) = first_packet stream"
proof -
  obtain f r where "consume [] (junk @ [0]) = (None, f, r)"
    using assms by (auto simp: first_packet_def split: prod.splits option.splits)
  moreover from this have "f = []" by (rule consume_junk)
  ultimately show ?thesis
    using consume_append [of "[]" "junk @ [0]" stream] by (simp add: first_packet_def)
qed

text \<open>Packets survive the stream. Behind any junk that ends in a delimiter and holds no packet of
  its own, the packets sent (of up to 1090 data bytes) are cut out of the stream one by one, in order
  and unchanged, and the bytes behind them are left over exactly.\<close>

lemma packet_stream_roundtrip:
  assumes "\<forall>p \<in> set (p # ps). length (snd p) \<le> 1090" "first_packet (junk @ [0]) = None"
  shows "take_packets (Suc (length ps)) (junk @ [0] @ packets_bytes (p # ps) @ rest) = (p # ps, rest)"
proof -
  have "take_packets (Suc (length ps)) (junk @ [0] @ packets_bytes (p # ps) @ rest)
      = take_packets (Suc (length ps)) (packets_bytes (p # ps) @ rest)"
    using first_packet_junk [OF assms(2), of "packets_bytes (p # ps) @ rest"]
      assms(1) first_packet_build [of p] packet_fits_short [of p]
    by (simp add: packets_bytes_def)
  then show ?thesis
    using take_packets_build [of "p # ps" rest] assms(1) packet_fits_short by simp
qed

lemma packet_stream_roundtrip_witness:
  "take_packets 2 ([5, 6] @ [0] @ packets_bytes [(CMD_INFO, []), (CMD_READ, [0, 1])] @ [9]) = ([(CMD_INFO, []), (CMD_READ, [0, 1])], [9])"
proof -
  have "first_packet ([5, 6] @ [0]) = None" by code_simp
  then show ?thesis
    using packet_stream_roundtrip [of "(CMD_INFO, [])" "[(CMD_READ, [0, 1])]" "[5, 6]" "[9]"]
    by (simp add: numeral_2_eq_2)
qed

text \<open>The bytes held back for the next call.\<close>

definition held :: "'s link \<Rightarrow> ('w, 'z) agent_scheme \<Rightarrow> bytes" where
  "held L st = (case lk_port L of None \<Rightarrow> ag_leftover st | Some _ \<Rightarrow> ag_portbuf st)"

lemma traced_pending: "traced.pending L st = held L st"
  unfolding traced.pending_def held_def by (cases "lk_port L") (simp_all add: trace_link_def)

text \<open>C15: receiving a packet over a link whose waits end returns. It writes nothing, and the bytes
  held back from earlier calls with the bytes received meanwhile decide it: a returned packet is the
  first one of that stream and exactly the bytes behind it are held back; an exception leaves either
  everything as it was or means that the stream held no packet. This is so for both implementations,
  over a serial port and over a transport.\<close>

theorem recv_packet_first:
  fixes L :: "'s link" and st :: "('s traced, 'z) agent_scheme"
  assumes "timed_link L" "nat timeout + 1 < fuel"
  shows "twp (recv_packet (trace_link L) fuel timeout) st (\<lambda>r st'.
     link_tx (ag_world st') = link_tx (ag_world st)
     \<and> (\<exists>new. link_rx (ag_world st') = link_rx (ag_world st) @ new \<and> (case r of
          Inr p \<Rightarrow> first_packet (held L st @ new) = Some (p, held L st')
        | Inl e \<Rightarrow> (new = [] \<and> held L st' = held L st) \<or> (held L st' = [] \<and> first_packet (held L st @ new) = None))))"
proof -
  have "twp (recv_packet (trace_link L) fuel timeout) st (traced.received L [] st)"
    by (rule twp_combine [OF timed_link.recv_packet_ends [OF timed_trace_link [OF assms(1)] assms(2)]
          traced.recv_packet_received])
  then show ?thesis
  proof (rule twp_mono, goal_cases)
    case (1 r st')
    then show ?case
      by (cases r) (auto simp: traced.received_def traced.rxs_def traced.txs_def traced_pending first_packet_def)
  qed
qed

text \<open>A packet that arrives with the beginning of the next one.\<close>

definition sample_agent :: "(mock traced) agent" where
  "sample_agent = \<lparr>ag_world = ((mock_enqueue_rx (build_packet RSP_ACK [ACK_OK] @ [3]) (MockTransport True)), [], []),
     ag_leftover = [], ag_portbuf = []\<rparr>"

theorem recv_packet_first_witness:
  "twp (recv_packet (trace_link mock_link) 5000002 5000000) sample_agent (\<lambda>r st'. \<exists>new. link_rx (ag_world st') = new \<and> (case r of
      Inr p \<Rightarrow> first_packet new = Some (p, ag_leftover st')
    | Inl e \<Rightarrow> ag_leftover st' = []))"
  by (rule twp_mono [OF recv_packet_first [OF mock_link.timed_link_axioms]])
     (auto simp: mock_link_def held_def sample_agent_def link_rx_def split: sum.splits)

end
