(* ===== verification/AgentClient.thy ===== *)
theory AgentClient
  imports AgentProtocol
begin

text \<open>
  \<open>src/defib/agent/client.py\<close>: the client of the flash agent. Its state extends the receive buffers of
  the packet layer. Progress callbacks and log output are left out; durations in floating point seconds are
  whole microseconds, rounded down.
\<close>

unbundle bit_operations_syntax

section \<open>Constants and results\<close>

datatype SectorStatus = GOOD | EMPTY | STUCK_ZERO | STUCK_PATTERN | UNSTABLE | READ_ERROR | BAD_BLOCK

text \<open>\<open>SectorStatus(byte)\<close>, with the fallback of its callers for values that are no status.\<close>

definition SectorStatus_of :: "byte \<Rightarrow> SectorStatus" where
  "SectorStatus_of b =
     (if b = 0 then GOOD else if b = 1 then EMPTY else if b = 2 then STUCK_ZERO else if b = 3 then STUCK_PATTERN
      else if b = 4 then UNSTABLE else if b = 6 then BAD_BLOCK else READ_ERROR)"

record SectorResult =
  sr_index :: nat
  sr_address :: nat
  sr_status :: SectorStatus
  sr_crc32 :: int

record MembwResult =
  mb_addr :: int
  mb_size_bytes :: int
  mb_iters :: int
  mb_timer_hz :: int
  mb_memset_ticks :: int
  mb_read_ticks :: int
  mb_memcpy_ticks :: int

record ScanResult =
  sc_sectors :: "SectorResult list"
  sc_flash_size :: nat
  sc_sector_size :: nat

definition scan_bad :: "ScanResult \<Rightarrow> SectorResult list" where
  "scan_bad r = filter (\<lambda>s. sr_status s \<in> {STUCK_ZERO, STUCK_PATTERN, READ_ERROR}) (sc_sectors r)"

definition scan_with :: "SectorStatus \<Rightarrow> ScanResult \<Rightarrow> SectorResult list" where
  "scan_with x r = filter (\<lambda>s. sr_status s = x) (sc_sectors r)"

definition WRITE_CHUNK_SIZE :: nat where "WRITE_CHUNK_SIZE = 512"
definition WRITE_MAX_TRANSFER :: nat where "WRITE_MAX_TRANSFER = 16 * 1024"
definition WRITE_WINDOW :: nat where "WRITE_WINDOW = 16"
definition DEFAULT_FAST_BAUD :: int where "DEFAULT_FAST_BAUD = 921600"
definition FALLBACK_BAUD :: int where "FALLBACK_BAUD = 115200"

definition CHIP_TO_AGENT :: "string \<rightharpoonup> string" where
  "CHIP_TO_AGENT = map_of [
     (''hi3516ev300'', ''hi3516ev300''), (''hi3516ev200'', ''hi3516ev200''),
     (''gk7205v200'', ''gk7205v200''), (''gk7205v300'', ''gk7205v200''), (''gk7202v300'', ''gk7205v200''),
     (''hi3516cv300'', ''hi3516cv300''), (''hi3516cv500'', ''hi3516cv500''), (''hi3516av300'', ''hi3516cv500''),
     (''hi3516dv300'', ''hi3516cv500''), (''hi3519v101'', ''hi3519v101''), (''hi3516av200'', ''hi3519v101''),
     (''hi3516cv610'', ''hi3516cv610''), (''hi3516cv608'', ''hi3516cv610''), (''hi3518ev200'', ''hi3518ev200''),
     (''hi3520dv200'', ''hi3520dv200'')]"

definition agent_binary_for :: "string \<Rightarrow> string option" where
  "agent_binary_for chip = CHIP_TO_AGENT (lower (takeWhile (\<lambda>c. c \<noteq> CHR '':'') chip))"

section \<open>The client\<close>

record 's client = "'s agent" +
  cl_connected :: bool
  cl_flash_size :: nat
  cl_ram_base :: nat
  cl_sector_size :: nat
  cl_flash_mem :: nat
  cl_current_baud :: int

definition FlashAgentClient :: "'s \<Rightarrow> 's client" where
  "FlashAgentClient w =
     \<lparr>ag_world = w, ag_leftover = [], ag_portbuf = [], cl_connected = False, cl_flash_size = 0, cl_ram_base = 0,
      cl_sector_size = 0x10000, cl_flash_mem = 0x14000000, cl_current_baud = FALLBACK_BAUD\<rparr>"

definition connect :: "'s link \<Rightarrow> nat \<Rightarrow> usec \<Rightarrow> ('s client, bool) io" where
  "connect L fuel timeout =
     io_bind (wait_for_ready L fuel timeout) (\<lambda>ok.
       io_then (io_modify (\<lambda>st. st\<lparr>cl_connected := ok\<rparr>)) (io_return ok))"

definition clear_rx_buffers :: "'s link \<Rightarrow> ('s client, unit) io" where
  "clear_rx_buffers L =
     (case lk_port L of Some _ \<Rightarrow> io_modify (\<lambda>st. st\<lparr>ag_portbuf := []\<rparr>) | None \<Rightarrow> io_return ())"

text \<open>\<open>cmd == RSP_ACK and resp[0] == ACK_OK\<close>, with the IndexError of an empty response.\<close>

definition ack_ok :: "packet \<Rightarrow> exn + bool" where
  "ack_ok p =
     (if fst p \<noteq> RSP_ACK then Inr False
      else if snd p = [] then Inl IndexError else Inr (hd (snd p) = ACK_OK))"

definition le32_at :: "nat \<Rightarrow> bytes \<Rightarrow> nat" where
  "le32_at off d = nat (le_val (pyslice off (off + 4) d))"

definition pack_le3 :: "int \<Rightarrow> int \<Rightarrow> int \<Rightarrow> exn + bytes" where
  "pack_le3 a b c =
     sum_bind (pack_le 4 a) (\<lambda>x. sum_bind (pack_le 4 b) (\<lambda>y. sum_bind (pack_le 4 c) (\<lambda>z. Inr (x @ y @ z))))"

definition pack_le2 :: "int \<Rightarrow> int \<Rightarrow> exn + bytes" where
  "pack_le2 a b = sum_bind (pack_le 4 a) (\<lambda>x. sum_bind (pack_le 4 b) (\<lambda>y. Inr (x @ y)))"

text \<open>Switching the baud rate: the command, the change of the host side, and the check at the new rate.\<close>

definition set_baud_unsupported :: "'s link \<Rightarrow> ('s client, bool) io" where
  "set_baud_unsupported L =
     io_try (send_packet L CMD_SET_BAUD (le_bytes 4 FALLBACK_BAUD)) (\<lambda>_. io_return False) (\<lambda>_. io_return False)"

definition set_baud_check :: "'s link \<Rightarrow> nat \<Rightarrow> int \<Rightarrow> ('s client, bool) io" where
  "set_baud_check L fuel baud =
     io_then (send_packet L CMD_INFO [])
       (io_bind (recv_response L fuel 3000000) (\<lambda>(cmd, data).
         if cmd = RSP_INFO
         then io_then (io_modify (\<lambda>st. st\<lparr>cl_current_baud := baud\<rparr>)) (io_return True)
         else io_return False))"

definition set_baud_verify :: "'s link \<Rightarrow> nat \<Rightarrow> int \<Rightarrow> int \<Rightarrow> ('s client, bool) io" where
  "set_baud_verify L fuel old_baud baud =
     io_then (on_agent (tr_flush_input (lk_transport L)))
     (io_then (io_modify (\<lambda>st. st\<lparr>ag_leftover := []\<rparr>))
     (io_then (on_agent (tr_sleep (lk_transport L) 50000))
     (io_bind (io_try (set_baud_check L fuel baud) (\<lambda>_. io_return False) io_return) (\<lambda>ok.
       if ok then io_return True
       else io_try (on_agent (tr_set_baudrate (lk_transport L) old_baud))
         (\<lambda>e. if e = NotImplementedError then io_return False else io_raise e)
         (\<lambda>_. io_return False)))))"

definition set_baud :: "'s link \<Rightarrow> nat \<Rightarrow> int \<Rightarrow> ('s client, bool) io" where
  "set_baud L fuel baud =
     io_then (clear_rx_buffers L)
     (io_bind (io_get cl_current_baud) (\<lambda>old_baud.
     io_bind (io_lift (pack_le 4 baud)) (\<lambda>payload.
     io_then (send_packet L CMD_SET_BAUD payload)
     (io_bind (recv_response L fuel 5000000) (\<lambda>rsp.
     io_bind (io_lift (ack_ok rsp)) (\<lambda>ok.
     if \<not> ok then io_return False
     else io_then (on_agent (tr_sleep (lk_transport L) 50000))
       (io_try (on_agent (tr_set_baudrate (lk_transport L) baud))
         (\<lambda>e. if e = NotImplementedError then set_baud_unsupported L else io_raise e)
         (\<lambda>_. set_baud_verify L fuel old_baud baud))))))))"

definition switch_baud :: "'s link \<Rightarrow> nat \<Rightarrow> int \<Rightarrow> ('s client, bool) io" where
  "switch_baud L fuel target =
     io_bind (io_get cl_current_baud) (\<lambda>cur.
       if cur = target then io_return True
       else io_bind (set_baud L fuel target) (\<lambda>ok.
         io_then (if ok then io_modify (\<lambda>st. st\<lparr>cl_current_baud := target\<rparr>) else io_return ()) (io_return ok)))"

definition restore_baud :: "'s link \<Rightarrow> nat \<Rightarrow> ('s client, unit) io" where
  "restore_baud L fuel =
     io_bind (io_get cl_current_baud) (\<lambda>cur.
       if cur \<noteq> FALLBACK_BAUD
       then io_bind (set_baud L fuel FALLBACK_BAUD) (\<lambda>ok.
         if ok then io_modify (\<lambda>st. st\<lparr>cl_current_baud := FALLBACK_BAUD\<rparr>) else io_return ())
       else io_return ())"

text \<open>Device information; the absent dictionary entries are \<^const>\<open>None\<close>, the empty dictionary as a whole too.\<close>

record AgentInfo =
  ai_jedec_id :: bytes
  ai_flash_size :: nat
  ai_ram_base :: nat
  ai_sector_size :: nat
  ai_version_caps :: "(nat \<times> nat) option"
  ai_flash_mem :: "nat option"

definition get_info :: "'s link \<Rightarrow> nat \<Rightarrow> ('s client, AgentInfo option) io" where
  "get_info L fuel =
     io_then (clear_rx_buffers L)
     (io_then (send_packet L CMD_INFO [])
     (io_bind (recv_response L fuel 5000000) (\<lambda>(cmd, data).
       if cmd \<noteq> RSP_INFO \<or> length data < 16 then io_return None
       else let info = \<lparr>ai_jedec_id = take 3 data, ai_flash_size = le32_at 4 data, ai_ram_base = le32_at 8 data,
                        ai_sector_size = le32_at 12 data,
                        ai_version_caps = (if 24 \<le> length data then Some (le32_at 16 data, le32_at 20 data) else None),
                        ai_flash_mem = (if 28 \<le> length data then Some (le32_at 24 data) else None)\<rparr>
         in io_then (io_modify (\<lambda>st. st\<lparr>cl_flash_size := ai_flash_size info, cl_ram_base := ai_ram_base info,
                        cl_sector_size := ai_sector_size info,
                        cl_flash_mem := (case ai_flash_mem info of Some m \<Rightarrow> m | None \<Rightarrow> cl_flash_mem st)\<rparr>))
              (io_return (Some info)))))"

text \<open>Reading memory: numbered data packets up to the final acknowledgement.\<close>

fun read_loop :: "'s link \<Rightarrow> nat \<Rightarrow> nat \<Rightarrow> nat \<Rightarrow> bytes \<Rightarrow> nat \<Rightarrow> ('s client, bytes) io" where
  "read_loop L rx_fuel 0 sz received expected_seq = io_diverge"
| "read_loop L rx_fuel (Suc fuel) sz received expected_seq =
     io_bind (recv_packet L rx_fuel 60000000) (\<lambda>(cmd, data).
       if cmd = RSP_READY then read_loop L rx_fuel fuel sz received expected_seq
       else if cmd = RSP_DATA \<and> 2 < length data
       then if le_val (take 2 data) \<noteq> int expected_seq then io_raise RuntimeError
            else read_loop L rx_fuel fuel sz (received @ drop 2 data) ((expected_seq + 1) mod 65536)
       else if cmd = RSP_ACK
       then if (if data \<noteq> [] then hd data else 0) \<noteq> ACK_OK then io_raise RuntimeError
            else if length received \<noteq> sz then io_raise RuntimeError
            else io_return received
       else io_raise RuntimeError)"

definition read_transfer :: "'s link \<Rightarrow> nat \<Rightarrow> int \<Rightarrow> nat \<Rightarrow> ('s client, bytes) io" where
  "read_transfer L fuel addr sz =
     io_bind (io_lift (pack_le2 addr (int sz))) (\<lambda>payload.
       io_then (send_packet L CMD_READ payload) (read_loop L fuel fuel sz [] 0))"

definition fast_baud :: "'s link \<Rightarrow> nat \<Rightarrow> bool \<Rightarrow> nat \<Rightarrow> ('s client, unit) io" where
  "fast_baud L fuel fast sz =
     (if fast \<and> 4096 < sz then io_then (switch_baud L fuel DEFAULT_FAST_BAUD) (io_return ()) else io_return ())"

definition read_memory :: "'s link \<Rightarrow> nat \<Rightarrow> int \<Rightarrow> nat \<Rightarrow> bool \<Rightarrow> ('s client, bytes) io" where
  "read_memory L fuel addr sz fast =
     io_then (clear_rx_buffers L) (io_then (fast_baud L fuel fast sz) (read_transfer L fuel addr sz))"


section \<open>Writing\<close>

text \<open>Data packets, numbered from \<open>seq\<close>, for the bytes of a block from \<open>offset\<close> on.\<close>

function stream_data :: "'s link \<Rightarrow> bytes \<Rightarrow> nat \<Rightarrow> nat \<Rightarrow> ('s client, unit) io" where
  "stream_data L block offset seq =
     (if offset < length block then
        let chunk = min WRITE_CHUNK_SIZE (length block - offset) in
        io_bind (io_lift (pack_le 2 (int seq))) (\<lambda>s.
          io_then (send_packet L RSP_DATA (s @ pyslice offset (offset + chunk) block))
            (stream_data L block (offset + chunk) (seq + 1)))
      else io_return ())"
  by pat_completeness auto
termination
  by (relation "measure (\<lambda>(L, block, offset, seq). length block - offset)") (auto simp: WRITE_CHUNK_SIZE_def)

declare stream_data.simps [simp del]

definition write_block :: "'s link \<Rightarrow> nat \<Rightarrow> int \<Rightarrow> bytes \<Rightarrow> ('s client, bool) io" where
  "write_block L fuel addr data =
     io_then (clear_rx_buffers L)
     (io_bind (io_lift (pack_le3 addr (int (length data)) (crc32 data))) (\<lambda>payload.
     io_then (send_packet L CMD_WRITE payload)
     (io_bind (recv_response L fuel 10000000) (\<lambda>rsp.
     io_bind (io_lift (ack_ok rsp)) (\<lambda>ok.
     if \<not> ok then io_return False
     else io_then (stream_data L data 0 0)
       (io_bind (recv_response L fuel (max 60000000 (int (length data) * 20))) (\<lambda>rsp.
         io_lift (ack_ok rsp))))))))"

text \<open>One window: up to \<open>n\<close> blocks without waiting; the new offset and the number of blocks sent.\<close>

fun send_window :: "'s link \<Rightarrow> int \<Rightarrow> bytes \<Rightarrow> nat \<Rightarrow> nat \<Rightarrow> nat \<Rightarrow> ('s client, nat \<times> nat) io" where
  "send_window L addr data 0 offset blocks_sent = io_return (offset, blocks_sent)"
| "send_window L addr data (Suc n) offset blocks_sent =
     (if length data \<le> offset then io_return (offset, blocks_sent)
      else let block_size = min WRITE_MAX_TRANSFER (length data - offset);
               block = pyslice offset (offset + block_size) data in
        io_bind (io_lift (pack_le3 (addr + int offset) (int block_size) (crc32 block))) (\<lambda>payload.
        io_then (send_packet L CMD_WRITE payload)
        (io_then (stream_data L block 0 0)
          (send_window L addr data n (offset + block_size) (blocks_sent + 1)))))"

definition block_acks :: "'s link \<Rightarrow> nat \<Rightarrow> ('s client, bool) io" where
  "block_acks L fuel =
     io_bind (recv_response L fuel 10000000) (\<lambda>rsp.
     io_bind (io_lift (ack_ok rsp)) (\<lambda>ok.
     if \<not> ok then io_return False
     else io_bind (recv_response L fuel 60000000) (\<lambda>rsp. io_lift (ack_ok rsp))))"

fun window_acks :: "'s link \<Rightarrow> nat \<Rightarrow> nat \<Rightarrow> ('s client, bool) io" where
  "window_acks L fuel 0 = io_return True"
| "window_acks L fuel (Suc n) =
     io_try (block_acks L fuel) (\<lambda>_. io_return False)
       (\<lambda>ok. if ok then window_acks L fuel n else io_return False)"

fun retry_blocks :: "'s link \<Rightarrow> nat \<Rightarrow> int \<Rightarrow> bytes \<Rightarrow> nat \<Rightarrow> nat \<Rightarrow> ('s client, nat option) io" where
  "retry_blocks L fuel addr data 0 offset = io_return (Some offset)"
| "retry_blocks L fuel addr data (Suc n) offset =
     (if length data \<le> offset then io_return (Some offset)
      else let block_size = min WRITE_MAX_TRANSFER (length data - offset) in
        io_bind (write_block L fuel (addr + int offset) (pyslice offset (offset + block_size) data)) (\<lambda>ok.
          if \<not> ok then io_return None
          else retry_blocks L fuel addr data n (offset + block_size)))"

definition drain_stale_acks :: "'s link \<Rightarrow> ('s client, unit) io" where
  "drain_stale_acks L =
     io_then (clear_rx_buffers L)
     (io_then (on_agent (tr_sleep (lk_transport L) 500000))
       (case lk_port L of
          Some port \<Rightarrow> io_then (on_agent (sp_reset_input_buffer port)) (io_modify (\<lambda>st. st\<lparr>ag_portbuf := []\<rparr>))
        | None \<Rightarrow> io_return ()))"

definition window_for :: "nat \<Rightarrow> nat" where
  "window_for remaining = min WRITE_WINDOW ((remaining + WRITE_MAX_TRANSFER - 1) div WRITE_MAX_TRANSFER)"

text \<open>Every round of the outer loop passes at least one block, so one round per byte is more than enough.\<close>

fun write_windows :: "'s link \<Rightarrow> nat \<Rightarrow> nat \<Rightarrow> int \<Rightarrow> bytes \<Rightarrow> nat \<Rightarrow> nat \<Rightarrow> ('s client, bool) io" where
  "write_windows L rx_fuel 0 addr data offset window = io_diverge"
| "write_windows L rx_fuel (Suc fuel) addr data offset window =
     (if offset < length data then
        io_bind (send_window L addr data window offset 0) (\<lambda>(offset', blocks_sent).
        io_bind (window_acks L rx_fuel blocks_sent) (\<lambda>all_ok.
        if all_ok then write_windows L rx_fuel fuel addr data offset' window
        else io_then (drain_stale_acks L)
          (io_bind (retry_blocks L rx_fuel addr data blocks_sent offset) (\<lambda>retried.
            case retried of
              None \<Rightarrow> io_return False
            | Some offset'' \<Rightarrow>
                write_windows L rx_fuel fuel addr data offset'' (window_for (length data - offset''))))))
      else io_return True)"

definition write_memory :: "'s link \<Rightarrow> nat \<Rightarrow> int \<Rightarrow> bytes \<Rightarrow> bool \<Rightarrow> ('s client, bool) io" where
  "write_memory L fuel addr data fast =
     io_then (clear_rx_buffers L)
     (io_then (fast_baud L fuel fast (length data))
       (write_windows L fuel (Suc (length data)) addr data 0 (window_for (length data))))"

fun erase_progress :: "'s link \<Rightarrow> nat \<Rightarrow> nat \<Rightarrow> ('s client, unit) io" where
  "erase_progress L fuel 0 = io_return ()"
| "erase_progress L fuel (Suc n) =
     io_bind (recv_packet L fuel 30000000) (\<lambda>_. erase_progress L fuel n)"

definition sector_size_or_default :: "'s client \<Rightarrow> nat" where
  "sector_size_or_default st = (if cl_sector_size st = 0 then 0x10000 else cl_sector_size st)"

definition erase_flash :: "'s link \<Rightarrow> nat \<Rightarrow> int \<Rightarrow> nat \<Rightarrow> ('s client, bool) io" where
  "erase_flash L fuel addr sz =
     io_bind (io_lift (pack_le2 addr (int sz))) (\<lambda>payload.
     io_then (send_packet L CMD_ERASE payload)
     (io_bind (recv_response L fuel 5000000) (\<lambda>rsp.
     io_bind (io_lift (ack_ok rsp)) (\<lambda>ok.
     if \<not> ok then io_return False
     else io_bind (io_get sector_size_or_default) (\<lambda>sector_sz.
       io_then (erase_progress L fuel (sz div sector_sz))
         (io_bind (recv_response L fuel 10000000) (\<lambda>rsp. io_lift (ack_ok rsp))))))))"

text \<open>Streaming to flash: a bitmap of the sectors that are not all 0xFF, then those sectors.\<close>

definition sector_at :: "nat \<Rightarrow> bytes \<Rightarrow> nat \<Rightarrow> bytes" where
  "sector_at sector_sz data s = pyslice (s * sector_sz) ((s + 1) * sector_sz) data"

definition num_sectors :: "nat \<Rightarrow> bytes \<Rightarrow> nat" where
  "num_sectors sector_sz data = (length data + sector_sz - 1) div sector_sz"

definition bitmap_set :: "nat \<Rightarrow> bytes \<Rightarrow> bytes" where
  "bitmap_set s bm = bm[s div 8 := bm ! (s div 8) OR push_bit (s mod 8) 1]"

definition bitmap_bit :: "bytes \<Rightarrow> nat \<Rightarrow> bool" where
  "bitmap_bit bm s \<longleftrightarrow> bm ! (s div 8) AND push_bit (s mod 8) 1 \<noteq> 0"

definition sector_bitmap :: "nat \<Rightarrow> bytes \<Rightarrow> bytes" where
  "sector_bitmap sector_sz data =
     (let n = num_sectors sector_sz data in
      fold (\<lambda>s bm. let sector_data = sector_at sector_sz data s in
               if sector_data \<noteq> replicate (length sector_data) 0xFF then bitmap_set s bm else bm)
        [0..<n] (replicate ((n + 7) div 8) 0))"

text \<open>Waiting for the progress of one sector: the value to return, or nothing to go on.\<close>

fun flash_progress :: "'s link \<Rightarrow> nat \<Rightarrow> nat \<Rightarrow> ('s client, bool option) io" where
  "flash_progress L rx_fuel 0 = io_diverge"
| "flash_progress L rx_fuel (Suc fuel) =
     io_bind (recv_packet L rx_fuel 120000000) (\<lambda>(cmd, data_pkt).
       if cmd = RSP_READY then flash_progress L rx_fuel fuel
       else if cmd = RSP_DATA then (if length data_pkt < 4 then io_raise IndexError else io_return None)
       else if cmd = RSP_ACK
       then (if data_pkt = [] then io_raise IndexError else io_return (Some (hd data_pkt = ACK_OK)))
       else io_return (Some False))"

definition send_sector :: "'s link \<Rightarrow> bytes \<Rightarrow> nat \<Rightarrow> bytes \<Rightarrow> nat \<Rightarrow> nat \<Rightarrow> ('s client, unit) io" where
  "send_sector L data sector_sz bitmap s offset =
     (if bitmap_bit bitmap s
      then stream_data L (pyslice offset (offset + min sector_sz (length data - offset)) data) 0 (offset div WRITE_CHUNK_SIZE)
      else io_return ())"

fun flash_sectors :: "'s link \<Rightarrow> nat \<Rightarrow> bytes \<Rightarrow> nat \<Rightarrow> bytes \<Rightarrow> nat list \<Rightarrow> nat \<Rightarrow> ('s client, bool option) io" where
  "flash_sectors L fuel data sector_sz bitmap [] offset = io_return None"
| "flash_sectors L fuel data sector_sz bitmap (s # rest) offset =
     (let sector_bytes = min sector_sz (length data - offset) in
      io_then (send_sector L data sector_sz bitmap s offset)
        (io_bind (flash_progress L fuel fuel) (\<lambda>r. case r of
            Some b \<Rightarrow> io_return (Some b)
          | None \<Rightarrow> flash_sectors L fuel data sector_sz bitmap rest (offset + sector_bytes))))"

fun flash_final :: "'s link \<Rightarrow> nat \<Rightarrow> nat \<Rightarrow> ('s client, bool) io" where
  "flash_final L rx_fuel 0 = io_diverge"
| "flash_final L rx_fuel (Suc fuel) =
     io_bind (recv_packet L rx_fuel 120000000) (\<lambda>(cmd, data_pkt).
       if cmd = RSP_READY then flash_final L rx_fuel fuel
       else if cmd = RSP_ACK
       then (if data_pkt = [] then io_raise IndexError else io_return (hd data_pkt = ACK_OK))
       else if cmd = RSP_DATA then flash_final L rx_fuel fuel
       else io_return False)"

definition flash_transfer :: "'s link \<Rightarrow> nat \<Rightarrow> int \<Rightarrow> bytes \<Rightarrow> nat \<Rightarrow> ('s client, bool) io" where
  "flash_transfer L fuel addr data sector_sz =
     (let bitmap = sector_bitmap sector_sz data in
      io_bind (io_lift (pack_le3 addr (int (length data)) (crc32 data))) (\<lambda>payload.
      io_then (send_packet L CMD_FLASH_STREAM (payload @ bitmap))
      (io_bind (recv_response L fuel 10000000) (\<lambda>rsp.
      io_bind (io_lift (ack_ok rsp)) (\<lambda>ok.
      if \<not> ok then io_return False
      else io_bind (flash_sectors L fuel data sector_sz bitmap [0..<num_sectors sector_sz data] 0) (\<lambda>r. case r of
          Some b \<Rightarrow> io_return b
        | None \<Rightarrow> flash_final L fuel fuel))))))"

definition write_flash :: "'s link \<Rightarrow> nat \<Rightarrow> int \<Rightarrow> bytes \<Rightarrow> bool \<Rightarrow> ('s client, bool) io" where
  "write_flash L fuel addr data fast =
     io_then (clear_rx_buffers L)
     (io_then (fast_baud L fuel fast (length data))
     (io_bind (io_get sector_size_or_default) (\<lambda>sector_sz. flash_transfer L fuel addr data sector_sz)))"

section \<open>Checksums, scans, updates\<close>

definition crc32_of_device :: "'s link \<Rightarrow> nat \<Rightarrow> int \<Rightarrow> nat \<Rightarrow> ('s client, int) io" where
  "crc32_of_device L fuel addr sz =
     io_then (clear_rx_buffers L)
     (io_bind (io_lift (pack_le2 addr (int sz))) (\<lambda>payload.
     io_then (send_packet L CMD_CRC32 payload)
     (io_bind (recv_response L fuel (max 15000000 (5000000 + int sz * 1000000 div 102400))) (\<lambda>(cmd, data).
       if cmd = RSP_ACK then io_raise RuntimeError
       else if cmd \<noteq> RSP_CRC32 \<or> length data < 4 then io_raise RuntimeError
       else io_return (le_val (take 4 data))))))"

definition verify :: "'s link \<Rightarrow> nat \<Rightarrow> int \<Rightarrow> bytes \<Rightarrow> ('s client, bool) io" where
  "verify L fuel addr data =
     io_bind (crc32_of_device L fuel addr (length data)) (\<lambda>device_crc. io_return (crc32 data = device_crc))"

definition membw :: "'s link \<Rightarrow> nat \<Rightarrow> int \<Rightarrow> int \<Rightarrow> int \<Rightarrow> ('s client, MembwResult) io" where
  "membw L fuel nbytes iters addr =
     io_then (clear_rx_buffers L)
     (io_bind (io_lift (pack_le3 nbytes iters addr)) (\<lambda>payload.
     io_then (send_packet L CMD_MEMBW payload)
     (let nominal = max nbytes (4 * 1024 * 1024) * max iters 8 * 3 in
      io_bind (recv_response L fuel (max 30000000 (5000000 + nominal * 1000000 div (50 * 1024 * 1024)))) (\<lambda>(cmd, data).
       if cmd = RSP_ACK then io_raise RuntimeError
       else if cmd \<noteq> RSP_MEMBW \<or> length data < 32 then io_raise RuntimeError
       else io_return \<lparr>mb_addr = int (le32_at 0 data), mb_size_bytes = int (le32_at 4 data), mb_iters = int (le32_at 8 data),
              mb_timer_hz = int (le32_at 12 data), mb_memset_ticks = int (le32_at 16 data),
              mb_read_ticks = int (le32_at 20 data), mb_memcpy_ticks = int (le32_at 24 data)\<rparr>))))"

text \<open>Decoding the records of one scan packet, five bytes each, behind the sectors known so far.\<close>

function scan_entries :: "nat \<Rightarrow> nat \<Rightarrow> bytes \<Rightarrow> nat \<Rightarrow> SectorResult list \<Rightarrow> SectorResult list" where
  "scan_entries sector_sz count data offset sectors =
     (if offset + 5 \<le> length data \<and> length sectors < count
      then scan_entries sector_sz count data (offset + 5)
        (sectors @ [\<lparr>sr_index = length sectors, sr_address = length sectors * sector_sz,
           sr_status = SectorStatus_of (data ! offset), sr_crc32 = le_val (pyslice (offset + 1) (offset + 5) data)\<rparr>])
      else sectors)"
  by pat_completeness auto
termination
  by (relation "measure (\<lambda>(sector_sz, count, data, offset, sectors). length data - offset)") auto

declare scan_entries.simps [simp del]

text \<open>The sectors, and whether the loop ended on an acknowledgement.\<close>

fun scan_loop :: "'s link \<Rightarrow> nat \<Rightarrow> nat \<Rightarrow> nat \<Rightarrow> SectorResult list \<Rightarrow> ('s client, SectorResult list \<times> bool) io" where
  "scan_loop L rx_fuel 0 count sectors = io_diverge"
| "scan_loop L rx_fuel (Suc fuel) count sectors =
     (if length sectors < count
      then io_bind (recv_packet L rx_fuel 30000000) (\<lambda>(cmd, data).
        if cmd = RSP_READY then scan_loop L rx_fuel fuel count sectors
        else if cmd = RSP_ACK then io_return (sectors, True)
        else if cmd \<noteq> RSP_SCAN then io_raise RuntimeError
        else io_bind (io_get cl_sector_size) (\<lambda>sector_sz.
          scan_loop L rx_fuel fuel count (scan_entries sector_sz count data 0 sectors)))
      else io_return (sectors, False))"

fun compat_sectors :: "'s link \<Rightarrow> nat \<Rightarrow> nat \<Rightarrow> nat \<Rightarrow> int \<Rightarrow> nat list \<Rightarrow> ('s client, SectorResult list) io" where
  "compat_sectors L fuel sector_sz flash_base empty_crc [] = io_return []"
| "compat_sectors L fuel sector_sz flash_base empty_crc (i # is) =
     (let addr = int (flash_base + i * sector_sz);
          entry = (\<lambda>status crc. \<lparr>sr_index = i, sr_address = i * sector_sz, sr_status = status, sr_crc32 = crc\<rparr>);
          go_on = (\<lambda>r. io_bind (compat_sectors L fuel sector_sz flash_base empty_crc is) (\<lambda>rs. io_return (r # rs)))
      in io_try (crc32_of_device L fuel addr sector_sz)
        (\<lambda>_. go_on (entry READ_ERROR 0))
        (\<lambda>crc1. if crc1 = empty_crc then go_on (entry EMPTY crc1)
           else io_bind (io_try (crc32_of_device L fuel addr sector_sz) (\<lambda>_. io_return crc1) io_return) (\<lambda>crc2.
             go_on (entry (if crc2 \<noteq> crc1 then UNSTABLE else GOOD) crc1))))"

definition scan_flash_compat :: "'s link \<Rightarrow> nat \<Rightarrow> ('s client, ScanResult) io" where
  "scan_flash_compat L fuel =
     io_bind (io_get sector_size_or_default) (\<lambda>sector_sz.
     io_bind (io_get cl_flash_size) (\<lambda>flash_sz0.
     io_bind (if flash_sz0 = 0
              then io_bind (get_info L fuel) (\<lambda>info. io_return (case info of None \<Rightarrow> 0 | Some i \<Rightarrow> ai_flash_size i))
              else io_return flash_sz0) (\<lambda>flash_sz.
     io_bind (io_get cl_flash_mem) (\<lambda>flash_base.
     io_bind (compat_sectors L fuel sector_sz flash_base (crc32 (replicate sector_sz 0xFF))
                [0..<flash_sz div sector_sz]) (\<lambda>sectors.
       io_return \<lparr>sc_sectors = sectors, sc_flash_size = flash_sz, sc_sector_size = sector_sz\<rparr>)))))"

definition scan_flash :: "'s link \<Rightarrow> nat \<Rightarrow> ('s client, ScanResult) io" where
  "scan_flash L fuel =
     io_then (clear_rx_buffers L)
     (io_then (switch_baud L fuel DEFAULT_FAST_BAUD)
     (io_then (send_packet L CMD_SCAN [])
     (io_bind (recv_response L fuel 10000000) (\<lambda>(cmd, data).
       if cmd = RSP_ACK then scan_flash_compat L fuel
       else if cmd \<noteq> RSP_SCAN \<or> length data < 4 then io_raise RuntimeError
       else io_bind (scan_loop L fuel fuel (le32_at 0 data) []) (\<lambda>(sectors, acked).
         io_then (if acked then io_return () else io_then (recv_response L fuel 5000000) (io_return ()))
           (io_bind (io_get (\<lambda>st. (cl_flash_size st, cl_sector_size st))) (\<lambda>(fs, ss).
             io_return \<lparr>sc_sectors = sectors, sc_flash_size = fs, sc_sector_size = ss\<rparr>)))))))"

definition selfupdate :: "'s link \<Rightarrow> nat \<Rightarrow> bytes \<Rightarrow> int \<Rightarrow> ('s client, bool) io" where
  "selfupdate L fuel firmware load_addr =
     io_then (clear_rx_buffers L)
     (io_bind (io_lift (pack_le3 load_addr (int (length firmware)) (crc32 firmware))) (\<lambda>payload.
     io_then (send_packet L CMD_SELFUPDATE payload)
     (io_bind (recv_response L fuel 5000000) (\<lambda>rsp.
     io_bind (io_lift (ack_ok rsp)) (\<lambda>ok.
     if \<not> ok then io_return False
     else io_then (stream_data L firmware 0 0)
       (io_bind (recv_response L fuel 30000000) (\<lambda>rsp.
       io_bind (io_lift (ack_ok rsp)) (\<lambda>ok.
         if ok then io_return True
         else if snd rsp = [] then io_raise IndexError else io_return False))))))))"

definition mark_bad_block :: "'s link \<Rightarrow> nat \<Rightarrow> int \<Rightarrow> ('s client, bool) io" where
  "mark_bad_block L fuel block =
     io_then (clear_rx_buffers L)
     (io_bind (io_lift (pack_le 4 block)) (\<lambda>payload.
     io_then (send_packet L CMD_MARK_BAD payload)
     (io_bind (recv_response L fuel 5000000) (\<lambda>rsp. io_lift (ack_ok rsp)))))"

definition reboot :: "'s link \<Rightarrow> nat \<Rightarrow> ('s client, unit) io" where
  "reboot L fuel =
     io_then (clear_rx_buffers L)
     (io_then (send_packet L CMD_REBOOT [])
       (io_try (recv_response L fuel 5000000) (\<lambda>_. io_return ()) (\<lambda>_. io_return ())))"


section \<open>Reading: no gap, no loss\<close>

text \<open>Data packets with consecutive 16-bit numbers.\<close>

fun numbered :: "nat \<Rightarrow> bytes list \<Rightarrow> packet list" where
  "numbered seq [] = []"
| "numbered seq (c # cs) = (RSP_DATA, le_bytes 2 (int seq) @ c) # numbered ((seq + 1) mod 65536) cs"

context observed_link
begin

text \<open>The packets \<open>out\<close> were sent and the packets \<open>ps\<close> received.\<close>

definition exchanged :: "('s, 'z) agent_scheme \<Rightarrow> packet list \<Rightarrow> packet list \<Rightarrow> ('s, 'z) agent_scheme \<Rightarrow> bool" where
  "exchanged st out ps st' \<longleftrightarrow> txs st' = txs st @ map (\<lambda>p. build_packet (fst p) (snd p)) out
     \<and> (\<exists>new. rxs st' = rxs st @ new \<and> take_packets (length ps) (pending st @ new) = (ps, pending st'))"

abbreviation carried :: "('s, 'z) agent_scheme \<Rightarrow> packet list \<Rightarrow> ('s, 'z) agent_scheme \<Rightarrow> bool" where
  "carried st ps st' \<equiv> exchanged st [] ps st'"

lemma exchanged_Nil [simp]: "exchanged st [] [] st"
  by (simp add: exchanged_def)

lemma exchanged_trans:
  assumes "exchanged st a ps st1" "exchanged st1 b qs st2"
  shows "exchanged st (a @ b) (ps @ qs) st2"
proof -
  obtain x y where "rxs st1 = rxs st @ x" "take_packets (length ps) (pending st @ x) = (ps, pending st1)"
    "rxs st2 = rxs st1 @ y" "take_packets (length qs) (pending st1 @ y) = (qs, pending st2)"
    using assms by (auto simp: exchanged_def)
  then have "take_packets (length ps + length qs) ((pending st @ x) @ y) = (ps @ qs, pending st2)"
    by (intro take_packets_append) auto
  then show ?thesis
    using assms \<open>rxs st1 = _\<close> \<open>rxs st2 = _\<close> by (auto simp: exchanged_def intro!: exI [of _ "x @ y"])
qed

lemma carried_single: "received [] st (Inr p) st1 \<Longrightarrow> carried st [p] st1"
  by (auto simp: received_def exchanged_def first_packet_def)

lemma carried_Cons: "received [] st (Inr p) st1 \<Longrightarrow> exchanged st1 out ps st' \<Longrightarrow> exchanged st out (p # ps) st'"
  using exchanged_trans [OF carried_single, of st p st1 out ps st'] by simp

lemma send_packet_exchanged:
  "(\<And>r st1. exchanged st [(cmd, d)] [] st1 \<Longrightarrow> Q r st1) \<Longrightarrow> wlp (send_packet L cmd d) st Q"
  by (rule send_packet_obs) (auto simp: exchanged_def pending_def split: option.split)

lemma received_tx: "received f st r st' \<Longrightarrow> txs st' = txs st"
  by (simp add: received_def)

lemma recv_packet_carried:
  assumes "\<And>p st1. received [] st (Inr p) st1 \<Longrightarrow> txs st1 = txs st \<Longrightarrow> Q (Inr p) st1" "\<And>e st1. txs st1 = txs st \<Longrightarrow> Q (Inl e) st1"
  shows "wlp (recv_packet L fuel timeout) st Q"
proof (rule wlp_mono [OF recv_packet_received])
  show "Q r st1" if "received [] st r st1" for r st1
    using that assms by (cases r) (auto simp: received_tx)
qed

text \<open>What was received when a read of \<open>sz\<close> bytes returns \<open>d\<close>, with \<open>got\<close> received before.\<close>

definition read_done :: "bytes \<Rightarrow> nat \<Rightarrow> nat \<Rightarrow> ('s, 'z) agent_scheme \<Rightarrow> bytes \<Rightarrow> ('s, 'z) agent_scheme \<Rightarrow> bool" where
  "read_done got seq sz st d st' \<longleftrightarrow> length d = sz \<and> (\<exists>ps chunks ack. carried st ps st'
     \<and> filter (\<lambda>p. fst p \<noteq> RSP_READY) ps = numbered seq chunks @ [(RSP_ACK, ack)]
     \<and> (ack = [] \<or> hd ack = ACK_OK) \<and> d = got @ concat chunks)"

lemma read_done_ready:
  assumes "received [] st (Inr (RSP_READY, x)) st1" "read_done got seq sz st1 d st'"
  shows "read_done got seq sz st d st'"
proof -
  obtain ps chunks ack where "carried st1 ps st'"
    "filter (\<lambda>p. fst p \<noteq> RSP_READY) ps = numbered seq chunks @ [(RSP_ACK, ack)]"
    "ack = [] \<or> hd ack = ACK_OK" "d = got @ concat chunks" "length d = sz"
    using assms(2) by (auto simp: read_done_def)
  then show ?thesis
    using carried_Cons [OF assms(1)] unfolding read_done_def
    by (intro conjI exI [of _ "(RSP_READY, x) # ps"] exI [of _ chunks] exI [of _ ack]) auto
qed

lemma read_done_data:
  assumes "received [] st (Inr (RSP_DATA, x)) st1" "read_done (got @ drop 2 x) ((seq + 1) mod 65536) sz st1 d st'"
    "2 < length x" "le_val (take 2 x) = int seq"
  shows "read_done got seq sz st d st'"
proof -
  obtain ps chunks ack where "carried st1 ps st'"
    "filter (\<lambda>p. fst p \<noteq> RSP_READY) ps = numbered ((seq + 1) mod 65536) chunks @ [(RSP_ACK, ack)]"
    "ack = [] \<or> hd ack = ACK_OK" "d = (got @ drop 2 x) @ concat chunks" "length d = sz"
    using assms(2) by (auto simp: read_done_def)
  moreover have "x = le_bytes 2 (int seq) @ drop 2 x"
    using assms(3,4) le_bytes_le_val [of "take 2 x" 2] by (simp add: append_eq_conv_conj)
  ultimately show ?thesis
    using carried_Cons [OF assms(1)] unfolding read_done_def
    by (intro conjI exI [of _ "(RSP_DATA, x) # ps"] exI [of _ "drop 2 x # chunks"] exI [of _ ack])
       (auto simp: rsp_defs)
qed

lemma read_done_ack:
  assumes "received [] st (Inr (RSP_ACK, x)) st1" "x = [] \<or> hd x = ACK_OK"
  shows "read_done d seq (length d) st d st1"
  using carried_single [OF assms(1)] assms(2) unfolding read_done_def
  by (intro conjI exI [of _ "[(RSP_ACK, x)]"] exI [of _ "[]"] exI [of _ x]) (auto simp: rsp_defs)

lemma read_loop_done:
  "wlp (read_loop L f fuel sz got seq) st (\<lambda>r st'. txs st' = txs st \<and> (\<forall>d. r = Inr d \<longrightarrow> read_done got seq sz st d st'))"
proof (induction fuel arbitrary: st got seq sz)
  case (Suc fuel)
  let ?post = "\<lambda>k n r st'. txs st' = txs st \<and> (\<forall>d. r = Inr d \<longrightarrow> read_done got k n st d st')"
  have ready: "wlp (read_loop L f fuel n got k) st1 (?post k n)"
    if "received [] st (Inr (RSP_READY, x)) st1" "txs st1 = txs st" for x st1 n k
    using that by (intro wlp_mono [OF Suc.IH]) (auto dest: read_done_ready)
  have data: "wlp (read_loop L f fuel n (got @ drop 2 x) (Suc k mod 65536)) st1 (?post k n)"
    if "received [] st (Inr (RSP_DATA, x)) st1" "txs st1 = txs st" "2 < length x" "le_val (take 2 x) = int k" for x st1 n k
    using that by (intro wlp_mono [OF Suc.IH]) (auto dest: read_done_data)
  have ack: "read_done got k (length got) st got st1"
    if "received [] st (Inr (RSP_ACK, x)) st1" "x \<noteq> [] \<longrightarrow> hd x = ACK_OK" for x st1 k
    using read_done_ack [OF that(1)] that(2) by blast
  show ?case
    by (auto simp: wp ready data ack intro!: recv_packet_carried split: if_splits)
qed (simp add: wp)

end

section \<open>Writing: the sectors on the wire\<close>

fun data_from :: "nat \<Rightarrow> bytes list \<Rightarrow> packet list" where
  "data_from seq [] = []"
| "data_from seq (c # cs) = (RSP_DATA, le_bytes 2 (int seq) @ c) # data_from (seq + 1) cs"

definition data_packets :: "nat \<Rightarrow> bytes \<Rightarrow> packet list" where
  "data_packets seq block = data_from seq (chunks_from WRITE_CHUNK_SIZE block)"

definition all_ff :: "bytes \<Rightarrow> bool" where
  "all_ff d \<longleftrightarrow> d = replicate (length d) 0xFF"

definition sector_packets :: "nat \<Rightarrow> bytes \<Rightarrow> nat \<Rightarrow> packet list" where
  "sector_packets sz data s =
     (if all_ff (sector_at sz data s) then [] else data_packets (s * sz div WRITE_CHUNK_SIZE) (sector_at sz data s))"

definition reports :: "packet list \<Rightarrow> nat" where
  "reports ps = length (filter (\<lambda>p. fst p = RSP_DATA) ps)"

definition acknowledged :: "packet list \<Rightarrow> bool" where
  "acknowledged ps \<longleftrightarrow> (\<exists>qs x. ps = qs @ [(RSP_ACK, ACK_OK # x)])"

lemma bitmap_bit_iff: "s mod 8 < 8 \<Longrightarrow> bitmap_bit bm s \<longleftrightarrow> bit (bm ! (s div 8)) (s mod 8)"
  by (simp add: bitmap_bit_def push_bit_eq_mult and_exp_eq_0_iff_not_bit)

lemma bitmap_set_bit:
  assumes "t div 8 < length bm"
  shows "bitmap_bit (bitmap_set t bm) s \<longleftrightarrow> s = t \<or> bitmap_bit bm s"
proof -
  have "s = t" if "s div 8 = t div 8" "s mod 8 = t mod 8"
    using that by (metis div_mod_decomp)
  then show ?thesis
    using assms by (cases "s div 8 = t div 8")
      (auto simp: bitmap_bit_iff bitmap_set_def bit_or_iff bit_exp_iff possible_bit_word)
qed

lemma length_bitmap_set [simp]: "length (bitmap_set s bm) = length bm"
  by (simp add: bitmap_set_def)

lemma bitmap_fold:
  "\<forall>s \<in> set ss. s div 8 < length bm \<Longrightarrow>
   bitmap_bit (fold (\<lambda>s bm. if sector_at sz data s \<noteq> replicate (length (sector_at sz data s)) 0xFF
       then bitmap_set s bm else bm) ss bm) k
     \<longleftrightarrow> bitmap_bit bm k \<or> (k \<in> set ss \<and> \<not> all_ff (sector_at sz data k))"
  by (induction ss arbitrary: bm) (auto simp: bitmap_set_bit all_ff_def)

lemma sector_bitmap_bit:
  assumes "k < num_sectors sz data"
  shows "bitmap_bit (sector_bitmap sz data) k \<longleftrightarrow> \<not> all_ff (sector_at sz data k)"
proof -
  have "s div 8 < (num_sectors sz data + 7) div 8" if "s < num_sectors sz data" for s
    using that by linarith
  moreover from this [OF assms] have "\<not> bitmap_bit (replicate ((num_sectors sz data + 7) div 8) 0) k"
    by (simp add: bitmap_bit_def)
  ultimately show ?thesis
    using assms by (simp add: sector_bitmap_def Let_def bitmap_fold del: replicate_Suc)
qed


lemma reports_append [simp]: "reports (ps @ qs) = reports ps + reports qs"
  by (simp add: reports_def)

lemma reports_simps [simp]: "reports [] = 0" "reports (p # ps) = (if fst p = RSP_DATA then 1 else 0) + reports ps"
  by (simp_all add: reports_def)

lemma acknowledged_append: "acknowledged qs \<Longrightarrow> acknowledged (ps @ qs)"
  unfolding acknowledged_def by (metis append.assoc)

lemma acknowledged_Cons: "acknowledged qs \<Longrightarrow> acknowledged (p # qs)"
  using acknowledged_append [of qs "[p]"] by simp

lemma num_sectors_less: "0 < sz \<Longrightarrow> i < num_sectors sz data \<longleftrightarrow> i * sz < length data"
  using less_eq_div_iff_mult_less_eq [of sz "Suc i" "length data + sz - 1"]
  unfolding num_sectors_def by (auto simp: Suc_le_eq)

context observed_link
begin

lemma exchanged_step:
  "exchanged st a ps st1 \<Longrightarrow> exchanged st1 b qs st2 \<Longrightarrow> out = a @ b \<Longrightarrow> got = ps @ qs \<Longrightarrow> exchanged st out got st2"
  by (simp add: exchanged_trans)

lemma stream_data_sent:
  "wlp (stream_data L block off seq) st (\<lambda>r st'. \<forall>u. r = Inr u \<longrightarrow> exchanged st (data_packets seq (drop off block)) [] st')"
proof (induction "length block - off" arbitrary: off seq st rule: less_induct)
  case less
  show ?case
  proof (cases "off < length block")
    case False
    then show ?thesis by (subst stream_data.simps) (simp add: wp data_packets_def)
  next
    case True
    let ?n = "min WRITE_CHUNK_SIZE (length block - off)"
    have chunks: "chunks_from WRITE_CHUNK_SIZE (drop off block)
        = pyslice off (off + ?n) block # chunks_from WRITE_CHUNK_SIZE (drop (off + ?n) block)"
      using True chunks_from_step [of WRITE_CHUNK_SIZE "drop off block"]
      by (auto simp: WRITE_CHUNK_SIZE_def pyslice_def min_def add.commute)
    have rest: "wlp (stream_data L block (off + ?n) (seq + 1)) st1
        (\<lambda>r st'. \<forall>u. r = Inr u \<longrightarrow> exchanged st (data_packets seq (drop off block)) [] st')"
      if "exchanged st [(RSP_DATA, le_bytes 2 (int seq) @ pyslice off (off + ?n) block)] [] st1" for st1
      using True
      by (intro wlp_mono [OF less])
         (auto simp: WRITE_CHUNK_SIZE_def data_packets_def chunks [simplified WRITE_CHUNK_SIZE_def] intro!: exchanged_step [OF that [simplified WRITE_CHUNK_SIZE_def]])
    show ?thesis
      using True
      by (subst stream_data.simps)
         (auto simp: wp Let_def pack_le_def intro!: send_packet_exchanged rest [simplified] split: sum.split)
  qed
qed

text \<open>How waiting for one sector ends, and how the whole loop over the sectors \<open>ss\<close> ends.\<close>

definition sector_done :: "('s, 'z) agent_scheme \<Rightarrow> bool option \<Rightarrow> ('s, 'z) agent_scheme \<Rightarrow> bool" where
  "sector_done st x st' \<longleftrightarrow> (\<exists>ps. carried st ps st' \<and> (case x of
     None \<Rightarrow> reports ps = 1
   | Some b \<Rightarrow> reports ps = 0 \<and> (b \<longrightarrow> acknowledged ps)))"

lemma sector_done_ready:
  "received [] st (Inr (RSP_READY, x)) st1 \<Longrightarrow> sector_done st1 r st' \<Longrightarrow> sector_done st r st'"
  unfolding sector_done_def
  by (elim exE conjE, rule exI [of _ "(RSP_READY, x) # _"]) (auto intro: carried_Cons acknowledged_Cons split: option.splits)

lemma sector_done_one:
  assumes "received [] st (Inr p) st1"
    "case r of None \<Rightarrow> fst p = RSP_DATA | Some b \<Rightarrow> fst p \<noteq> RSP_DATA \<and> (b \<longrightarrow> acknowledged [p])"
  shows "sector_done st r st1"
  unfolding sector_done_def
  using carried_single [OF assms(1)] assms(2) by (intro exI [of _ "[p]"]) (auto split: option.splits)

lemma ack_acknowledged: "x \<noteq> [] \<Longrightarrow> hd x = ACK_OK \<Longrightarrow> acknowledged [(RSP_ACK, x)]"
  unfolding acknowledged_def by (cases x) auto

lemma flash_progress_done: "wlp (flash_progress L f fuel) st (\<lambda>r st'. \<forall>x. r = Inr x \<longrightarrow> sector_done st x st')"
proof (induction fuel arbitrary: st)
  case (Suc fuel)
  have ready: "wlp (flash_progress L f fuel) st1 (\<lambda>r st'. \<forall>x. r = Inr x \<longrightarrow> sector_done st x st')"
    if "received [] st (Inr (RSP_READY, x)) st1" for x st1
    using that by (intro wlp_mono [OF Suc.IH]) (auto dest: sector_done_ready)
  show ?case
    by (auto simp: wp ready sector_done_one ack_acknowledged intro!: recv_packet_carried split: if_splits)
qed (simp add: wp)

definition sectors_done ::
  "nat \<Rightarrow> bytes \<Rightarrow> nat list \<Rightarrow> ('s, 'z) agent_scheme \<Rightarrow> bool option \<Rightarrow> ('s, 'z) agent_scheme \<Rightarrow> bool" where
  "sectors_done sz data ss st x st' \<longleftrightarrow> (\<exists>ps k. k \<le> length ss
     \<and> exchanged st (concat (map (sector_packets sz data) (take k ss))) ps st' \<and> (case x of
          None \<Rightarrow> k = length ss \<and> reports ps = k
        | Some b \<Rightarrow> k = Suc (reports ps) \<and> (b \<longrightarrow> acknowledged ps)))"

lemma sectors_done_Nil: "sectors_done sz data [] st None st"
  by (auto simp: sectors_done_def intro!: exI [of _ "[]"])

lemma sectors_done_stop:
  assumes "exchanged st (sector_packets sz data s) [] st1" "sector_done st1 (Some b) st'"
  shows "sectors_done sz data (s # ss) st (Some b) st'"
proof -
  obtain ps where "carried st1 ps st'" "reports ps = 0" "b \<longrightarrow> acknowledged ps"
    using assms(2) by (auto simp: sector_done_def)
  then show ?thesis
    using exchanged_trans [OF assms(1)]
    unfolding sectors_done_def by (intro exI [of _ ps] exI [of _ 1]) (auto dest: exchanged_trans [OF assms(1)])
qed

lemma sectors_done_step:
  assumes "exchanged st (sector_packets sz data s) [] st1" "sector_done st1 None st2" "sectors_done sz data ss st2 x st'"
  shows "sectors_done sz data (s # ss) st x st'"
proof -
  obtain ps where ps: "carried st1 ps st2" "reports ps = 1"
    using assms(2) by (auto simp: sector_done_def)
  obtain qs k where "k \<le> length ss" "exchanged st2 (concat (map (sector_packets sz data) (take k ss))) qs st'"
    "case x of None \<Rightarrow> k = length ss \<and> reports qs = k | Some b \<Rightarrow> k = Suc (reports qs) \<and> (b \<longrightarrow> acknowledged qs)"
    using assms(3) by (auto simp: sectors_done_def)
  then show ?thesis
    using exchanged_trans [OF exchanged_trans [OF assms(1) ps(1)]] ps(2)
    unfolding sectors_done_def
    by (intro exI [of _ "ps @ qs"] exI [of _ "Suc k"]) (auto intro: acknowledged_append split: option.splits)
qed

lemma send_sector_sent:
  assumes "0 < sz" "i < num_sectors sz data"
  shows "wlp (send_sector L data sz (sector_bitmap sz data) i (i * sz)) st
    (\<lambda>r st'. \<forall>u. r = Inr u \<longrightarrow> exchanged st (sector_packets sz data i) [] st')"
proof -
  have "pyslice (i * sz) (i * sz + min sz (length data - i * sz)) data = sector_at sz data i"
    by (simp add: pyslice_def sector_at_def min_def)
  then show ?thesis
    using stream_data_sent [of "sector_at sz data i" 0 "i * sz div WRITE_CHUNK_SIZE" st]
    by (auto simp: send_sector_def sector_bitmap_bit [OF assms(2)] sector_packets_def wp)
qed

lemma flash_sectors_done:
  assumes "0 < sz"
  shows "i \<le> num_sectors sz data \<Longrightarrow> (i < num_sectors sz data \<longrightarrow> off = i * sz) \<Longrightarrow>
    wlp (flash_sectors L f data sz (sector_bitmap sz data) [i..<num_sectors sz data] off) st
      (\<lambda>r st'. \<forall>x. r = Inr x \<longrightarrow> sectors_done sz data [i..<num_sectors sz data] st x st')"
proof (induction "num_sectors sz data - i" arbitrary: i off st)
  case 0
  then show ?case by (simp add: wp sectors_done_Nil)
next
  case (Suc k)
  let ?n = "num_sectors sz data"
  have i: "i < ?n" "off = i * sz" using Suc by simp_all
  have upt: "[i..<?n] = i # [Suc i..<?n]"
    using i(1) by (rule upt_conv_Cons)
  have next_off: "Suc i < ?n \<longrightarrow> i * sz + min sz (length data - i * sz) = Suc i * sz"
    using num_sectors_less [OF assms(1), of "Suc i" data] by auto
  have IH: "wlp (flash_sectors L f data sz (sector_bitmap sz data) [Suc i..<?n] (i * sz + min sz (length data - i * sz))) st2
      (\<lambda>r st'. \<forall>x. r = Inr x \<longrightarrow> sectors_done sz data (i # [Suc i..<?n]) st x st')"
    if "exchanged st (sector_packets sz data i) [] st1" "sector_done st1 None st2" for st1 st2
    using that Suc.hyps(2) i next_off
    by (intro wlp_mono [OF Suc.hyps(1)]) (auto dest: sectors_done_step)
  show ?case
    unfolding upt flash_sectors.simps Let_def i(2)
    by (auto simp: wp i(1) simp del: upt_Suc intro!: wlp_mono [OF send_sector_sent [OF assms(1) i(1)]]
        wlp_mono [OF flash_progress_done] IH dest: sectors_done_stop split: sum.split option.split)
qed

definition read_sent :: "packet list \<Rightarrow> nat \<Rightarrow> ('s, 'z) agent_scheme \<Rightarrow> bytes \<Rightarrow> ('s, 'z) agent_scheme \<Rightarrow> bool" where
  "read_sent out sz st d st' \<longleftrightarrow> length d = sz \<and> (\<exists>ps chunks ack. exchanged st out ps st'
     \<and> filter (\<lambda>p. fst p \<noteq> RSP_READY) ps = numbered 0 chunks @ [(RSP_ACK, ack)]
     \<and> (ack = [] \<or> hd ack = ACK_OK) \<and> d = concat chunks)"

lemma read_sentI: "exchanged st out [] st1 \<Longrightarrow> read_done [] 0 sz st1 d st' \<Longrightarrow> read_sent out sz st d st'"
  unfolding read_sent_def read_done_def using exchanged_trans [of st out "[]" st1 "[]"] by fastforce

lemma read_transfer_sent:
  "wlp (read_transfer L fuel addr sz) st (\<lambda>r st'. case r of Inl e \<Rightarrow> True
     | Inr d \<Rightarrow> read_sent [(CMD_READ, le_bytes 4 addr @ le_bytes 4 (int sz))] sz st d st')"
  unfolding read_transfer_def pack_le2_def
  by (auto simp: wp sum_bind_def pack_le_def intro!: send_packet_exchanged wlp_mono [OF read_loop_done]
      intro: read_sentI split: sum.split if_splits)

lemma flash_final_done:
  "wlp (flash_final L f fuel) st (\<lambda>r st'. r = Inr True \<longrightarrow> (\<exists>ps. carried st ps st' \<and> acknowledged ps))"
proof (induction fuel arbitrary: st)
  case (Suc fuel)
  have again: "wlp (flash_final L f fuel) st1 (\<lambda>r st'. r = Inr True \<longrightarrow> (\<exists>ps. carried st ps st' \<and> acknowledged ps))"
    if "received [] st (Inr p) st1" for p st1
    using carried_Cons [OF that, of "[]"] by (intro wlp_mono [OF Suc.IH]) (blast intro: acknowledged_Cons)
  have one: "\<exists>ps. carried st ps st1 \<and> acknowledged ps"
    if "received [] st (Inr (RSP_ACK, x)) st1" "x \<noteq> []" "hd x = ACK_OK" for x st1
    using carried_single [OF that(1)] ack_acknowledged [OF that(2,3)] by blast
  show ?case
    by (auto simp: wp again one intro!: recv_packet_carried split: if_splits)
qed (simp add: wp)

definition responded :: "('s, 'z) agent_scheme \<Rightarrow> packet \<Rightarrow> ('s, 'z) agent_scheme \<Rightarrow> bool" where
  "responded st p st' \<longleftrightarrow> (\<exists>ps. carried st (ps @ [p]) st' \<and> (\<forall>q \<in> set ps. fst q = RSP_READY))"

lemma responded_ready: "received [] st (Inr (RSP_READY, x)) st1 \<Longrightarrow> responded st1 p st' \<Longrightarrow> responded st p st'"
  unfolding responded_def
  by (elim exE conjE, rule exI [of _ "(RSP_READY, x) # _"]) (auto intro: carried_Cons)

lemma responded_one: "received [] st (Inr p) st1 \<Longrightarrow> responded st p st1"
  unfolding responded_def by (rule exI [of _ "[]"]) (simp add: carried_single)

lemma recv_response_loop_carried:
  "wlp (recv_response_loop L f fuel timeout deadline) st (\<lambda>r st'. case r of Inl e \<Rightarrow> True | Inr p \<Rightarrow> responded st p st')"
proof (induction fuel arbitrary: st deadline)
  case (Suc fuel)
  have again: "wlp (recv_response_loop L f fuel timeout dl) st1 (\<lambda>r st'. case r of Inl e \<Rightarrow> True | Inr p \<Rightarrow> responded st p st')"
    if "received [] st (Inr (RSP_READY, x)) st1" for x st1 dl
    by (rule wlp_mono [OF Suc.IH]) (auto intro: responded_ready [OF that] split: sum.splits)
  show ?case
    by (auto simp: wp again responded_one simp del: split_paired_All intro!: recv_packet_carried split: if_splits)
qed (simp add: wp)

lemma recv_response_carried:
  "wlp (recv_response L fuel timeout) st (\<lambda>r st'. case r of Inl e \<Rightarrow> True | Inr p \<Rightarrow> responded st p st')"
  unfolding recv_response_def by (simp only: wp sum.case) (rule recv_response_loop_carried)

lemma reports_ready: "\<forall>q \<in> set ps. fst q = RSP_READY \<Longrightarrow> reports ps = 0"
  by (induction ps) auto

text \<open>What a successful transfer to flash exchanged.\<close>

definition flash_done :: "int \<Rightarrow> bytes \<Rightarrow> nat \<Rightarrow> ('s, 'z) agent_scheme \<Rightarrow> ('s, 'z) agent_scheme \<Rightarrow> bool" where
  "flash_done addr data sz st st' \<longleftrightarrow> (\<exists>ps. acknowledged ps
     \<and> exchanged st
         ((CMD_FLASH_STREAM, le_bytes 4 addr @ le_bytes 4 (int (length data)) @ le_bytes 4 (crc32 data) @ sector_bitmap sz data)
          # concat (map (sector_packets sz data) [0..<min (num_sectors sz data) (Suc (reports ps))])) ps st')"

lemma flash_doneI:
  assumes "exchanged st [(CMD_FLASH_STREAM, le_bytes 4 addr @ le_bytes 4 (int (length data)) @ le_bytes 4 (crc32 data) @ sector_bitmap sz data)] [] st1"
    and "responded st1 p st2" "ack_ok p = Inr True"
    and "sectors_done sz data [0..<num_sectors sz data] st2 x st3"
    and "case x of Some b \<Rightarrow> b \<and> st' = st3 | None \<Rightarrow> \<exists>ps. carried st3 ps st' \<and> acknowledged ps"
  shows "flash_done addr data sz st st'"
proof -
  obtain ps k where k: "k \<le> num_sectors sz data" "exchanged st2 (concat (map (sector_packets sz data) [0..<k])) ps st3"
    "case x of None \<Rightarrow> k = num_sectors sz data \<and> reports ps = k | Some b \<Rightarrow> k = Suc (reports ps) \<and> (b \<longrightarrow> acknowledged ps)"
    using assms(4) by (cases x) (auto simp: sectors_done_def min_def split: if_splits)
  obtain qs where qs: "carried st1 (qs @ [p]) st2" "\<forall>q \<in> set qs. fst q = RSP_READY"
    using assms(2) by (auto simp: responded_def)
  have "\<exists>rs. carried st3 rs st' \<and> acknowledged (ps @ rs) \<and> k = min (num_sectors sz data) (Suc (reports (ps @ rs)))"
  proof (cases x)
    case None
    then show ?thesis using k assms(5) by (auto intro: acknowledged_append)
  next
    case (Some b)
    then show ?thesis using k assms(5) by (intro exI [of _ "[]"]) auto
  qed
  then obtain rs where rs: "carried st3 rs st'" "acknowledged (ps @ rs)"
    "k = min (num_sectors sz data) (Suc (reports (ps @ rs)))" by blast
  have "fst p \<noteq> RSP_DATA" using assms(3) by (auto simp: ack_ok_def split: if_splits)
  then have "reports (qs @ [p]) = 0" using reports_ready [OF qs(2)] by simp
  then show ?thesis
    unfolding flash_done_def
    using exchanged_trans [OF assms(1) exchanged_trans [OF qs(1) exchanged_trans [OF k(2) rs(1)]]] rs(2,3)
    by (intro exI [of _ "(qs @ [p]) @ ps @ rs"]) (auto intro: acknowledged_append acknowledged_Cons)
qed

lemmas flash_done_early = flash_doneI [where x = "Some True", simplified]
lemmas flash_done_last = flash_doneI [where x = None, simplified]

lemma flash_transfer_done:
  assumes "0 < sz"
  shows "wlp (flash_transfer L fuel addr data sz) st (\<lambda>r st'. r = Inr True \<longrightarrow> flash_done addr data sz st st')"
  unfolding flash_transfer_def Let_def
  by (auto simp: wp pack_le3_def sum_bind_def pack_le_def
      intro!: send_packet_exchanged wlp_mono [OF recv_response_carried] wlp_mono [OF flash_final_done]
        wlp_mono [OF flash_sectors_done [OF assms, of 0, simplified]]
      dest: flash_done_early flash_done_last simp del: split_paired_All split: sum.split option.split if_splits)

end


section \<open>The image the agent programs\<close>

text \<open>The agent's side of a data packet: its bytes go to the place its number says.\<close>

definition program_packet :: "packet \<Rightarrow> bytes \<Rightarrow> bytes" where
  "program_packet p img =
     (let off = WRITE_CHUNK_SIZE * nat (le_val (take 2 (snd p))); c = drop 2 (snd p)
      in take off img @ c @ drop (off + length c) img)"

lemma program_block:
  "length pre = 512 * seq \<Longrightarrow> length pre + length block \<le> 512 * 65536 \<Longrightarrow> length block \<le> length post \<Longrightarrow>
   fold program_packet (data_packets seq block) (pre @ post) = pre @ block @ drop (length block) post"
proof (induction "length block" arbitrary: block pre post seq rule: less_induct)
  case less
  show ?case
  proof (cases "block = []")
    case True
    then show ?thesis by (simp add: data_packets_def)
  next
    case False
    let ?c = "take 512 block"
    have split: "data_packets seq block = (RSP_DATA, le_bytes 2 (int seq) @ ?c) # data_packets (seq + 1) (drop 512 block)"
      using False chunks_from_step [of WRITE_CHUNK_SIZE block] by (simp add: data_packets_def WRITE_CHUNK_SIZE_def)
    have "0 < length block" using False by simp
    then have "seq < 65536" using less.prems(1,2) by linarith
    then have "int seq mod 65536 = int seq" by simp
    then have first: "program_packet (RSP_DATA, le_bytes 2 (int seq) @ ?c) (pre @ post) = (pre @ ?c) @ drop (length ?c) post"
      using less.prems(1) by (simp add: program_packet_def WRITE_CHUNK_SIZE_def le_val_le_bytes Let_def)
    show ?thesis
    proof (cases "length block \<le> 512")
      case True
      moreover from this have "data_packets (seq + 1) (drop 512 block) = []" by (simp add: data_packets_def)
      ultimately show ?thesis using first by (simp add: split)
    next
      case False
      have "fold program_packet (data_packets (seq + 1) (drop 512 block)) ((pre @ ?c) @ drop (length ?c) post)
          = (pre @ ?c) @ drop 512 block @ drop (length (drop 512 block)) (drop (length ?c) post)"
        using False less.prems by (intro less.hyps) auto
      then show ?thesis using first False by (simp add: split)
    qed
  qed
qed

lemma sector_at_step:
  "take (k * sz) data @ sector_at sz data k = take (Suc k * sz) data"
  by (simp add: sector_at_def pyslice_append_take)

lemma flash_image_prefix:
  assumes "0 < sz" "512 dvd sz" "length data \<le> 512 * 65536"
  shows "k \<le> num_sectors sz data \<Longrightarrow>
   fold program_packet (concat (map (sector_packets sz data) [0..<k])) (replicate (length data) 0xFF)
     = take (k * sz) data @ replicate (length data - k * sz) 0xFF"
proof (induction k)
  case (Suc k)
  let ?b = "sector_at sz data k" and ?pre = "take (k * sz) data" and ?post = "replicate (length data - k * sz) 0xFF"
  have k: "k * sz < length data"
    using Suc.prems num_sectors_less [OF assms(1), of k data] by simp
  have len: "length ?b = min sz (length data - k * sz)"
    by (simp add: sector_at_def)
  have rest: "?pre @ ?b @ drop (length ?b) ?post = take (Suc k * sz) data @ replicate (length data - Suc k * sz) 0xFF"
    using sector_at_step [of k sz data] len k by (simp flip: append.assoc)
  have "fold program_packet (sector_packets sz data k) (?pre @ ?post) = ?pre @ ?b @ drop (length ?b) ?post"
  proof (cases "all_ff ?b")
    case True
    then have "?b = take (length ?b) ?post"
      using len by (metis all_ff_def min.absorb1 min.cobounded2 take_replicate)
    then have "?post = ?b @ drop (length ?b) ?post"
      by (metis append_take_drop_id)
    then show ?thesis using True by (simp add: sector_packets_def)
  next
    case False
    have "512 * (k * sz div 512) = k * sz" using assms(2) by simp
    then have "fold program_packet (data_packets (k * sz div 512) ?b) (?pre @ ?post) = ?pre @ ?b @ drop (length ?b) ?post"
      using k len assms(3) by (intro program_block) auto
    then show ?thesis
      using False by (simp add: sector_packets_def WRITE_CHUNK_SIZE_def)
  qed
  then show ?case using Suc rest by simp
qed simp


section \<open>Properties\<close>

text \<open>C16: reading memory is complete and free of gaps. When a transfer of \<open>sz\<close> bytes returns data,
  the request was sent once, the data has exactly \<open>sz\<close> bytes, and it is the payload of the data
  packets received for it: apart from READY announcements these carried consecutive numbers from 0
  (modulo 65536), none missing, and were followed by a positive acknowledgement. Every other course,
  such as a lost packet, raises an exception.\<close>

theorem read_transfer_complete:
  fixes L :: "'s link" and st :: "'s traced client"
  shows "wlp (read_transfer (trace_link L) fuel addr sz) st (\<lambda>r st'. case r of
     Inl e \<Rightarrow> True
   | Inr d \<Rightarrow> length d = sz
       \<and> link_tx (ag_world st') = link_tx (ag_world st) @ [build_packet CMD_READ (le_bytes 4 addr @ le_bytes 4 (int sz))]
       \<and> (\<exists>new ps chunks ack. link_rx (ag_world st') = link_rx (ag_world st) @ new
            \<and> take_packets (length ps) (held L st @ new) = (ps, held L st')
            \<and> filter (\<lambda>p. fst p \<noteq> RSP_READY) ps = numbered 0 chunks @ [(RSP_ACK, ack)]
            \<and> (ack = [] \<or> hd ack = ACK_OK) \<and> d = concat chunks))"
proof -
  show ?thesis
  proof (rule wlp_mono [OF traced.read_transfer_sent], goal_cases)
    case (1 r st')
    then show ?case
      by (cases r) (auto simp: traced.exchanged_def traced.read_sent_def traced.rxs_def traced.txs_def traced_pending)
  qed
qed






text \<open>Beyond 32 MiB the packet number does not fit its field.\<close>

lemma stream_data_overflow:
  assumes "65536 \<le> seq" "block \<noteq> []"
  shows "stream_data L block 0 seq st = Some (Inl StructError, st)"
  using assms by (subst stream_data.simps) (simp add: pack_le_def io_defs Let_def)

end
