(* ===== verification/RockFrames.thy ===== *)
theory RockFrames
  imports Frames Profiles
begin

text \<open>
  \<open>src/defib/rockusb/codec.py\<close>, \<open>protocol.py\<close>, \<open>loader.py\<close> and \<open>maskrom.py\<close>: the framing of the two Rockchip USB
  stages. The boot ROM takes code in checksummed, optionally RC4-encrypted chunks; the loader then answers command
  wrappers with status wrappers. Loader files are containers of entries.
\<close>

unbundle bit_operations_syntax

section \<open>Codecs\<close>

definition RK_RC4_KEY :: bytes where
  "RK_RC4_KEY = [124, 78, 3, 4, 85, 5, 9, 7, 45, 44, 123, 56, 23, 13, 23, 17]"

definition CRC16_INIT :: int where "CRC16_INIT = 0xFFFF"

definition rk_crc_step :: "int \<Rightarrow> byte \<Rightarrow> int" where
  "rk_crc_step crc b = (push_bit 8 crc AND 0xFFFF) XOR CRC_TABLE ! nat ((drop_bit 8 crc XOR uint b) AND 0xFF)"

definition rk_crc16 :: "bytes \<Rightarrow> int \<Rightarrow> int" where
  "rk_crc16 data crc = foldl rk_crc_step crc data AND 0xFFFF"

text \<open>The state of RC4: the permutation \<open>s\<close> and the two indices.\<close>

definition swap_at :: "nat \<Rightarrow> nat \<Rightarrow> 'a list \<Rightarrow> 'a list" where
  "swap_at i j s = s[i := s ! j, j := s ! i]"

fun rc4_schedule :: "bytes \<Rightarrow> nat \<Rightarrow> nat list \<Rightarrow> nat list \<Rightarrow> nat list" where
  "rc4_schedule key j s [] = s"
| "rc4_schedule key j s (i # is) =
     (let j = (j + s ! i + unat (key ! (i mod length key))) mod 256 in rc4_schedule key j (swap_at i j s) is)"

fun rc4_stream :: "nat \<Rightarrow> nat \<Rightarrow> nat list \<Rightarrow> bytes \<Rightarrow> bytes" where
  "rc4_stream i j s [] = []"
| "rc4_stream i j s (b # data) =
     (let i = (i + 1) mod 256;
          j = (j + s ! i) mod 256;
          s = swap_at i j s
      in (b XOR of_nat (s ! ((s ! i + s ! j) mod 256))) # rc4_stream i j s data)"

definition rc4 :: "bytes \<Rightarrow> bytes \<Rightarrow> exn + bytes" where
  "rc4 data key =
     (if key = [] then Inl ZeroDivisionError
      else Inr (rc4_stream 0 0 (rc4_schedule key 0 [0..<256] [0..<256]) data))"

section \<open>Command and status wrappers\<close>

definition CBW_SIGNATURE :: bytes where "CBW_SIGNATURE = [0x55, 0x53, 0x42, 0x43]"
definition CSW_SIGNATURE :: bytes where "CSW_SIGNATURE = [0x55, 0x53, 0x42, 0x53]"
definition CSW_LENGTH :: nat where "CSW_LENGTH = 13"
definition SECTOR_SIZE :: nat where "SECTOR_SIZE = 512"
definition MAX_SECTORS_PER_TRANSFER :: int where "MAX_SECTORS_PER_TRANSFER = 512"
definition DIRECTION_IN :: byte where "DIRECTION_IN = 0x80"
definition DIRECTION_OUT :: byte where "DIRECTION_OUT = 0x00"

datatype Opcode =
    TEST_UNIT_READY | READ_FLASH_ID | ERASE_NORMAL | READ_LBA | WRITE_LBA | READ_FLASH_INFO
  | READ_CHIP_INFO | ERASE_LBA | READ_CAPABILITY | RESET_DEVICE

definition Opcode_value :: "Opcode \<Rightarrow> int" where
  "Opcode_value opc = (case opc of
     TEST_UNIT_READY \<Rightarrow> 0x00 | READ_FLASH_ID \<Rightarrow> 0x01 | ERASE_NORMAL \<Rightarrow> 0x06 | READ_LBA \<Rightarrow> 0x14
   | WRITE_LBA \<Rightarrow> 0x15 | READ_FLASH_INFO \<Rightarrow> 0x1A | READ_CHIP_INFO \<Rightarrow> 0x1B | ERASE_LBA \<Rightarrow> 0x25
   | READ_CAPABILITY \<Rightarrow> 0xAA | RESET_DEVICE \<Rightarrow> 0xFF)"

definition ADDRESSED_OPCODES :: "int list" where
  "ADDRESSED_OPCODES = map Opcode_value [READ_LBA, WRITE_LBA, ERASE_LBA]"

definition cdb_length :: "int \<Rightarrow> byte" where
  "cdb_length opcode = (if opcode \<in> set ADDRESSED_OPCODES then 10 else 6)"

definition residue_is_meaningful :: "int \<Rightarrow> bool" where
  "residue_is_meaningful opcode \<longleftrightarrow> opcode \<in> set ADDRESSED_OPCODES"

definition FLASH_INFO_LENGTH :: nat where "FLASH_INFO_LENGTH = 11"

record FlashInfo =
  fi_sectors :: int
  fi_block_sectors :: int
  fi_page_sectors :: int
  fi_ecc_bits :: int
  fi_access_time :: int
  fi_manufacturer :: int
  fi_flash_mask :: int

definition FlashInfo_size_bytes :: "FlashInfo \<Rightarrow> int" where
  "FlashInfo_size_bytes fi = fi_sectors fi * int SECTOR_SIZE"

definition FlashInfo_block_bytes :: "FlashInfo \<Rightarrow> int" where
  "FlashInfo_block_bytes fi = fi_block_sectors fi * int SECTOR_SIZE"

definition FlashInfo_page_bytes :: "FlashInfo \<Rightarrow> int" where
  "FlashInfo_page_bytes fi = fi_page_sectors fi * int SECTOR_SIZE"

definition parse_flash_info :: "bytes \<Rightarrow> exn + FlashInfo" where
  "parse_flash_info data =
     (if length data < FLASH_INFO_LENGTH then Inl RockusbError
      else let sectors = le_val (pyslice 0 4 data) in
        if sectors = 0 then Inl RockusbError
        else Inr \<lparr>fi_sectors = sectors, fi_block_sectors = le_val (pyslice 4 6 data), fi_page_sectors = uint (data ! 6),
                  fi_ecc_bits = uint (data ! 7), fi_access_time = uint (data ! 8), fi_manufacturer = uint (data ! 9),
                  fi_flash_mask = uint (data ! 10)\<rparr>)"

datatype ResetSubcode = NORMAL | RESET_MSC | POWEROFF | RESET_MASKROM | DISCONNECT

definition ResetSubcode_value :: "ResetSubcode \<Rightarrow> int" where
  "ResetSubcode_value sub = (case sub of
     NORMAL \<Rightarrow> 0 | RESET_MSC \<Rightarrow> 1 | POWEROFF \<Rightarrow> 2 | RESET_MASKROM \<Rightarrow> 3 | DISCONNECT \<Rightarrow> 4)"

text \<open>\<open>struct.pack('>BB I B H 7x', ...)\<close>.\<close>

definition build_cdb :: "int \<Rightarrow> int \<Rightarrow> int \<Rightarrow> int \<Rightarrow> exn + bytes" where
  "build_cdb opcode subcode address count =
     sum_bind (pack_be 1 opcode) (\<lambda>opc. sum_bind (pack_be 1 subcode) (\<lambda>sub.
     sum_bind (pack_be 4 address) (\<lambda>adr. sum_bind (pack_be 2 count) (\<lambda>cnt.
       Inr (opc @ sub @ adr @ [0] @ cnt @ replicate 7 0)))))"

definition build_cbw :: "int \<Rightarrow> int \<Rightarrow> int \<Rightarrow> int \<Rightarrow> int \<Rightarrow> int \<Rightarrow> bool \<Rightarrow> exn + bytes" where
  "build_cbw tag opcode subcode address count transfer_length direction_in =
     (let transfer_length =
            (if transfer_length = 0 \<and> count \<noteq> 0 \<and> opcode \<notin> {Opcode_value ERASE_LBA, Opcode_value ERASE_NORMAL}
             then count * int SECTOR_SIZE else transfer_length)
      in sum_bind (build_cdb opcode subcode address count) (\<lambda>cdb.
         if length cdb \<noteq> 16 then Inl AssertionError
         else sum_bind (pack_le 4 (tag AND 0xFFFFFFFF)) (\<lambda>t. sum_bind (pack_le 4 transfer_length) (\<lambda>l.
           Inr (CBW_SIGNATURE @ t @ l @ [if direction_in then DIRECTION_IN else DIRECTION_OUT, 0, cdb_length opcode] @ cdb)))))"

definition parse_csw :: "bytes \<Rightarrow> int option \<Rightarrow> exn + int \<times> int \<times> int" where
  "parse_csw data expected_tag =
     (if length data < CSW_LENGTH then Inl RockusbError
      else if take 4 data \<noteq> CSW_SIGNATURE then Inl RockusbError
      else let tag = le_val (pyslice 4 8 data); residue = le_val (pyslice 8 12 data); status = uint (data ! 12) in
        case expected_tag of
          Some e \<Rightarrow> if tag \<noteq> e AND 0xFFFFFFFF then Inl RockusbError else Inr (tag, residue, status)
        | None \<Rightarrow> Inr (tag, residue, status))"

function split_loop :: "int \<Rightarrow> int \<Rightarrow> int \<Rightarrow> (int \<times> int) list" where
  "split_loop max_sectors lba remaining =
     (if 0 < remaining \<and> 0 < max_sectors
      then let count = min remaining max_sectors in (lba, count) # split_loop max_sectors (lba + count) (remaining - count)
      else [])"
  by pat_completeness auto
termination by (relation "measure (\<lambda>(m, l, r). nat r)") auto

declare split_loop.simps [simp del]

definition split_lba_transfers :: "int \<Rightarrow> int \<Rightarrow> int \<Rightarrow> exn + (int \<times> int) list" where
  "split_lba_transfers start_lba total_sectors max_sectors =
     (if total_sectors < 0 then Inl ValueError
      else if max_sectors \<le> 0 then Inl ValueError
      else Inr (split_loop max_sectors start_lba total_sectors))"

section \<open>Loader files\<close>

definition TAG_BOOT :: bytes where "TAG_BOOT = [0x42, 0x4F, 0x4F, 0x54]"
definition TAG_LOADER :: bytes where "TAG_LOADER = [0x4C, 0x44, 0x52, 0x20]"
definition ENTRY_TRAILER :: nat where "ENTRY_TRAILER = 12"
definition ENTRY_NAME_BYTES :: nat where "ENTRY_NAME_BYTES = 40"

text \<open>UTF-16LE with \<open>errors='replace'\<close>, as a list of code points.\<close>

fun utf16_units :: "bytes \<Rightarrow> int list" where
  "utf16_units (a # b # bs) = (uint a + 256 * uint b) # utf16_units bs"
| "utf16_units _ = []"

fun utf16_decode :: "int list \<Rightarrow> int list" where
  "utf16_decode [] = []"
| "utf16_decode [u] = [if 0xD800 \<le> u \<and> u < 0xE000 then 0xFFFD else u]"
| "utf16_decode (u # v # us) =
     (if 0xD800 \<le> u \<and> u < 0xDC00 then
        if 0xDC00 \<le> v \<and> v < 0xE000 then (0x10000 + (u - 0xD800) * 0x400 + (v - 0xDC00)) # utf16_decode us
        else 0xFFFD # utf16_decode (v # us)
      else if 0xDC00 \<le> u \<and> u < 0xE000 then 0xFFFD # utf16_decode (v # us)
      else u # utf16_decode (v # us))"

record LoaderEntry =
  le_name :: "int list"
  le_data :: bytes
  le_delay_ms :: int

record LoaderBlobs =
  ddr :: "LoaderEntry list"
  usbplug :: "LoaderEntry list"
  rc4_disabled :: bool

definition use_rc4 :: "LoaderBlobs \<Rightarrow> bool" where
  "use_rc4 blobs \<longleftrightarrow> \<not> rc4_disabled blobs"

definition raw_entry :: "string \<Rightarrow> bytes \<Rightarrow> LoaderEntry" where
  "raw_entry name data = \<lparr>le_name = map of_char name, le_data = data, le_delay_ms = 0\<rparr>"

definition raw_blobs :: "bytes \<Rightarrow> bytes \<Rightarrow> bool \<Rightarrow> exn + LoaderBlobs" where
  "raw_blobs ddr_image usbplug_image rc4_on =
     (if ddr_image = [] \<or> usbplug_image = [] then Inl LoaderFormatError
      else Inr \<lparr>ddr = [raw_entry ''ddr'' ddr_image], usbplug = [raw_entry ''usbplug'' usbplug_image],
                rc4_disabled = (\<not> rc4_on)\<rparr>)"

definition parse_entry :: "bytes \<Rightarrow> nat \<Rightarrow> nat \<Rightarrow> nat \<Rightarrow> exn + LoaderEntry" where
  "parse_entry data offset entry_size i =
     (let base = offset + i * entry_size in
      if base + entry_size > length data then Inl LoaderFormatError
      else let name_at = base + entry_size - ENTRY_TRAILER - ENTRY_NAME_BYTES;
               name = rev (dropWhile (\<lambda>c. c = 0) (rev (utf16_decode (utf16_units (pyslice name_at (name_at + ENTRY_NAME_BYTES) data)))));
               trailer = base + entry_size - ENTRY_TRAILER;
               data_offset = nat (le_val (pyslice trailer (trailer + 4) data));
               data_size = nat (le_val (pyslice (trailer + 4) (trailer + 8) data));
               delay_ms = le_val (pyslice (trailer + 8) (trailer + 12) data)
           in if data_offset + data_size > length data then Inl LoaderFormatError
              else Inr \<lparr>le_name = name, le_data = pyslice data_offset (data_offset + data_size) data, le_delay_ms = delay_ms\<rparr>)"

fun sum_map :: "('a \<Rightarrow> exn + 'b) \<Rightarrow> 'a list \<Rightarrow> exn + 'b list" where
  "sum_map f [] = Inr []"
| "sum_map f (x # xs) = sum_bind (f x) (\<lambda>y. sum_bind (sum_map f xs) (\<lambda>ys. Inr (y # ys)))"

definition parse_entries :: "bytes \<Rightarrow> nat \<Rightarrow> nat \<Rightarrow> nat \<Rightarrow> exn + LoaderEntry list" where
  "parse_entries data offset entry_size count =
     (if entry_size < ENTRY_TRAILER + ENTRY_NAME_BYTES then Inl LoaderFormatError
      else sum_map (parse_entry data offset entry_size) [0..<count])"

definition parse_loader :: "bytes \<Rightarrow> exn + LoaderBlobs" where
  "parse_loader data =
     (if length data < 64 then Inl LoaderFormatError
      else if take 4 data \<noteq> TAG_BOOT \<and> take 4 data \<noteq> TAG_LOADER then Inl LoaderFormatError
      else let table_at = 4 + 2 + 4 + 4 + 7 + 4;
               n471 = unat (data ! table_at);
               off471 = nat (le_val (pyslice (table_at + 1) (table_at + 5) data));
               size471 = unat (data ! (table_at + 5));
               n472 = unat (data ! (table_at + 6));
               off472 = nat (le_val (pyslice (table_at + 7) (table_at + 11) data));
               size472 = unat (data ! (table_at + 11));
               flags_at = table_at + 6 + 6 + 6;
               rc4_flag = data ! (flags_at + 1)
           in if n471 = 0 \<or> n472 = 0 then Inl LoaderFormatError
              else sum_bind (parse_entries data off471 size471 n471) (\<lambda>d.
                   sum_bind (parse_entries data off472 size472 n472) (\<lambda>u.
                     Inr \<lparr>ddr = d, usbplug = u, rc4_disabled = (rc4_flag \<noteq> 0)\<rparr>)))"

section \<open>Code uploads\<close>

definition CODE_471 :: int where "CODE_471 = 0x0471"
definition CODE_472 :: int where "CODE_472 = 0x0472"
definition CHUNK_SIZE :: nat where "CHUNK_SIZE = 4096"

definition build_maskrom_chunks :: "bytes \<Rightarrow> bool \<Rightarrow> exn + bytes list" where
  "build_maskrom_chunks blob encrypt =
     (let remainder = length blob mod CHUNK_SIZE;
          needs_terminator = (remainder = CHUNK_SIZE - 2);
          payload = (if remainder = CHUNK_SIZE - 1 then blob @ [0] else blob)
      in sum_bind (if encrypt then rc4 payload RK_RC4_KEY else Inr payload) (\<lambda>payload.
         sum_bind (pack_be 2 (rk_crc16 payload CRC16_INIT)) (\<lambda>crc.
         sum_bind (chunk_data (payload @ crc) CHUNK_SIZE) (\<lambda>chunks.
           Inr (if needs_terminator then chunks @ [[0]] else chunks)))))"

section \<open>The checksum\<close>

lemma CRC_TABLE_0 [simp]: "CRC_TABLE ! 0 = 0"
  by (simp add: CRC_TABLE_def)

lemma and_FF: "x AND 0xFF = x mod (256 :: int)" and and_FFFF: "x AND 0xFFFF = x mod (65536 :: int)"
  using take_bit_eq_mask [of 8 x] take_bit_eq_mask [of 16 x] by (simp_all add: take_bit_eq_mod mask_eq_exp_minus_1)

lemma xor_16_bits: "0 \<le> a \<Longrightarrow> a < 65536 \<Longrightarrow> 0 \<le> b \<Longrightarrow> b < 65536 \<Longrightarrow> 0 \<le> a XOR b \<and> a XOR b < (65536 :: int)"
  using XOR_upper [of a 16 b] by simp

lemma rk_crc_step_range: "0 \<le> rk_crc_step c b \<and> rk_crc_step c b < 65536"
proof -
  have "nat ((drop_bit 8 c XOR uint b) AND 0xFF) < 256"
    unfolding and_FF by simp
  then show ?thesis
    unfolding rk_crc_step_def using crc_table_bounds by (intro xor_16_bits) (simp_all add: and_FFFF)
qed

lemma rk_crc_step_high: "0 \<le> c \<Longrightarrow> c < 65536 \<Longrightarrow> rk_crc_step c (word_of_int (c div 256)) = 256 * (c mod 256)"
proof -
  assume c: "0 \<le> c" "c < 65536"
  have "drop_bit 8 c = c div 256" "c div 256 mod 256 = c div 256"
    using c by (simp_all add: drop_bit_eq_div)
  moreover have "push_bit 8 c AND 0xFFFF = 256 * (c mod 256)"
    using c by (simp add: and_FFFF push_bit_eq_mult mult.commute mult_mod_right)
  ultimately show ?thesis
    by (simp add: rk_crc_step_def)
qed

lemma rk_crc_fold_range:
  "0 \<le> c \<Longrightarrow> c < 65536 \<Longrightarrow> 0 \<le> foldl rk_crc_step c data \<and> foldl rk_crc_step c data < 65536"
  by (induction data arbitrary: c) (auto simp: rk_crc_step_range)

lemma rk_crc16_range: "0 \<le> rk_crc16 data c \<and> rk_crc16 data c < 65536"
  by (simp add: rk_crc16_def and_FFFF)

text \<open>Checksummed data has checksum zero.\<close>

lemma rk_crc16_sealed: "rk_crc16 (data @ be_bytes 2 (rk_crc16 data CRC16_INIT)) CRC16_INIT = 0"
proof -
  let ?c = "foldl rk_crc_step CRC16_INIT data"
  have c: "0 \<le> ?c" "?c < 65536" using rk_crc_fold_range [of CRC16_INIT data] by (simp_all add: CRC16_INIT_def)
  have "rk_crc16 data CRC16_INIT = ?c" using c by (simp add: rk_crc16_def and_FFFF)
  moreover have "be_bytes 2 ?c = [word_of_int (?c div 256), word_of_int ?c]"
    by (simp add: be_bytes_def numeral_2_eq_2)
  moreover have "rk_crc_step (256 * (?c mod 256)) (word_of_int ?c) = 0"
    using rk_crc_step_high [of "256 * (?c mod 256)"] word_of_int_and_255 [of ?c] by (simp add: and_FF)
  ultimately show ?thesis
    using rk_crc_step_high [OF c] by (simp add: rk_crc16_def)
qed

section \<open>RC4 is its own inverse\<close>

lemma rc4_stream_involution: "rc4_stream i j s (rc4_stream i j s data) = data"
  by (induction data arbitrary: i j s) (simp_all add: Let_def xor.assoc)

lemma length_rc4_stream [simp]: "length (rc4_stream i j s data) = length data"
  by (induction data arbitrary: i j s) (simp_all add: Let_def)

lemma rc4_involution: "rc4 data key = Inr enc \<Longrightarrow> rc4 enc key = Inr data \<and> length enc = length data"
  by (auto simp: rc4_def rc4_stream_involution split: if_splits)

section \<open>Chunks of an upload\<close>

lemma chunks_from_last:
  assumes "0 < n" "xs \<noteq> []"
  shows "length (last (chunks_from n xs)) = (if length xs mod n = 0 then n else length xs mod n)"
  using assms
proof (induction xs rule: chunks_from_induct)
  case (Step xs)
  show ?case
  proof (cases "drop n xs = []")
    case True
    with Step.prems Step.hyps show ?thesis
      by (cases "length xs = n") (auto simp: chunks_from_step)
  next
    case False
    then have "chunks_from n (drop n xs) \<noteq> []" "length (drop n xs) mod n = length xs mod n"
      using Step.hyps by (simp_all add: chunks_from_step mod_if [of "length xs"] not_le)
    with Step.prems Step.hyps Step.IH False show ?thesis
      by (simp add: chunks_from_step)
  qed
qed simp

text \<open>A tail that does not straddle a chunk boundary is inside the last chunk.\<close>

lemma chunks_from_tail:
  assumes n: "0 < n" and xs: "xs @ tl' \<noteq> []" and tail: "length tl' \<le> length (last (chunks_from n (xs @ tl')))"
  obtains pre mid where "chunks_from n (xs @ tl') = pre @ [mid @ tl']"
proof -
  let ?cs = "chunks_from n (xs @ tl')"
  have ne: "?cs \<noteq> []" using n xs by (simp add: chunks_from_step)
  have "concat (butlast ?cs @ [last ?cs]) = xs @ tl'"
    using ne concat_chunks_from [OF n, of "xs @ tl'"] by simp
  then have "concat (butlast ?cs) @ last ?cs = xs @ tl'" by simp
  then consider us where "last ?cs = us @ tl'" | us where "us @ last ?cs = tl'"
    by (auto simp: append_eq_append_conv2)
  then obtain mid where "last ?cs = mid @ tl'"
  proof cases
    case (2 us)
    then have "length us + length (last ?cs) = length tl'" by (metis length_append)
    with tail have "length us = 0" by linarith
    with 2 that [of "[]"] show ?thesis by simp
  qed (rule that)
  with ne have "?cs = butlast ?cs @ [mid @ tl']" by (metis append_butlast_last_id)
  then show ?thesis by (rule that)
qed

text \<open>What the boot ROM receives for a blob: full chunks, the checksum inside one of them, and a short last one.\<close>

definition maskrom_padded :: "bytes \<Rightarrow> bytes" where
  "maskrom_padded blob = (if length blob mod CHUNK_SIZE = CHUNK_SIZE - 1 then blob @ [0] else blob)"

definition maskrom_terminator :: "bytes \<Rightarrow> bytes list" where
  "maskrom_terminator blob = (if length blob mod CHUNK_SIZE = CHUNK_SIZE - 2 then [[0]] else [])"

lemma mod_add_2: "(l + 2) mod 4096 = (if l mod 4096 < 4094 then l mod 4096 + 2 else l mod 4096 - (4094 :: nat))"
proof -
  have "(l + 2) mod 4096 = (l mod 4096 + 2) mod 4096" by (simp add: mod_simps)
  moreover have "(l mod 4096 + 2) mod 4096 = (l mod 4096 + 2) - 4096" if "\<not> l mod 4096 < 4094"
    using that le_mod_geq [of 4096 "l mod 4096 + 2"] mod_less_divisor [of 4096 l] by simp
  ultimately show ?thesis by simp
qed

lemma maskrom_length_mod:
  "length blob mod CHUNK_SIZE = CHUNK_SIZE - 2 \<longleftrightarrow> (length (maskrom_padded blob) + 2) mod CHUNK_SIZE = 0"
  "(length (maskrom_padded blob) + 2) mod CHUNK_SIZE \<noteq> 1"
  using mod_add_2 [of "length blob"] mod_add_2 [of "Suc (length blob)"] mod_Suc [of "length blob" 4096]
    mod_less_divisor [of 4096 "length blob"]
  by (simp_all add: maskrom_padded_def CHUNK_SIZE_def split: if_splits)

text \<open>C9: an upload to the boot ROM. Every blob can be framed. All control transfers but the last carry exactly 4096
  bytes and the last one is shorter, so the boot ROM sees the end; the two checksum bytes end one single transfer,
  followed at most by the one-byte terminator; the transfers carry the checksummed payload, whose checksum is zero,
  and decrypting the payload gives the blob back, with at most one zero byte of padding.\<close>

theorem maskrom_chunks_correct:
  "\<exists>payload crc pre mid. build_maskrom_chunks blob encrypt = Inr (pre @ [mid @ crc] @ maskrom_terminator blob)
     \<and> concat pre @ mid = payload \<and> length crc = 2 \<and> rk_crc16 (payload @ crc) CRC16_INIT = 0
     \<and> (if encrypt then rc4 payload RK_RC4_KEY else Inr payload) = Inr (maskrom_padded blob)
     \<and> list_all (\<lambda>c. length c = 4096) (butlast (pre @ [mid @ crc] @ maskrom_terminator blob))
     \<and> length (last (pre @ [mid @ crc] @ maskrom_terminator blob)) \<in> {1..<4096}"
proof -
  obtain payload where payload: "(if encrypt then rc4 (maskrom_padded blob) RK_RC4_KEY else Inr (maskrom_padded blob)) = Inr payload"
    by (cases encrypt) (auto simp: rc4_def RK_RC4_KEY_def)
  have decrypts: "(if encrypt then rc4 payload RK_RC4_KEY else Inr payload) = Inr (maskrom_padded blob)"
    and len: "length payload = length (maskrom_padded blob)"
    using payload by (cases encrypt; auto dest: rc4_involution)+
  let ?crc = "be_bytes 2 (rk_crc16 payload CRC16_INIT)" and ?n = CHUNK_SIZE
  let ?cs = "chunks_from ?n (payload @ ?crc)"
  have n: "0 < ?n" by (simp add: CHUNK_SIZE_def)
  have ne: "payload @ ?crc \<noteq> []" using length_be_bytes [of 2] by (metis append_is_Nil_conv length_0_conv zero_neq_numeral)
  have last: "length (last ?cs) = (if (length (maskrom_padded blob) + 2) mod ?n = 0 then ?n else (length (maskrom_padded blob) + 2) mod ?n)"
    using chunks_from_last [OF n ne] len by simp
  obtain pre mid where cs: "?cs = pre @ [mid @ ?crc]"
    using chunks_from_tail [OF n ne] last maskrom_length_mod(2) [of blob] by (auto simp: CHUNK_SIZE_def split: if_splits)
  have "build_maskrom_chunks blob encrypt = Inr (?cs @ maskrom_terminator blob)"
    unfolding build_maskrom_chunks_def Let_def maskrom_padded_def [symmetric] payload
    using rk_crc16_range [of payload CRC16_INIT] n
    by (simp add: maskrom_terminator_def sum_bind_def pack_be_def chunk_data_chunks)
  moreover have "concat pre @ mid = payload"
    using concat_chunks_from [OF n, of "payload @ ?crc"] cs by simp
  moreover have "list_all (\<lambda>c. length c = 4096) (butlast (?cs @ maskrom_terminator blob))"
    using chunks_from_full [OF n, of "payload @ ?crc"] last maskrom_length_mod(1) [of blob] cs
    by (auto simp: maskrom_terminator_def CHUNK_SIZE_def butlast_append list_all_iff)
  moreover have "length (last (?cs @ maskrom_terminator blob)) \<in> {1..<4096}"
    using last maskrom_length_mod(1) [of blob] by (auto simp: maskrom_terminator_def CHUNK_SIZE_def)
  ultimately show ?thesis
    using decrypts rk_crc16_sealed [of payload] cs by (intro exI [of _ payload] exI [of _ ?crc] exI [of _ pre] exI [of _ mid]) simp
qed

section \<open>Wrappers as the device reads them\<close>

record cbw =
  cbw_tag :: int
  cbw_length :: int
  cbw_in :: bool
  cbw_opcode :: int
  cbw_subcode :: int
  cbw_address :: int
  cbw_count :: int

definition decode_cbw :: "bytes \<Rightarrow> cbw option" where
  "decode_cbw w =
     (if length w = 31 \<and> take 4 w = CBW_SIGNATURE \<and> w ! 12 \<in> {DIRECTION_IN, DIRECTION_OUT} \<and> w ! 13 = 0
         \<and> w ! 14 = cdb_length (uint (w ! 15))
      then Some \<lparr>cbw_tag = le_val (pyslice 4 8 w), cbw_length = le_val (pyslice 8 12 w), cbw_in = (w ! 12 = DIRECTION_IN),
                 cbw_opcode = uint (w ! 15), cbw_subcode = uint (w ! 16), cbw_address = be_val (pyslice 17 21 w),
                 cbw_count = be_val (pyslice 22 24 w)\<rparr>
      else None)"

text \<open>The length of the data phase a command wrapper announces.\<close>

definition data_phase :: "int \<Rightarrow> int \<Rightarrow> int \<Rightarrow> int" where
  "data_phase opcode count transfer_length =
     (if transfer_length = 0 \<and> opcode \<notin> {0x06, 0x25} then count * 512 else transfer_length)"

lemma and_mask32: "x AND 0xFFFFFFFF = x mod (4294967296 :: int)"
  using take_bit_eq_mask [of 32 x] by (simp add: take_bit_eq_mod mask_eq_exp_minus_1)

lemma list_of_length_4: "length xs = 4 \<Longrightarrow> \<exists>a b c d. xs = [a, b, c, d]"
  by (auto simp: length_Suc_conv numeral_eq_Suc)

lemma decode_cbw_layout:
  assumes "length t = 4" "length l = 4" "length a = 4" "length c = 2" "d \<in> {DIRECTION_IN, DIRECTION_OUT}"
  shows "decode_cbw (CBW_SIGNATURE @ t @ l @ [d, 0, cdb_length (uint opc)] @ [opc, sub] @ a @ [0] @ c @ replicate 7 0)
    = Some \<lparr>cbw_tag = le_val t, cbw_length = le_val l, cbw_in = (d = DIRECTION_IN), cbw_opcode = uint opc,
            cbw_subcode = uint sub, cbw_address = be_val a, cbw_count = be_val c\<rparr>"
proof -
  obtain t0 t1 t2 t3 where "t = [t0, t1, t2, t3]" using list_of_length_4 assms(1) by blast
  moreover obtain l0 l1 l2 l3 where "l = [l0, l1, l2, l3]" using list_of_length_4 assms(2) by blast
  moreover obtain a0 a1 a2 a3 where "a = [a0, a1, a2, a3]" using list_of_length_4 assms(3) by blast
  moreover obtain c0 c1 where "c = [c0, c1]" using assms(4) by (auto simp: length_Suc_conv numeral_eq_Suc)
  ultimately show ?thesis
    using assms(5) by (simp add: decode_cbw_def CBW_SIGNATURE_def pyslice_def numeral_eq_Suc)
qed

lemma be_bytes_1: "be_bytes (Suc 0) v = [word_of_int v]"
  by (simp add: be_bytes_def)

lemma build_cbw_decodes:
  "build_cbw tag opcode subcode address count transfer_length direction_in =
     (if 0 \<le> opcode \<and> opcode < 256 \<and> 0 \<le> subcode \<and> subcode < 256 \<and> 0 \<le> address \<and> address < 2 ^ 32
         \<and> 0 \<le> count \<and> count < 2 ^ 16 \<and> 0 \<le> data_phase opcode count transfer_length
         \<and> data_phase opcode count transfer_length < 2 ^ 32
      then Inr (CBW_SIGNATURE @ le_bytes 4 (tag AND 0xFFFFFFFF) @ le_bytes 4 (data_phase opcode count transfer_length)
        @ [if direction_in then DIRECTION_IN else DIRECTION_OUT, 0, cdb_length (uint (word_of_int opcode :: byte))]
        @ [word_of_int opcode, word_of_int subcode] @ be_bytes 4 address @ [0] @ be_bytes 2 count @ replicate 7 0)
      else Inl StructError)"
  unfolding build_cbw_def build_cdb_def Let_def
  by (auto simp: sum_bind_def pack_be_def pack_le_def data_phase_def be_bytes_1 and_mask32 Opcode_value_def SECTOR_SIZE_def)

lemma build_cbw_fields:
  assumes "build_cbw tag opcode subcode address count transfer_length direction_in = Inr w"
  shows "length w = 31" and "decode_cbw w = Some
       \<lparr>cbw_tag = tag mod 2 ^ 32, cbw_length = data_phase opcode count transfer_length, cbw_in = direction_in,
        cbw_opcode = opcode, cbw_subcode = subcode, cbw_address = address, cbw_count = count\<rparr>"
proof -
  show "decode_cbw w = Some
       \<lparr>cbw_tag = tag mod 2 ^ 32, cbw_length = data_phase opcode count transfer_length, cbw_in = direction_in,
        cbw_opcode = opcode, cbw_subcode = subcode, cbw_address = address, cbw_count = count\<rparr>"
    using assms decode_cbw_layout [of "le_bytes 4 (tag AND 0xFFFFFFFF)" "le_bytes 4 (data_phase opcode count transfer_length)"
        "be_bytes 4 address" "be_bytes 2 count" "if direction_in then DIRECTION_IN else DIRECTION_OUT"
        "word_of_int opcode" "word_of_int subcode"]
    unfolding build_cbw_decodes
    by (auto simp: le_val_le_bytes be_val_be_bytes and_mask32 DIRECTION_IN_def DIRECTION_OUT_def split: if_split_asm)
  then show "length w = 31" by (simp add: decode_cbw_def split: if_splits)
qed

text \<open>C10: command wrappers are well formed. A command is refused with \<open>struct.error\<close> exactly when one of its fields
  does not fit; otherwise its wrapper has 31 bytes and a device that reads it finds the signature, the declared length
  of the command block, the tag modulo \<open>2 ^ 32\<close>, the opcode, the address and the count as given, and the length of the
  data phase, which is the one given or \<open>count\<close> sectors when none is given, but never for the erase commands.\<close>

theorem build_cbw_wellformed:
  "case build_cbw tag opcode subcode address count transfer_length direction_in of
     Inl e \<Rightarrow> e = StructError \<and> \<not> (opcode \<in> {0..<256} \<and> subcode \<in> {0..<256} \<and> address \<in> {0..<2 ^ 32}
       \<and> count \<in> {0..<2 ^ 16} \<and> data_phase opcode count transfer_length \<in> {0..<2 ^ 32})
   | Inr w \<Rightarrow> length w = 31 \<and> decode_cbw w = Some
       \<lparr>cbw_tag = tag mod 2 ^ 32, cbw_length = data_phase opcode count transfer_length, cbw_in = direction_in,
        cbw_opcode = opcode, cbw_subcode = subcode, cbw_address = address, cbw_count = count\<rparr>"
proof (cases "build_cbw tag opcode subcode address count transfer_length direction_in")
  case (Inl e)
  then show ?thesis by (auto simp: build_cbw_decodes split: if_splits)
next
  case (Inr w)
  then show ?thesis using build_cbw_fields [OF Inr] by simp
qed

section \<open>Entries of a loader file\<close>

definition entry_in_file :: "bytes \<Rightarrow> LoaderEntry \<Rightarrow> bool" where
  "entry_in_file data e \<longleftrightarrow> (\<exists>a n. a + n \<le> length data \<and> le_data e = take n (drop a data) \<and> length (le_data e) = n)
     \<and> 0 \<le> le_delay_ms e \<and> le_delay_ms e < 2 ^ 32"

lemma sum_map_Inr: "sum_map f xs = Inr ys \<Longrightarrow> length ys = length xs \<and> (\<forall>y \<in> set ys. \<exists>x \<in> set xs. f x = Inr y)"
  by (induction xs arbitrary: ys) (auto simp: sum_bind_def split: sum.splits)

lemma sum_map_Inl: "sum_map f xs = Inl e \<Longrightarrow> \<exists>x \<in> set xs. f x = Inl e"
  by (induction xs) (auto simp: sum_bind_def split: sum.splits)

lemma le_val_pyslice: "b \<le> a + 4 \<Longrightarrow> 0 \<le> le_val (pyslice a b data) \<and> le_val (pyslice a b data) < 2 ^ 32"
proof -
  assume "b \<le> a + 4"
  then have "(256 :: int) ^ length (pyslice a b data) \<le> 256 ^ 4" by (intro power_increasing) auto
  then show ?thesis using le_val_bounds [of "pyslice a b data"] by simp
qed

lemma entry_in_fileI:
  "a + n \<le> length data \<Longrightarrow> 0 \<le> d \<Longrightarrow> d < 2 ^ 32
   \<Longrightarrow> entry_in_file data \<lparr>le_name = nm, le_data = pyslice a (a + n) data, le_delay_ms = d\<rparr>"
  by (auto simp: entry_in_file_def pyslice_def intro!: exI [of _ a])

lemma parse_entry_Inr: "parse_entry data offset entry_size i = Inr e \<Longrightarrow> entry_in_file data e"
  using le_val_pyslice [of "_ + 12" "_ + 8" data]
  by (auto simp: parse_entry_def Let_def not_less intro!: entry_in_fileI split: if_splits)

lemma parse_entry_Inl: "parse_entry data offset entry_size i = Inl e \<Longrightarrow> e = LoaderFormatError"
  by (auto simp: parse_entry_def Let_def split: if_splits)

lemma parse_entries_Inr:
  "parse_entries data offset entry_size count = Inr es \<Longrightarrow> length es = count \<and> list_all (entry_in_file data) es"
  using parse_entry_Inr by (fastforce simp: parse_entries_def list_all_iff split: if_splits dest!: sum_map_Inr)

lemma parse_entries_Inl: "parse_entries data offset entry_size count = Inl e \<Longrightarrow> e = LoaderFormatError"
  using parse_entry_Inl by (fastforce simp: parse_entries_def split: if_splits dest!: sum_map_Inl)


end
