(* ===== verification/Rockusb.thy ===== *)
theory Rockusb
  imports RockFrames Links
begin

text \<open>
  \<open>src/defib/rockusb/device.py\<close> and \<open>recovery.py\<close>: finding a Rockchip device on the bus, opening it, the code uploads
  of the boot ROM, the command exchange with the loader, and the recovery of a board. The library that drives the bus
  is a parameter, a record of its operations; that it is installed is taken for granted. A device object is passed
  and returned explicitly; a thread the code waits for is a plain call. Log output is left out.
\<close>

section \<open>The bus\<close>

record endpoint =
  ep_address :: int
  ep_is_in :: bool
  ep_is_bulk :: bool
  ep_max_packet :: nat

record interface =
  bInterfaceNumber :: int
  if_endpoints :: "endpoint list"

record usb_device =
  ud_handle :: nat
  ud_bus :: nat
  ud_address :: nat
  idProduct :: int
  iProduct :: int
  iManufacturer :: int
  ud_port_numbers :: "nat list"

record 's usb =
  us_find :: "int \<Rightarrow> ('s, usb_device list) io"
  us_get_active_configuration :: "nat \<Rightarrow> ('s, interface list) io"
  us_set_configuration :: "nat \<Rightarrow> ('s, unit) io"
  us_is_kernel_driver_active :: "nat \<Rightarrow> int \<Rightarrow> ('s, bool) io"
  us_detach_kernel_driver :: "nat \<Rightarrow> int \<Rightarrow> ('s, unit) io"
  us_attach_kernel_driver :: "nat \<Rightarrow> int \<Rightarrow> ('s, unit) io"
  us_claim_interface :: "nat \<Rightarrow> int \<Rightarrow> ('s, unit) io"
  us_release_interface :: "nat \<Rightarrow> int \<Rightarrow> ('s, unit) io"
  us_dispose_resources :: "nat \<Rightarrow> ('s, unit) io"
  us_ctrl_transfer :: "nat \<Rightarrow> int \<Rightarrow> bytes \<Rightarrow> nat \<Rightarrow> ('s, nat) io"
  us_clear_halt :: "nat \<Rightarrow> endpoint \<Rightarrow> ('s, unit) io"
  us_read :: "nat \<Rightarrow> endpoint \<Rightarrow> nat \<Rightarrow> nat \<Rightarrow> ('s, bytes) io"
  us_write :: "nat \<Rightarrow> endpoint \<Rightarrow> bytes \<Rightarrow> nat \<Rightarrow> ('s, nat) io"
  us_randbits32 :: "('s, int) io"
  us_now :: "'s \<Rightarrow> usec"
  us_sleep :: "usec \<Rightarrow> ('s, unit) io"
  us_emit :: "ProgressEvent \<Rightarrow> ('s, unit) io"

definition ROCKCHIP_VID :: int where "ROCKCHIP_VID = 0x2207"

datatype DeviceMode = MASKROM | LOADER

record FoundDevice =
  fd_mode :: DeviceMode
  fd_bus :: nat
  fd_address :: nat
  fd_product_id :: int
  fd_handle :: nat
  fd_port_numbers :: "nat list"

fun dotted :: "nat list \<Rightarrow> string" where
  "dotted [] = []"
| "dotted [p] = dec_digits p"
| "dotted (p # ps) = dec_digits p @ ''.'' @ dotted ps"

definition usb_path_of :: "FoundDevice \<Rightarrow> string" where
  "usb_path_of found =
     (if fd_port_numbers found = [] then dec_digits (fd_bus found) @ ''-?''
      else dec_digits (fd_bus found) @ ''-'' @ dotted (fd_port_numbers found))"

definition classify :: "usb_device \<Rightarrow> DeviceMode" where
  "classify dev = (if iProduct dev \<noteq> 0 \<or> iManufacturer dev \<noteq> 0 then LOADER else MASKROM)"

definition found_of :: "usb_device \<Rightarrow> FoundDevice" where
  "found_of dev =
     \<lparr>fd_mode = classify dev, fd_bus = ud_bus dev, fd_address = ud_address dev, fd_product_id = idProduct dev,
      fd_handle = ud_handle dev, fd_port_numbers = ud_port_numbers dev\<rparr>"

definition device_wanted :: "string option \<Rightarrow> int list option \<Rightarrow> usb_device \<Rightarrow> bool" where
  "device_wanted usb_path recovery_ids dev \<longleftrightarrow>
     \<not> (case recovery_ids of Some ids \<Rightarrow> ids \<noteq> [] \<and> idProduct dev \<notin> set ids | None \<Rightarrow> False)
     \<and> (case usb_path of None \<Rightarrow> True | Some p \<Rightarrow> usb_path_of (found_of dev) = p)"

definition find_devices :: "'s usb \<Rightarrow> string option \<Rightarrow> int list option \<Rightarrow> ('s, FoundDevice list) io" where
  "find_devices U usb_path recovery_ids =
     io_bind (us_find U ROCKCHIP_VID) (\<lambda>devs.
       io_return (map found_of (filter (device_wanted usb_path recovery_ids) devs)))"

definition find_device :: "'s usb \<Rightarrow> string option \<Rightarrow> int list option \<Rightarrow> ('s, FoundDevice option) io" where
  "find_device U usb_path recovery_ids =
     io_bind (find_devices U usb_path recovery_ids) (\<lambda>devices. case devices of
       [] \<Rightarrow> io_return None
     | [d] \<Rightarrow> io_return (Some d)
     | _ \<Rightarrow> io_raise RockusbUsbError)"

fun wait_loop ::
  "'s usb \<Rightarrow> nat \<Rightarrow> usec \<Rightarrow> DeviceMode option \<Rightarrow> usec \<Rightarrow> string option \<Rightarrow> int list option \<Rightarrow> ('s, FoundDevice) io" where
  "wait_loop U 0 deadline mode poll_interval usb_path recovery_ids = io_diverge"
| "wait_loop U (Suc fuel) deadline mode poll_interval usb_path recovery_ids =
     io_bind (io_get (us_now U)) (\<lambda>now.
       if now < deadline
       then io_bind (find_device U usb_path recovery_ids) (\<lambda>found. case found of
           Some d \<Rightarrow>
             if mode = None \<or> mode = Some (fd_mode d) then io_return d
             else io_then (us_sleep U poll_interval) (wait_loop U fuel deadline mode poll_interval usb_path recovery_ids)
         | None \<Rightarrow> io_then (us_sleep U poll_interval) (wait_loop U fuel deadline mode poll_interval usb_path recovery_ids))
       else io_raise RockusbUsbError)"

definition wait_for_device ::
  "'s usb \<Rightarrow> nat \<Rightarrow> usec \<Rightarrow> DeviceMode option \<Rightarrow> usec \<Rightarrow> string option \<Rightarrow> int list option \<Rightarrow> ('s, FoundDevice) io" where
  "wait_for_device U fuel timeout mode poll_interval usb_path recovery_ids =
     io_bind (io_get (us_now U)) (\<lambda>now. wait_loop U fuel (now + timeout) mode poll_interval usb_path recovery_ids)"

section \<open>An opened device\<close>

record RockusbDevice =
  rd_found :: FoundDevice
  rd_timeout_ms :: nat
  rd_interface :: "interface option"
  rd_ep_in :: "endpoint option"
  rd_ep_out :: "endpoint option"
  rd_detached_interface :: "int option"

abbreviation rd_dev :: "RockusbDevice \<Rightarrow> nat" where
  "rd_dev dev \<equiv> fd_handle (rd_found dev)"

definition RockusbDevice_init :: "FoundDevice \<Rightarrow> nat \<Rightarrow> RockusbDevice" where
  "RockusbDevice_init found timeout_ms =
     \<lparr>rd_found = found, rd_timeout_ms = timeout_ms, rd_interface = None, rd_ep_in = None, rd_ep_out = None,
      rd_detached_interface = None\<rparr>"

text \<open>The interfaces of the configuration, which is set only when the device has none.\<close>

definition active_configuration :: "'s usb \<Rightarrow> RockusbDevice \<Rightarrow> ('s, interface list) io" where
  "active_configuration U dev =
     io_try (us_get_active_configuration U (rd_dev dev))
       (\<lambda>e. if e = USBError
         then io_then
           (io_try (us_set_configuration U (rd_dev dev))
              (\<lambda>e. if e = USBError then io_raise RockusbUsbError else io_raise e) io_return)
           (us_get_active_configuration U (rd_dev dev))
         else io_raise e)
       io_return"

fun bulk_pair :: "interface list \<Rightarrow> (interface \<times> endpoint \<times> endpoint) option" where
  "bulk_pair [] = None"
| "bulk_pair (intf # cfg) =
     (case (List.find (\<lambda>e. ep_is_in e \<and> ep_is_bulk e) (if_endpoints intf),
            List.find (\<lambda>e. \<not> ep_is_in e \<and> ep_is_bulk e) (if_endpoints intf)) of
        (Some ep_in, Some ep_out) \<Rightarrow> Some (intf, ep_in, ep_out)
      | _ \<Rightarrow> bulk_pair cfg)"

definition detach_driver :: "'s usb \<Rightarrow> RockusbDevice \<Rightarrow> int \<Rightarrow> ('s, RockusbDevice) io" where
  "detach_driver U dev number =
     io_try
       (io_bind (us_is_kernel_driver_active U (rd_dev dev) number) (\<lambda>active.
          if active
          then io_then (us_detach_kernel_driver U (rd_dev dev) number)
            (io_return (dev\<lparr>rd_detached_interface := Some number\<rparr>))
          else io_return dev))
       (\<lambda>e. if e \<in> {NotImplementedError, USBError} then io_return dev else io_raise e) io_return"

definition reattach_kernel_driver :: "'s usb \<Rightarrow> RockusbDevice \<Rightarrow> ('s, RockusbDevice) io" where
  "reattach_kernel_driver U dev = (case rd_detached_interface dev of
     None \<Rightarrow> io_return dev
   | Some n \<Rightarrow> io_try (us_attach_kernel_driver U (rd_dev dev) n)
       (\<lambda>_. io_return (dev\<lparr>rd_detached_interface := None\<rparr>))
       (\<lambda>_. io_return (dev\<lparr>rd_detached_interface := None\<rparr>)))"

definition clear_stall :: "'s usb \<Rightarrow> RockusbDevice \<Rightarrow> endpoint option \<Rightarrow> ('s, unit) io" where
  "clear_stall U dev ep = (case ep of
     None \<Rightarrow> io_return ()
   | Some e \<Rightarrow> io_try (us_clear_halt U (rd_dev dev) e) (\<lambda>_. io_return ()) io_return)"

definition clear_stalls :: "'s usb \<Rightarrow> RockusbDevice \<Rightarrow> ('s, unit) io" where
  "clear_stalls U dev = io_then (clear_stall U dev (rd_ep_out dev)) (clear_stall U dev (rd_ep_in dev))"

definition max_packet :: "endpoint \<Rightarrow> nat" where
  "max_packet ep = (if ep_max_packet ep = 0 then 512 else ep_max_packet ep)"

fun drain_loop :: "'s usb \<Rightarrow> RockusbDevice \<Rightarrow> endpoint \<Rightarrow> nat \<Rightarrow> ('s, unit) io" where
  "drain_loop U dev ep 0 = io_return ()"
| "drain_loop U dev ep (Suc n) =
     io_try (us_read U (rd_dev dev) ep (max_packet ep) 50)
       (\<lambda>_. io_return ())
       (\<lambda>stale. if stale = [] then io_return () else drain_loop U dev ep n)"

definition drain_stale_input :: "'s usb \<Rightarrow> RockusbDevice \<Rightarrow> ('s, unit) io" where
  "drain_stale_input U dev = (case rd_ep_in dev of None \<Rightarrow> io_return () | Some ep \<Rightarrow> drain_loop U dev ep 8)"

definition device_open :: "'s usb \<Rightarrow> RockusbDevice \<Rightarrow> ('s, RockusbDevice) io" where
  "device_open U dev =
     io_bind (active_configuration U dev) (\<lambda>cfg.
       let dev = (case bulk_pair cfg of
             Some (intf, ep_in, ep_out) \<Rightarrow> dev\<lparr>rd_interface := Some intf, rd_ep_in := Some ep_in, rd_ep_out := Some ep_out\<rparr>
           | None \<Rightarrow> dev)
       in case rd_interface dev of
         None \<Rightarrow> if fd_mode (rd_found dev) = MASKROM then io_return dev else io_raise RockusbUsbError
       | Some intf \<Rightarrow>
           let number = bInterfaceNumber intf in
           io_bind (detach_driver U dev number) (\<lambda>dev.
             io_try (io_then (us_claim_interface U (rd_dev dev) number)
                 (io_then (clear_stalls U dev) (drain_stale_input U dev)))
               (\<lambda>e. if e = USBError then io_then (reattach_kernel_driver U dev) (io_raise RockusbUsbError) else io_raise e)
               (\<lambda>_. io_return dev)))"

definition device_close :: "'s usb \<Rightarrow> RockusbDevice \<Rightarrow> ('s, RockusbDevice) io" where
  "device_close U dev =
     io_then
       (io_try
          (io_then (case rd_interface dev of
               Some intf \<Rightarrow> us_release_interface U (rd_dev dev) (bInterfaceNumber intf)
             | None \<Rightarrow> io_return ())
             (us_dispose_resources U (rd_dev dev)))
          (\<lambda>_. io_return ()) io_return)
       (reattach_kernel_driver U dev)"

section \<open>Transfers\<close>

definition control_write :: "'s usb \<Rightarrow> RockusbDevice \<Rightarrow> int \<Rightarrow> bytes \<Rightarrow> ('s, nat) io" where
  "control_write U dev code payload =
     io_try (us_ctrl_transfer U (rd_dev dev) code payload (rd_timeout_ms dev))
       (\<lambda>_. io_raise RockusbUsbError)
       (\<lambda>written. if written \<noteq> length payload then io_raise RockusbUsbError else io_return written)"

definition read_bulk :: "'s usb \<Rightarrow> RockusbDevice \<Rightarrow> endpoint \<Rightarrow> nat \<Rightarrow> ('s, bytes) io" where
  "read_bulk U dev ep len =
     (let mps = max_packet ep; rounded = (len + mps - 1) div mps * mps
      in io_bind (us_read U (rd_dev dev) ep rounded (rd_timeout_ms dev)) (\<lambda>data. io_return (take len data)))"

definition write_bulk :: "'s usb \<Rightarrow> RockusbDevice \<Rightarrow> endpoint \<Rightarrow> bytes \<Rightarrow> ('s, unit) io" where
  "write_bulk U dev ep data =
     io_try (us_write U (rd_dev dev) ep data (rd_timeout_ms dev))
       (\<lambda>_. io_raise RockusbUsbError)
       (\<lambda>written. if written \<noteq> length data then io_raise RockusbUsbError else io_return ())"

text \<open>The data phase of a command: a read, a write, or nothing.\<close>

definition transfer_data :: "'s usb \<Rightarrow> RockusbDevice \<Rightarrow> endpoint \<Rightarrow> endpoint \<Rightarrow> bytes \<Rightarrow> nat \<Rightarrow> ('s, bytes) io" where
  "transfer_data U dev ep_in ep_out data_out read_length =
     io_try
       (if 0 < read_length then read_bulk U dev ep_in read_length
        else if data_out \<noteq> [] then io_then (write_bulk U dev ep_out data_out) (io_return [])
        else io_return [])
       (\<lambda>_. io_raise RockusbUsbError) io_return"

definition check_status :: "int \<Rightarrow> int \<Rightarrow> bytes \<Rightarrow> nat \<Rightarrow> bytes \<Rightarrow> exn + bytes" where
  "check_status tag opcode csw read_length payload =
     sum_bind (parse_csw csw (Some tag)) (\<lambda>(_, residue, status).
       if status \<noteq> 0 then Inl RockusbUsbError
       else if residue \<noteq> 0 \<and> residue_is_meaningful opcode then Inl RockusbUsbError
       else if 0 < read_length \<and> length payload \<noteq> read_length then Inl RockusbUsbError
       else Inr payload)"

definition command ::
  "'s usb \<Rightarrow> RockusbDevice \<Rightarrow> Opcode \<Rightarrow> int \<Rightarrow> int \<Rightarrow> int \<Rightarrow> bytes \<Rightarrow> nat \<Rightarrow> bool \<Rightarrow> ('s, bytes) io" where
  "command U dev opcode subcode address count data_out read_length tolerate_disconnect =
     (case (rd_ep_in dev, rd_ep_out dev) of
        (Some ep_in, Some ep_out) \<Rightarrow>
          io_bind (us_randbits32 U) (\<lambda>tag.
          io_bind (io_lift (build_cbw tag (Opcode_value opcode) subcode address count
              (if 0 < read_length then int read_length else int (length data_out)) (0 < read_length))) (\<lambda>cbw.
          io_then (write_bulk U dev ep_out cbw)
          (io_bind (transfer_data U dev ep_in ep_out data_out read_length) (\<lambda>payload.
          io_try (us_read U (rd_dev dev) ep_in CSW_LENGTH (rd_timeout_ms dev))
            (\<lambda>_. if tolerate_disconnect then io_return [] else io_raise RockusbUsbError)
            (\<lambda>csw. io_lift (check_status tag (Opcode_value opcode) csw read_length payload))))))
      | _ \<Rightarrow> io_raise RockusbUsbError)"

section \<open>Recovery of a board\<close>

definition USBPLUG_SETTLE :: usec where "USBPLUG_SETTLE = 1000000"
definition POLL_INTERVAL :: usec where "POLL_INTERVAL = 250000"
definition DEVICE_TIMEOUT_MS :: nat where "DEVICE_TIMEOUT_MS = 5000"

definition report :: "'s usb \<Rightarrow> Stage \<Rightarrow> nat \<Rightarrow> nat \<Rightarrow> ('s, unit) io" where
  "report U stage done tot = us_emit U \<lparr>pe_stage = stage, pe_bytes_sent = int done, pe_bytes_total = int tot\<rparr>"

fun upload_chunks :: "'s usb \<Rightarrow> RockusbDevice \<Rightarrow> int \<Rightarrow> Stage \<Rightarrow> nat \<Rightarrow> nat \<Rightarrow> bytes list \<Rightarrow> ('s, unit) io" where
  "upload_chunks U dev code stage tot sent [] = io_return ()"
| "upload_chunks U dev code stage tot sent (c # cs) =
     io_bind (control_write U dev code c) (\<lambda>written.
       io_then (report U stage (sent + written) tot) (upload_chunks U dev code stage tot (sent + written) cs))"

definition upload :: "'s usb \<Rightarrow> RockusbDevice \<Rightarrow> int \<Rightarrow> bool \<Rightarrow> Stage \<Rightarrow> bytes \<Rightarrow> ('s, unit) io" where
  "upload U dev code encrypt stage blob =
     io_bind (io_lift (build_maskrom_chunks blob encrypt)) (\<lambda>chunks.
       upload_chunks U dev code stage (sum_list (map length chunks)) 0 chunks)"

fun upload_entries :: "'s usb \<Rightarrow> RockusbDevice \<Rightarrow> int \<Rightarrow> bool \<Rightarrow> Stage \<Rightarrow> LoaderEntry list \<Rightarrow> ('s, unit) io" where
  "upload_entries U dev code encrypt stage [] = io_return ()"
| "upload_entries U dev code encrypt stage (e # es) =
     io_then (upload U dev code encrypt stage (le_data e))
       (io_then (if le_delay_ms e \<noteq> 0 then us_sleep U (le_delay_ms e * 1000) else io_return ())
         (upload_entries U dev code encrypt stage es))"

text \<open>The device that comes back in the given mode, opened.\<close>

definition reacquire ::
  "'s usb \<Rightarrow> nat \<Rightarrow> RockusbDevice \<Rightarrow> usec \<Rightarrow> DeviceMode \<Rightarrow> string option \<Rightarrow> int list option \<Rightarrow> ('s, RockusbDevice) io" where
  "reacquire U fuel dev timeout mode usb_path recovery_ids =
     io_then (device_close U dev) (io_then (us_sleep U USBPLUG_SETTLE)
       (io_bind (wait_for_device U fuel timeout (Some mode) POLL_INTERVAL usb_path recovery_ids) (\<lambda>found.
         device_open U (RockusbDevice_init found DEVICE_TIMEOUT_MS))))"

definition download_boot ::
  "'s usb \<Rightarrow> nat \<Rightarrow> RockusbDevice \<Rightarrow> LoaderBlobs \<Rightarrow> usec \<Rightarrow> string option \<Rightarrow> int list option \<Rightarrow> ('s, RockusbDevice) io" where
  "download_boot U fuel dev blobs reenumerate_timeout usb_path recovery_ids =
     (if fd_mode (rd_found dev) \<noteq> MASKROM then io_return dev
      else io_then (upload_entries U dev CODE_471 (use_rc4 blobs) DDR_INIT (ddr blobs))
        (io_then (upload_entries U dev CODE_472 (use_rc4 blobs) USBPLUG (usbplug blobs))
          (io_bind (reacquire U fuel dev reenumerate_timeout LOADER usb_path recovery_ids) (\<lambda>dev.
            io_then (report U USBPLUG 1 1) (io_return dev)))))"

definition pad_sector :: "bytes \<Rightarrow> bytes" where
  "pad_sector data =
     (if length data mod SECTOR_SIZE \<noteq> 0 then data @ replicate (SECTOR_SIZE - length data mod SECTOR_SIZE) 0 else data)"

fun write_transfers :: "'s usb \<Rightarrow> RockusbDevice \<Rightarrow> int \<Rightarrow> bytes \<Rightarrow> nat \<Rightarrow> nat \<Rightarrow> (int \<times> int) list \<Rightarrow> ('s, unit) io" where
  "write_transfers U dev start_lba data tot written [] = io_return ()"
| "write_transfers U dev start_lba data tot written ((lba, count) # ts) =
     (let offset = nat (lba - start_lba) * SECTOR_SIZE in
      io_then (command U dev WRITE_LBA 0 lba count (pyslice offset (offset + nat count * SECTOR_SIZE) data) 0 False)
        (let written = written + nat count in
         io_then (report U FLASH_WRITE (written * SECTOR_SIZE) (tot * SECTOR_SIZE))
           (write_transfers U dev start_lba data tot written ts)))"

definition write_image :: "'s usb \<Rightarrow> RockusbDevice \<Rightarrow> int \<Rightarrow> bytes \<Rightarrow> ('s, unit) io" where
  "write_image U dev start_lba data =
     (let data = pad_sector data; tot = length data div SECTOR_SIZE
      in io_bind (io_lift (split_lba_transfers start_lba (int tot) MAX_SECTORS_PER_TRANSFER)) (\<lambda>ts.
         write_transfers U dev start_lba data tot 0 ts))"

fun dump_transfers ::
  "'s usb \<Rightarrow> RockusbDevice \<Rightarrow> (bytes \<Rightarrow> ('s, unit) io) \<Rightarrow> nat \<Rightarrow> nat \<Rightarrow> (int \<times> int) list \<Rightarrow> ('s, nat) io" where
  "dump_transfers U dev sink tot done [] = io_return done"
| "dump_transfers U dev sink tot done ((lba, count) # ts) =
     io_bind (command U dev READ_LBA 0 lba count [] (nat count * SECTOR_SIZE) False) (\<lambda>chunk.
       io_then (sink chunk)
         (io_then (report U FLASH_READ (done + length chunk) tot)
           (dump_transfers U dev sink tot (done + length chunk) ts)))"

definition dump_image :: "'s usb \<Rightarrow> RockusbDevice \<Rightarrow> int \<Rightarrow> int \<Rightarrow> (bytes \<Rightarrow> ('s, unit) io) \<Rightarrow> ('s, nat) io" where
  "dump_image U dev start_lba sectors sink =
     io_bind (io_lift (split_lba_transfers start_lba sectors MAX_SECTORS_PER_TRANSFER)) (\<lambda>ts.
       dump_transfers U dev sink (nat sectors * SECTOR_SIZE) 0 ts)"

fun read_transfers :: "'s usb \<Rightarrow> RockusbDevice \<Rightarrow> bytes \<Rightarrow> (int \<times> int) list \<Rightarrow> ('s, bytes) io" where
  "read_transfers U dev out [] = io_return out"
| "read_transfers U dev out ((lba, count) # ts) =
     io_bind (command U dev READ_LBA 0 lba count [] (nat count * SECTOR_SIZE) False) (\<lambda>chunk.
       read_transfers U dev (out @ chunk) ts)"

definition read_image :: "'s usb \<Rightarrow> RockusbDevice \<Rightarrow> int \<Rightarrow> int \<Rightarrow> ('s, bytes) io" where
  "read_image U dev start_lba sectors =
     io_bind (io_lift (split_lba_transfers start_lba sectors MAX_SECTORS_PER_TRANSFER)) (read_transfers U dev [])"

definition read_flash_info :: "'s usb \<Rightarrow> RockusbDevice \<Rightarrow> ('s, FlashInfo) io" where
  "read_flash_info U dev =
     io_bind (command U dev READ_FLASH_INFO 0 0 0 [] FLASH_INFO_LENGTH False) (\<lambda>data. io_lift (parse_flash_info data))"

definition read_flash_id :: "'s usb \<Rightarrow> RockusbDevice \<Rightarrow> ('s, bytes) io" where
  "read_flash_id U dev = command U dev READ_FLASH_ID 0 0 0 [] 5 False"

definition rock_reset :: "'s usb \<Rightarrow> RockusbDevice \<Rightarrow> ResetSubcode \<Rightarrow> ('s, unit) io" where
  "rock_reset U dev subcode = io_then (command U dev RESET_DEVICE (ResetSubcode_value subcode) 0 0 [] 0 True) (io_return ())"

definition return_to_maskrom ::
  "'s usb \<Rightarrow> nat \<Rightarrow> RockusbDevice \<Rightarrow> string option \<Rightarrow> int list option \<Rightarrow> usec \<Rightarrow> ('s, RockusbDevice) io" where
  "return_to_maskrom U fuel dev usb_path recovery_ids timeout =
     (if fd_mode (rd_found dev) = MASKROM then io_return dev
      else io_then (rock_reset U dev RESET_MASKROM) (reacquire U fuel dev timeout MASKROM usb_path recovery_ids))"

section \<open>Traffic on the bus\<close>

datatype usb_event = Bulk_out bytes | Bulk_in bytes | Control int bytes

text \<open>
  The flash of a device as the traffic determines it: acknowledged sector writes change it, and what a sector read
  returned must be its contents. There is no flash for traffic that is not a sequence of such commands.
\<close>

definition store :: "(int \<Rightarrow> byte) \<Rightarrow> int \<Rightarrow> bytes \<Rightarrow> int \<Rightarrow> byte" where
  "store f a xs = (\<lambda>i. if a \<le> i \<and> i < a + int (length xs) then xs ! nat (i - a) else f i)"

definition contents :: "(int \<Rightarrow> byte) \<Rightarrow> int \<Rightarrow> nat \<Rightarrow> bytes" where
  "contents f a n = map (\<lambda>i. f (a + int i)) [0..<n]"

definition lba_command :: "Opcode \<Rightarrow> bytes \<Rightarrow> bytes \<Rightarrow> (int \<times> nat) option" where
  "lba_command opc w csw = (case decode_cbw w of
     None \<Rightarrow> None
   | Some cb \<Rightarrow>
       if cbw_opcode cb = Opcode_value opc \<and> cbw_in cb = (opc = READ_LBA) \<and> cbw_length cb = 512 * cbw_count cb
         \<and> parse_csw csw (Some (cbw_tag cb)) = Inr (cbw_tag cb, 0, 0)
       then Some (512 * cbw_address cb, nat (cbw_length cb)) else None)"

fun plug :: "(int \<Rightarrow> byte) \<Rightarrow> usb_event list \<Rightarrow> (int \<Rightarrow> byte) option" where
  "plug f [] = Some f"
| "plug f (Bulk_out w # Bulk_out d # Bulk_in csw # evs) = (case lba_command WRITE_LBA w csw of
     Some (a, n) \<Rightarrow> if length d = n then plug (store f a d) evs else None
   | None \<Rightarrow> None)"
| "plug f (Bulk_out w # Bulk_in d # Bulk_in csw # evs) = (case lba_command READ_LBA w csw of
     Some (a, n) \<Rightarrow> if take n d = contents f a n then plug f evs else None
   | None \<Rightarrow> None)"
| "plug f _ = None"

lemma store_append: "store (store f a xs) (a + int (length xs)) ys = store f a (xs @ ys)"
  by (auto simp: store_def fun_eq_iff nth_append nat_less_iff intro!: arg_cong [where f = "(!) ys"])

lemma store_Nil [simp]: "store f a [] = f"
  by (auto simp: store_def fun_eq_iff)

lemma contents_append: "contents f a (m + n) = contents f a m @ contents f (a + int m) n"
  by (rule nth_equalityI) (auto simp: contents_def nth_append)

lemma length_contents [simp]: "length (contents f a n) = n"
  by (simp add: contents_def)

lemma contents_store: "contents (store f a xs) a (length xs) = xs"
  by (rule nth_equalityI) (simp_all add: contents_def store_def)

lemma check_status_Inr:
  assumes "check_status tag opcode csw n payload = Inr x" "residue_is_meaningful opcode"
  shows "x = payload" "parse_csw csw (Some (tag mod 2 ^ 32)) = Inr (tag mod 2 ^ 32, 0, 0)" "0 < n \<Longrightarrow> length payload = n"
  using assms by (auto simp: check_status_def sum_bind_def parse_csw_def and_mask32 Let_def split: sum.splits if_splits)

lemma lba_command_checked:
  assumes "build_cbw tag (Opcode_value opc) 0 lba count (512 * count) (opc = READ_LBA) = Inr w"
    and "check_status tag (Opcode_value opc) csw n payload = Inr x" "opc \<in> {READ_LBA, WRITE_LBA}"
  shows "lba_command opc w csw = Some (512 * lba, nat (512 * count))"
  using build_cbw_fields(2) [OF assms(1)] check_status_Inr(2) [OF assms(2)] assms(3)
  by (auto simp: lba_command_def residue_is_meaningful_def ADDRESSED_OPCODES_def data_phase_def Opcode_value_def)

text \<open>The traffic \<open>evs\<close> stores \<open>data\<close> from sector \<open>lba\<close> on, or reads it from there.\<close>

definition stores :: "int \<Rightarrow> bytes \<Rightarrow> usb_event list \<Rightarrow> bool" where
  "stores lba data evs \<longleftrightarrow> (\<forall>f rest. plug f (evs @ rest) = plug (store f (512 * lba) data) rest)"

definition reads :: "int \<Rightarrow> bytes \<Rightarrow> usb_event list \<Rightarrow> bool" where
  "reads lba data evs \<longleftrightarrow>
     (\<forall>f rest. plug f (evs @ rest) = (if data = contents f (512 * lba) (length data) then plug f rest else None))"

lemma stores_Nil: "stores lba [] []"
  by (simp add: stores_def)

lemma stores_append:
  "stores lba xs es \<Longrightarrow> length xs = nat (512 * n) \<Longrightarrow> 0 \<le> n \<Longrightarrow> stores (lba + n) ys es' \<Longrightarrow> stores lba (xs @ ys) (es @ es')"
  using store_append [of _ "512 * lba" xs ys] by (simp add: stores_def algebra_simps)

lemma reads_Nil: "reads lba [] []"
  by (simp add: reads_def contents_def)

lemma reads_append:
  "reads lba xs es \<Longrightarrow> length xs = nat (512 * n) \<Longrightarrow> 0 \<le> n \<Longrightarrow> reads (lba + n) ys es' \<Longrightarrow> reads lba (xs @ ys) (es @ es')"
  using contents_append [of _ "512 * lba" "length xs" "length ys"]
  by (auto simp: reads_def algebra_simps append_eq_append_conv)

lemma stores_reads:
  assumes "stores lba data es" "reads lba out es'" "length out = length data"
  shows "plug f (es @ es') = (if out = data then Some (store f (512 * lba) data) else None)"
proof -
  have "plug f (es @ es') = plug (store f (512 * lba) data) (es' @ [])" using assms(1) by (simp add: stores_def)
  also have "\<dots> = (if out = data then Some (store f (512 * lba) data) else None)"
    using assms(2) [unfolded reads_def assms(3), rule_format, of "store f (512 * lba) data" "[]"]
      contents_store [of f "512 * lba" data] by simp
  finally show ?thesis .
qed

lemma length_pad_sector: "length (pad_sector data) = 512 * (length (pad_sector data) div 512)"
proof -
  have "length data + 512 - length data mod 512 = 512 * Suc (length data div 512)"
  proof -
    have "d + 512 - r = 512 * Suc q" if "512 * q + r = d" for d q r :: nat using that by simp
    then show ?thesis using mult_div_mod_eq [of 512 "length data"] by blast
  qed
  then have "length (pad_sector data) mod 512 = 0"
    by (simp add: pad_sector_def SECTOR_SIZE_def del: mult_Suc_right)
  then show ?thesis by (metis add.right_neutral mult_div_mod_eq)
qed

text \<open>The control transfers that upload the entries of a loader, and a device found where it was looked for.\<close>

definition code_upload :: "int \<Rightarrow> bool \<Rightarrow> LoaderEntry list \<Rightarrow> usb_event list" where
  "code_upload code encrypt es =
     concat (map (\<lambda>e. case build_maskrom_chunks (le_data e) encrypt of Inr cs \<Rightarrow> map (Control code) cs | Inl _ \<Rightarrow> []) es)"

definition same_board :: "string option \<Rightarrow> int list option \<Rightarrow> FoundDevice \<Rightarrow> bool" where
  "same_board usb_path recovery_ids d \<longleftrightarrow>
     (case usb_path of None \<Rightarrow> True | Some p \<Rightarrow> usb_path_of d = p)
     \<and> (case recovery_ids of None \<Rightarrow> True | Some ids \<Rightarrow> ids = [] \<or> fd_product_id d \<in> set ids)"

text \<open>A bus whose transfers are observed: the laws a client can rely on.\<close>

locale observed_usb =
  fixes U :: "'s usb" and obs :: "'s \<Rightarrow> usb_event list"
  assumes write_obs: "wlp (us_write U h ep d t) s (\<lambda>r s'. obs s' = obs s @ [Bulk_out d])"
    and read_obs: "wlp (us_read U h ep n t) s (\<lambda>r s'. obs s' = obs s @ (case r of Inr d \<Rightarrow> [Bulk_in d] | Inl _ \<Rightarrow> []))"
    and ctrl_obs: "wlp (us_ctrl_transfer U h code d t) s (\<lambda>r s'. obs s' = obs s @ [Control code d])"
    and randbits_obs: "wlp (us_randbits32 U) s (\<lambda>r s'. obs s' = obs s)"
    and emit_obs: "wlp (us_emit U ev) s (\<lambda>r s'. obs s' = obs s)"
    and sleep_obs: "wlp (us_sleep U dt) s (\<lambda>r s'. obs s' = obs s)"
    and find_obs: "wlp (us_find U v) s (\<lambda>r s'. obs s' = obs s)"
    and get_configuration_obs: "wlp (us_get_active_configuration U h) s (\<lambda>r s'. obs s' = obs s)"
    and set_configuration_obs: "wlp (us_set_configuration U h) s (\<lambda>r s'. obs s' = obs s)"
    and driver_active_obs: "wlp (us_is_kernel_driver_active U h i) s (\<lambda>r s'. obs s' = obs s)"
    and detach_obs: "wlp (us_detach_kernel_driver U h i) s (\<lambda>r s'. obs s' = obs s)"
    and attach_obs: "wlp (us_attach_kernel_driver U h i) s (\<lambda>r s'. obs s' = obs s)"
    and claim_obs: "wlp (us_claim_interface U h i) s (\<lambda>r s'. obs s' = obs s)"
    and release_obs: "wlp (us_release_interface U h i) s (\<lambda>r s'. obs s' = obs s)"
    and dispose_obs: "wlp (us_dispose_resources U h) s (\<lambda>r s'. obs s' = obs s)"
    and clear_halt_obs: "wlp (us_clear_halt U h ep) s (\<lambda>r s'. obs s' = obs s)"
begin

lemma wlp_us_writeI: "(\<And>r s'. obs s' = obs s @ [Bulk_out d] \<Longrightarrow> Q r s') \<Longrightarrow> wlp (us_write U h ep d t) s Q"
  by (rule wlp_mono [OF write_obs])

lemma wlp_us_readI:
  "(\<And>r s'. obs s' = obs s @ (case r of Inr d \<Rightarrow> [Bulk_in d] | Inl _ \<Rightarrow> []) \<Longrightarrow> Q r s') \<Longrightarrow> wlp (us_read U h ep n t) s Q"
  by (rule wlp_mono [OF read_obs])

lemma wlp_us_ctrlI: "(\<And>r s'. obs s' = obs s @ [Control code d] \<Longrightarrow> Q r s') \<Longrightarrow> wlp (us_ctrl_transfer U h code d t) s Q"
  by (rule wlp_mono [OF ctrl_obs])

lemma wlp_us_randbitsI: "(\<And>r s'. obs s' = obs s \<Longrightarrow> Q r s') \<Longrightarrow> wlp (us_randbits32 U) s Q"
  by (rule wlp_mono [OF randbits_obs])

lemma wlp_reportI: "(\<And>r s'. obs s' = obs s \<Longrightarrow> Q r s') \<Longrightarrow> wlp (report U st a b) s Q"
  unfolding report_def by (rule wlp_mono [OF emit_obs])

lemma wlp_us_sleepI: "(\<And>r s'. obs s' = obs s \<Longrightarrow> Q r s') \<Longrightarrow> wlp (us_sleep U dt) s Q"
  by (rule wlp_mono [OF sleep_obs])

lemmas wlp_usb = wlp_us_writeI wlp_us_readI wlp_us_ctrlI wlp_us_randbitsI wlp_reportI wlp_us_sleepI

text \<open>A command that returns was written, and its status wrapper read, whole.\<close>

lemma command_write_obs:
  assumes "data \<noteq> []"
  shows "wlp (command U dev opc sub adr cnt data 0 False) s (\<lambda>r s'. \<forall>x. r = Inr x \<longrightarrow> (\<exists>tag w csw.
    obs s' = obs s @ [Bulk_out w, Bulk_out data, Bulk_in csw]
    \<and> build_cbw tag (Opcode_value opc) sub adr cnt (int (length data)) False = Inr w
    \<and> check_status tag (Opcode_value opc) csw 0 [] = Inr x))"
  unfolding command_def write_bulk_def transfer_data_def using assms
  by (auto simp: wp intro!: wlp_usb split: option.split sum.split)

lemma command_read_obs:
  assumes "0 < n"
  shows "wlp (command U dev opc sub adr cnt [] n False) s (\<lambda>r s'. \<forall>x. r = Inr x \<longrightarrow> (\<exists>tag w d csw.
    obs s' = obs s @ [Bulk_out w, Bulk_in d, Bulk_in csw]
    \<and> build_cbw tag (Opcode_value opc) sub adr cnt (int n) True = Inr w
    \<and> check_status tag (Opcode_value opc) csw n (take n d) = Inr x))"
  unfolding command_def write_bulk_def transfer_data_def read_bulk_def Let_def using assms
  by (auto simp: wp intro!: wlp_usb split: option.split sum.split)

lemma write_command_plug:
  assumes "length data = nat (512 * count)" "0 < count"
  shows "wlp (command U dev WRITE_LBA 0 lba count data 0 False) s (\<lambda>r s'. \<forall>x. r = Inr x \<longrightarrow> (\<exists>evs.
    obs s' = obs s @ evs \<and> stores lba data evs))"
proof -
  have ne: "data \<noteq> []" and len: "int (length data) = 512 * count" using assms by auto
  have "stores lba data [Bulk_out w, Bulk_out data, Bulk_in csw]"
    if "build_cbw tag (Opcode_value WRITE_LBA) 0 lba count (int (length data)) False = Inr w"
      "check_status tag (Opcode_value WRITE_LBA) csw 0 [] = Inr x" for tag w csw x
    using lba_command_checked [of tag WRITE_LBA lba count w csw 0 "[]" x] that assms len by (simp add: stores_def)
  then show ?thesis
    by (intro wlp_mono [OF command_write_obs [OF ne]]) blast
qed

lemma read_command_plug:
  assumes "0 < count"
  shows "wlp (command U dev READ_LBA 0 lba count [] (nat count * SECTOR_SIZE) False) s (\<lambda>r s'. \<forall>x. r = Inr x \<longrightarrow>
    length x = nat (512 * count) \<and> (\<exists>evs. obs s' = obs s @ evs \<and> reads lba x evs))"
proof -
  have n: "0 < nat count * SECTOR_SIZE" "int (nat (512 * count)) = 512 * count" "nat count * SECTOR_SIZE = nat (512 * count)"
    using assms by (simp_all add: SECTOR_SIZE_def nat_mult_distrib)
  have read: "length x = nat (512 * count) \<and> reads lba x [Bulk_out w, Bulk_in d, Bulk_in csw]"
    if "build_cbw tag (Opcode_value READ_LBA) 0 lba count (512 * count) True = Inr w"
      "check_status tag (Opcode_value READ_LBA) csw (nat (512 * count)) (take (nat (512 * count)) d) = Inr x"
    for tag w csw x d
    using lba_command_checked [of tag READ_LBA lba count w csw "nat (512 * count)"] that n
      check_status_Inr [OF that(2)]
    by (auto simp: reads_def residue_is_meaningful_def ADDRESSED_OPCODES_def)
  show ?thesis
    using command_read_obs [OF n(1), of dev READ_LBA 0 lba count s] unfolding n(3) n(2)
    by (rule wlp_mono) (use read in blast)
qed

lemma write_transfers_stores:
  assumes "length data = nat (512 * (lba - start + rem))" "start \<le> lba" "0 \<le> rem" "0 < m"
  shows "wlp (write_transfers U dev start data tot w (split_loop m lba rem)) s (\<lambda>r s'. \<forall>x. r = Inr x \<longrightarrow>
    (\<exists>evs. obs s' = obs s @ evs \<and> stores lba (drop (nat (512 * (lba - start))) data) evs))"
  using assms
proof (induction m lba rem arbitrary: w s rule: split_loop.induct)
  case (1 m lba rem)
  show ?case
  proof (cases "rem = 0")
    case True
    with 1 show ?thesis by (simp add: split_loop.simps wp stores_Nil)
  next
    case False
    define n where "n = min rem m"
    have n: "0 < n" "n \<le> rem" using False 1 by (auto simp: n_def)
    define xs where "xs = pyslice (nat (lba - start) * SECTOR_SIZE) (nat (lba - start) * SECTOR_SIZE + nat n * SECTOR_SIZE) data"
    have off: "nat (lba - start) * SECTOR_SIZE = nat (512 * (lba - start))" "nat n * SECTOR_SIZE = nat (512 * n)"
      using 1 n by (simp_all add: SECTOR_SIZE_def nat_mult_distrib)
    have len: "length xs = nat (512 * n)" using 1 n by (simp add: xs_def off)
    define ys where "ys = drop (nat (512 * (lba + n - start))) data"
    have rest: "drop (nat (512 * (lba - start))) data = xs @ ys"
    proof -
      have "nat (512 * (lba + n - start)) = nat (512 * n) + nat (512 * (lba - start))"
        using 1 n by (simp add: nat_add_distrib [symmetric] algebra_simps)
      then show ?thesis unfolding xs_def ys_def off pyslice_def by (simp flip: drop_drop)
    qed
    have more: "wlp (write_transfers U dev start data tot w' (split_loop m (lba + n) (rem - n))) s1 (\<lambda>r s'. \<forall>x. r = Inr x \<longrightarrow>
      (\<exists>evs. obs s' = obs s @ evs \<and> stores lba (xs @ ys) evs))"
      if "\<exists>es. obs s1 = obs s @ es \<and> stores lba xs es" for w' s1
    proof (rule wlp_mono)
      show "wlp (write_transfers U dev start data tot w' (split_loop m (lba + n) (rem - n))) s1 (\<lambda>r s'. \<forall>x. r = Inr x \<longrightarrow>
        (\<exists>evs. obs s' = obs s1 @ evs \<and> stores (lba + n) ys evs))"
        unfolding ys_def using 1 n False by (intro 1(1)) (auto simp: n_def algebra_simps)
    qed (use that stores_append [OF _ len] n in fastforce)
    have "split_loop m lba rem = (lba, n) # split_loop m (lba + n) (rem - n)"
      using 1 False by (subst split_loop.simps) (simp add: n_def Let_def)
    then show ?thesis
      unfolding rest
      by (auto simp: Let_def xs_def [symmetric] wp intro!: wlp_mono [OF write_command_plug [OF len n(1)]] wlp_reportI
          more [simplified] split: sum.split)
  qed
qed

lemma read_transfers_reads:
  assumes "0 \<le> rem" "0 < m"
  shows "wlp (read_transfers U dev out (split_loop m lba rem)) s (\<lambda>r s'. \<forall>x. r = Inr x \<longrightarrow>
    (\<exists>evs ys. obs s' = obs s @ evs \<and> x = out @ ys \<and> length ys = nat (512 * rem) \<and> reads lba ys evs))"
  using assms
proof (induction m lba rem arbitrary: out s rule: split_loop.induct)
  case (1 m lba rem)
  show ?case
  proof (cases "rem = 0")
    case True
    with 1 show ?thesis by (simp add: split_loop.simps wp reads_Nil)
  next
    case False
    define n where "n = min rem m"
    have n: "0 < n" "n \<le> rem" using False 1 by (auto simp: n_def)
    have more: "wlp (read_transfers U dev (out @ xs) (split_loop m (lba + n) (rem - n))) s1 (\<lambda>r s'. \<forall>x. r = Inr x \<longrightarrow>
      (\<exists>evs ys. obs s' = obs s @ evs \<and> x = out @ ys \<and> length ys = nat (512 * rem) \<and> reads lba ys evs))"
      if len: "length xs = nat (512 * n)" and es: "\<exists>es. obs s1 = obs s @ es \<and> reads lba xs es" for xs s1
    proof (rule wlp_mono)
      show "wlp (read_transfers U dev (out @ xs) (split_loop m (lba + n) (rem - n))) s1 (\<lambda>r s'. \<forall>x. r = Inr x \<longrightarrow>
        (\<exists>evs ys. obs s' = obs s1 @ evs \<and> x = (out @ xs) @ ys \<and> length ys = nat (512 * (rem - n)) \<and> reads (lba + n) ys evs))"
        using 1 n False by (intro 1(1)) (auto simp: n_def)
    next
      fix r s' assume post: "\<forall>x. r = Inr x \<longrightarrow>
        (\<exists>evs ys. obs s' = obs s1 @ evs \<and> x = (out @ xs) @ ys \<and> length ys = nat (512 * (rem - n)) \<and> reads (lba + n) ys evs)"
      have "nat (512 * n) + nat (512 * (rem - n)) = nat (512 * rem)"
        using n by (simp add: nat_add_distrib [symmetric])
      then show "\<forall>x. r = Inr x \<longrightarrow> (\<exists>evs ys. obs s' = obs s @ evs \<and> x = out @ ys \<and> length ys = nat (512 * rem) \<and> reads lba ys evs)"
        using post es reads_append [OF _ len] n len by (auto intro!: exI [of _ "xs @ _"])
    qed
    have "split_loop m lba rem = (lba, n) # split_loop m (lba + n) (rem - n)"
      using 1 False by (subst split_loop.simps) (simp add: n_def Let_def)
    then show ?thesis
      by (auto simp: wp intro!: wlp_mono [OF read_command_plug [OF n(1)]] more [simplified] split: sum.split)
  qed
qed

lemma write_image_stores:
  "wlp (write_image U dev start data) s (\<lambda>r s'. \<forall>x. r = Inr x \<longrightarrow>
    (\<exists>evs. obs s' = obs s @ evs \<and> stores start (pad_sector data) evs))"
  using write_transfers_stores [of "pad_sector data" start start "int (length (pad_sector data) div 512)" 512 dev
      "length (pad_sector data) div 512" 0 s] length_pad_sector [of data]
  by (simp add: write_image_def split_lba_transfers_def MAX_SECTORS_PER_TRANSFER_def SECTOR_SIZE_def Let_def wp nat_mult_distrib)

lemma read_image_reads:
  "wlp (read_image U dev start n) s (\<lambda>r s'. \<forall>x. r = Inr x \<longrightarrow>
    (\<exists>evs. obs s' = obs s @ evs \<and> length x = nat (512 * n) \<and> reads start x evs))"
  using read_transfers_reads [of n 512 dev "[]" start s]
  by (auto simp: read_image_def split_lba_transfers_def MAX_SECTORS_PER_TRANSFER_def wp split: sum.split elim!: wlp_mono)

lemmas quietI =
  wlp_mono [OF find_obs] wlp_mono [OF get_configuration_obs] wlp_mono [OF set_configuration_obs]
  wlp_mono [OF driver_active_obs] wlp_mono [OF detach_obs] wlp_mono [OF attach_obs] wlp_mono [OF claim_obs]
  wlp_mono [OF release_obs] wlp_mono [OF dispose_obs] wlp_mono [OF clear_halt_obs]

lemma upload_chunks_obs:
  "wlp (upload_chunks U dev code stage tot sent cs) s (\<lambda>r s'. \<forall>x. r = Inr x \<longrightarrow> obs s' = obs s @ map (Control code) cs)"
proof (induction cs arbitrary: sent s)
  case (Cons c cs)
  show ?case
    by (auto simp: wp control_write_def intro!: wlp_us_ctrlI wlp_reportI wlp_mono [OF Cons.IH] split: sum.split)
qed (simp add: wp)

lemma upload_entries_obs:
  "wlp (upload_entries U dev code encrypt stage es) s (\<lambda>r s'. \<forall>x. r = Inr x \<longrightarrow> obs s' = obs s @ code_upload code encrypt es)"
proof (induction es arbitrary: s)
  case (Cons e es)
  show ?case
    by (auto simp: wp upload_def code_upload_def [of _ _ "_ # _"] intro!: wlp_mono [OF upload_chunks_obs] wlp_us_sleepI
        wlp_mono [OF Cons.IH] split: sum.split) (simp_all add: code_upload_def)
qed (simp add: wp code_upload_def)

lemma drain_loop_obs: "wlp (drain_loop U dev ep n) s (\<lambda>r s'. \<exists>junk. obs s' = obs s @ map Bulk_in junk)"
proof (induction n arbitrary: s)
  case (Suc n)
  have "wlp (drain_loop U dev ep n) s1 (\<lambda>r s'. \<exists>junk. obs s' = obs s @ map Bulk_in junk)"
    if "obs s1 = obs s @ [Bulk_in d]" for s1 d
    using that by (intro wlp_mono [OF Suc.IH]) (metis append.assoc append_Cons append_Nil list.simps(9))
  then show ?case
    by (auto simp: wp intro!: wlp_us_readI split: sum.split intro: exI [of _ "[]"] exI [of _ "[_]"])
qed (simp add: wp)

lemma find_device_wanted:
  "wlp (find_device U usb_path ids) s (\<lambda>r s'. obs s' = obs s \<and> (\<forall>d. r = Inr (Some d) \<longrightarrow> same_board usb_path ids d))"
  unfolding find_device_def find_devices_def
  by (auto simp: wp same_board_def device_wanted_def found_of_def filter_eq_Cons_iff intro!: quietI
      split: sum.split list.split option.splits)

lemma wait_loop_wanted:
  "wlp (wait_loop U fuel deadline mode poll usb_path ids) s (\<lambda>r s'. obs s' = obs s
    \<and> (\<forall>d. r = Inr d \<longrightarrow> same_board usb_path ids d \<and> (mode = None \<or> mode = Some (fd_mode d))))"
proof (induction fuel arbitrary: s)
  case (Suc fuel)
  have again: "wlp (wait_loop U fuel deadline mode poll usb_path ids) s1 (\<lambda>r s'. obs s' = obs s
    \<and> (\<forall>d. r = Inr d \<longrightarrow> same_board usb_path ids d \<and> (mode = None \<or> mode = Some (fd_mode d))))"
    if "obs s1 = obs s" for s1
    using Suc.IH [of s1] that by simp
  show ?case
    using again
    by (cases mode; auto simp: wp intro!: wlp_mono [OF find_device_wanted] wlp_us_sleepI split: sum.split option.split)
qed (simp add: wp)

lemma reattach_obs: "wlp (reattach_kernel_driver U dev) s (\<lambda>r s'. obs s' = obs s)"
  unfolding reattach_kernel_driver_def by (auto simp: wp intro!: quietI split: option.split sum.split)

lemma device_close_obs: "wlp (device_close U dev) s (\<lambda>r s'. obs s' = obs s)"
  unfolding device_close_def
  by (auto simp: wp intro!: quietI wlp_mono [OF reattach_obs] split: option.split sum.split)

lemma active_configuration_obs: "wlp (active_configuration U dev) s (\<lambda>r s'. obs s' = obs s)"
  unfolding active_configuration_def by (auto simp: wp intro!: quietI split: sum.split)

lemma detach_driver_obs:
  "wlp (detach_driver U dev i) s (\<lambda>r s'. obs s' = obs s
    \<and> (\<forall>d. r = Inr d \<longrightarrow> rd_found d = rd_found dev \<and> rd_ep_in d = rd_ep_in dev \<and> rd_ep_out d = rd_ep_out dev))"
  unfolding detach_driver_def by (auto simp: wp intro!: quietI split: sum.split)

lemma clear_stalls_obs: "wlp (clear_stalls U dev) s (\<lambda>r s'. obs s' = obs s)"
  unfolding clear_stalls_def clear_stall_def by (auto simp: wp intro!: quietI split: sum.split option.split)

lemma drain_stale_input_obs: "wlp (drain_stale_input U dev) s (\<lambda>r s'. \<exists>junk. obs s' = obs s @ map Bulk_in junk)"
  unfolding drain_stale_input_def by (auto simp: wp intro!: drain_loop_obs split: option.split)

text \<open>A fresh device that opens in loader mode has both bulk endpoints.\<close>

lemma device_open_obs:
  "wlp (device_open U (RockusbDevice_init found t)) s (\<lambda>r s'. \<forall>d. r = Inr d \<longrightarrow>
    rd_found d = found \<and> (fd_mode found = LOADER \<longrightarrow> rd_ep_in d \<noteq> None \<and> rd_ep_out d \<noteq> None)
    \<and> (\<exists>junk. obs s' = obs s @ map Bulk_in junk))"
  unfolding device_open_def Let_def RockusbDevice_init_def
  by (auto simp: wp intro!: wlp_mono [OF active_configuration_obs] wlp_mono [OF detach_driver_obs] quietI
      wlp_mono [OF clear_stalls_obs] wlp_mono [OF drain_stale_input_obs] wlp_mono [OF reattach_obs]
      split: sum.split option.split)

lemma reacquire_obs:
  "wlp (reacquire U fuel dev timeout mode usb_path ids) s (\<lambda>r s'. \<forall>d. r = Inr d \<longrightarrow>
    same_board usb_path ids (rd_found d) \<and> fd_mode (rd_found d) = mode
    \<and> (mode = LOADER \<longrightarrow> rd_ep_in d \<noteq> None \<and> rd_ep_out d \<noteq> None) \<and> (\<exists>junk. obs s' = obs s @ map Bulk_in junk))"
proof -
  have wait: "wlp (wait_for_device U fuel timeout (Some mode) poll usb_path ids) s1 (\<lambda>r s'. obs s' = obs s1
    \<and> (\<forall>d. r = Inr d \<longrightarrow> same_board usb_path ids d \<and> fd_mode d = mode))" for s1 poll
    unfolding wait_for_device_def by (auto simp: wp intro!: wlp_mono [OF wait_loop_wanted])
  show ?thesis
    unfolding reacquire_def
    by (auto simp: wp intro!: wlp_mono [OF device_close_obs] wlp_us_sleepI wlp_mono [OF wait] wlp_mono [OF device_open_obs]
        split: sum.split)
qed

lemma download_boot_obs:
  "wlp (download_boot U fuel dev blobs timeout usb_path ids) s (\<lambda>r s'. case r of
     Inl e \<Rightarrow> True
   | Inr d \<Rightarrow>
     if fd_mode (rd_found dev) = MASKROM
     then same_board usb_path ids (rd_found d) \<and> fd_mode (rd_found d) = LOADER \<and> rd_ep_in d \<noteq> None \<and> rd_ep_out d \<noteq> None
       \<and> (\<exists>junk. obs s' = obs s @ code_upload CODE_471 (use_rc4 blobs) (ddr blobs)
            @ code_upload CODE_472 (use_rc4 blobs) (usbplug blobs) @ map Bulk_in junk)
     else d = dev \<and> obs s' = obs s)"
  unfolding download_boot_def
  by (auto simp: wp intro!: wlp_mono [OF upload_entries_obs] wlp_mono [OF reacquire_obs] wlp_reportI split: sum.splits)

end

section \<open>A bus that is watched\<close>

definition watch_io :: "(exn + 'a \<Rightarrow> usb_event list) \<Rightarrow> ('s, 'a) io \<Rightarrow> ('s \<times> usb_event list, 'a) io" where
  "watch_io seen m = (\<lambda>(s, evs). case m s of None \<Rightarrow> None | Some (r, s') \<Rightarrow> Some (r, (s', evs @ seen r)))"

abbreviation unwatched :: "('s, 'a) io \<Rightarrow> ('s \<times> usb_event list, 'a) io" where
  "unwatched \<equiv> watch_io (\<lambda>_. [])"

definition watch :: "'s usb \<Rightarrow> ('s \<times> usb_event list) usb" where
  "watch U =
     \<lparr>us_find = (\<lambda>v. unwatched (us_find U v)),
      us_get_active_configuration = (\<lambda>h. unwatched (us_get_active_configuration U h)),
      us_set_configuration = (\<lambda>h. unwatched (us_set_configuration U h)),
      us_is_kernel_driver_active = (\<lambda>h i. unwatched (us_is_kernel_driver_active U h i)),
      us_detach_kernel_driver = (\<lambda>h i. unwatched (us_detach_kernel_driver U h i)),
      us_attach_kernel_driver = (\<lambda>h i. unwatched (us_attach_kernel_driver U h i)),
      us_claim_interface = (\<lambda>h i. unwatched (us_claim_interface U h i)),
      us_release_interface = (\<lambda>h i. unwatched (us_release_interface U h i)),
      us_dispose_resources = (\<lambda>h. unwatched (us_dispose_resources U h)),
      us_ctrl_transfer = (\<lambda>h code d t. watch_io (\<lambda>_. [Control code d]) (us_ctrl_transfer U h code d t)),
      us_clear_halt = (\<lambda>h ep. unwatched (us_clear_halt U h ep)),
      us_read = (\<lambda>h ep n t. watch_io (\<lambda>r. case r of Inr d \<Rightarrow> [Bulk_in d] | Inl _ \<Rightarrow> []) (us_read U h ep n t)),
      us_write = (\<lambda>h ep d t. watch_io (\<lambda>_. [Bulk_out d]) (us_write U h ep d t)),
      us_randbits32 = unwatched (us_randbits32 U),
      us_now = (\<lambda>w. us_now U (fst w)),
      us_sleep = (\<lambda>dt. unwatched (us_sleep U dt)),
      us_emit = (\<lambda>ev. unwatched (us_emit U ev))\<rparr>"

lemma wlp_watch_io: "wlp (watch_io seen m) w (\<lambda>r w'. snd w' = snd w @ seen r)"
  by (auto simp: wlp_def watch_io_def split: option.split prod.split)

interpretation watched: observed_usb "watch U" snd for U :: "'s usb"
  by unfold_locales
     (use wlp_watch_io [where seen = "\<lambda>_. []"] in \<open>auto simp: watch_def intro: wlp_watch_io\<close>)

section \<open>Properties\<close>

text \<open>C7: an image written to flash and read back. Over every bus, when both return, the traffic consists of
  acknowledged commands, and a device that obeys them and answers the reads from its flash is left with the image,
  padded with zeros to a sector, from the start sector on and everything else as it was; the bytes read back are
  exactly that image, for any other answer is not the contents of the flash.\<close>

theorem write_read_image:
  "wlp (io_bind (write_image (watch U) dev start_lba data) (\<lambda>_. read_image (watch U) dev start_lba (int (length (pad_sector data) div 512)))) w
     (\<lambda>r w'. case r of
        Inl e \<Rightarrow> True
      | Inr out \<Rightarrow> \<exists>evs. snd w' = snd w @ evs \<and> (\<forall>f. plug f evs =
          (if out = pad_sector data then Some (store f (512 * start_lba) (pad_sector data)) else None)))"
  using length_pad_sector [of data]
  by (auto simp: wp nat_mult_distrib intro!: wlp_mono [OF watched.write_image_stores] wlp_mono [OF watched.read_image_reads]
      split: sum.split) (metis stores_reads)+

text \<open>C8: bringing up the loader. When the upload to a device in MaskROM mode returns, the traffic was the framed
  entries of the DDR stage and then those of the loader stage, followed at most by stale input that was dropped, and
  the device returned is opened in loader mode with both bulk endpoints, on the port path that was asked for and with
  one of the product ids of a board waiting for recovery. A device past MaskROM is returned untouched.\<close>

theorem download_boot_same_board:
  "wlp (download_boot (watch U) fuel dev blobs timeout usb_path recovery_ids) w (\<lambda>r w'. case r of
     Inl e \<Rightarrow> True
   | Inr d \<Rightarrow>
       if fd_mode (rd_found dev) = MASKROM
       then same_board usb_path recovery_ids (rd_found d) \<and> fd_mode (rd_found d) = LOADER
         \<and> rd_ep_in d \<noteq> None \<and> rd_ep_out d \<noteq> None
         \<and> (\<exists>stale. snd w' = snd w @ code_upload CODE_471 (use_rc4 blobs) (ddr blobs)
              @ code_upload CODE_472 (use_rc4 blobs) (usbplug blobs) @ map Bulk_in stale)
       else d = dev \<and> snd w' = snd w)"
  by (rule watched.download_boot_obs)

end
