(* ===== verification/Tftp.thy ===== *)
theory Tftp
  imports Links "HOL-Library.AList"
begin

text \<open>
  \<open>src/defib/network/tftp_server.py\<close>: the TFTP server that boards load their images from. The datagram endpoint is
  the list of datagrams sent; clients are identified by their address, of any type. Log output, and the start of the
  endpoint with its advice on bind errors, are left out.
\<close>

section \<open>State\<close>

record TFTPTransfer =
  tf_data :: bytes
  tf_blocksize :: nat
  tf_block_num :: nat
  tf_complete :: bool
  tf_retries :: nat

record 'a TFTPServerProtocol =
  tp_files :: "(string \<times> bytes) list"
  tp_default_data :: "bytes option"
  tp_done_count :: int
  tp_connected :: bool
  tp_transfers :: "'a \<rightharpoonup> TFTPTransfer"
  tp_requests :: nat
  tp_bytes_sent :: nat
  tp_transfers_complete :: nat
  tp_errors :: nat
  tp_done :: bool
  tp_progress :: "(nat \<times> nat) list"
  tp_sent :: "('a \<times> bytes) list"

definition TFTPServerProtocol_init ::
  "bytes option \<Rightarrow> (string \<times> bytes) list \<Rightarrow> int \<Rightarrow> 'a TFTPServerProtocol" where
  "TFTPServerProtocol_init served files done_count =
     \<lparr>tp_files = files, tp_default_data = served, tp_done_count = done_count, tp_connected = False,
      tp_transfers = Map.empty, tp_requests = 0, tp_bytes_sent = 0, tp_transfers_complete = 0, tp_errors = 0,
      tp_done = False, tp_progress = [], tp_sent = []\<rparr>"

definition connection_made :: "'a TFTPServerProtocol \<Rightarrow> 'a TFTPServerProtocol" where
  "connection_made s = s\<lparr>tp_connected := True\<rparr>"

section \<open>Sending\<close>

definition OPCODE_RRQ :: int where "OPCODE_RRQ = 1"
definition OPCODE_DATA :: int where "OPCODE_DATA = 3"
definition OPCODE_ACK :: int where "OPCODE_ACK = 4"
definition OPCODE_ERROR :: int where "OPCODE_ERROR = 5"
definition OPCODE_OACK :: int where "OPCODE_OACK = 6"
definition ERR_NOT_DEFINED :: int where "ERR_NOT_DEFINED = 0"
definition ERR_FILE_NOT_FOUND :: int where "ERR_FILE_NOT_FOUND = 1"
definition ERR_ILLEGAL_OP :: int where "ERR_ILLEGAL_OP = 4"
definition DEFAULT_BLOCKSIZE :: nat where "DEFAULT_BLOCKSIZE = 512"

definition tftp_send :: "'a \<Rightarrow> bytes \<Rightarrow> 'a TFTPServerProtocol \<Rightarrow> 'a TFTPServerProtocol" where
  "tftp_send addr data s = (if tp_connected s then s\<lparr>tp_sent := tp_sent s @ [(addr, data)]\<rparr> else s)"

definition send_error :: "'a \<Rightarrow> int \<Rightarrow> string \<Rightarrow> 'a TFTPServerProtocol \<Rightarrow> 'a TFTPServerProtocol" where
  "send_error addr code msg s =
     tftp_send addr (be_bytes 2 OPCODE_ERROR @ be_bytes 2 code @ ascii msg @ [0]) (s\<lparr>tp_errors := tp_errors s + 1\<rparr>)"

text \<open>The transfer object is updated in place; an exception leaves what was assigned before it.\<close>

definition send_data_block :: "'a \<Rightarrow> TFTPTransfer \<Rightarrow> 'a TFTPServerProtocol \<Rightarrow> (exn + unit) \<times> 'a TFTPServerProtocol" where
  "send_data_block addr transfer s =
     (let transfer = transfer\<lparr>tf_block_num := tf_block_num transfer + 1\<rparr>;
          offset = (tf_block_num transfer - 1) * tf_blocksize transfer;
          block_data = pyslice offset (offset + tf_blocksize transfer) (tf_data transfer);
          s = s\<lparr>tp_transfers := (tp_transfers s)(addr \<mapsto> transfer)\<rparr>
      in case pack_be 2 (int (tf_block_num transfer)) of
           Inl e \<Rightarrow> (Inl e, s)
         | Inr num \<Rightarrow>
             let s = tftp_send addr (be_bytes 2 OPCODE_DATA @ num @ block_data) s in
             (Inr (), if length block_data < tf_blocksize transfer
                      then s\<lparr>tp_transfers := (tp_transfers s)(addr \<mapsto> transfer\<lparr>tf_complete := True\<rparr>)\<rparr> else s))"

section \<open>Requests\<close>

fun split0_aux :: "bytes \<Rightarrow> bytes \<Rightarrow> bytes list" where
  "split0_aux cur [] = [cur]"
| "split0_aux cur (b # bs) = (if b = 0 then cur # split0_aux [] bs else split0_aux (cur @ [b]) bs)"

definition split0 :: "bytes \<Rightarrow> bytes list" where
  "split0 bs = split0_aux [] bs"

definition decode_ascii :: "bytes \<Rightarrow> string option" where
  "decode_ascii bs = (if list_all (\<lambda>b. b < 128) bs then Some (map (\<lambda>b. char_of (unat b)) bs) else None)"

definition basename :: "string \<Rightarrow> string" where
  "basename p = rev (takeWhile (\<lambda>c. c \<noteq> CHR ''/'') (rev p))"

definition resolve_file :: "(string \<times> bytes) list \<Rightarrow> bytes option \<Rightarrow> string \<Rightarrow> bytes option" where
  "resolve_file files default_data filename =
     (if files \<noteq> [] then
        case map_of files filename of
          Some d \<Rightarrow> Some d
        | None \<Rightarrow>
            (let base = basename filename in
             case map_of files base of
               Some d \<Rightarrow> Some d
             | None \<Rightarrow>
                 (case List.find (\<lambda>(key, d). lower key = lower filename \<or> lower key = lower base) files of
                    Some (key, d) \<Rightarrow> Some d
                  | None \<Rightarrow> default_data))
      else default_data)"

text \<open>Option names and values are decoded with a replacement for every byte above 127; a dictionary keeps the last
  value of a name.\<close>

definition decode_replace :: "bytes \<Rightarrow> int list" where
  "decode_replace bs = map (\<lambda>b. if b < 128 then uint b else 0xFFFD) bs"

definition lower_points :: "int list \<Rightarrow> int list" where
  "lower_points cs = map (\<lambda>c. if 65 \<le> c \<and> c \<le> 90 then c + 32 else c) cs"

fun parse_options :: "bytes list \<Rightarrow> (int list \<times> int list) list \<Rightarrow> (int list \<times> int list) list" where
  "parse_options (name # val # parts) options =
     parse_options parts (AList.update (lower_points (decode_replace name)) (decode_replace val) options)"
| "parse_options _ options = options"

definition points :: "string \<Rightarrow> int list" where
  "points s = map of_char s"

text \<open>\<open>int(s)\<close>: white space, a sign, and at most 4300 decimal digits with single underscores.\<close>

fun dec_value :: "bool \<Rightarrow> int \<Rightarrow> int list \<Rightarrow> int option" where
  "dec_value ok acc [] = (if ok then Some acc else None)"
| "dec_value ok acc (c # cs) =
     (if c = 95 then (if ok then dec_value False acc cs else None)
      else if 48 \<le> c \<and> c \<le> 57 then dec_value True (acc * 10 + (c - 48)) cs
      else None)"

definition space_point :: "int \<Rightarrow> bool" where
  "space_point c \<longleftrightarrow> c = 32 \<or> (9 \<le> c \<and> c \<le> 13) \<or> (28 \<le> c \<and> c \<le> 31)"

definition int10 :: "int list \<Rightarrow> int option" where
  "int10 s0 =
     (let s = rev (dropWhile space_point (rev (dropWhile space_point s0)));
          digits = (case s of c # cs \<Rightarrow> if c = 45 \<or> c = 43 then cs else s | [] \<Rightarrow> []);
          v = (if length (filter (\<lambda>c. c \<noteq> 95) digits) > 4300 then None else dec_value False 0 digits)
      in case s of c # cs \<Rightarrow> if c = 45 then map_option uminus v else v | [] \<Rightarrow> None)"

definition negotiated_blocksize :: "(int list \<times> int list) list \<Rightarrow> nat" where
  "negotiated_blocksize options = (case map_of options (points ''blksize'') of
     None \<Rightarrow> DEFAULT_BLOCKSIZE
   | Some v \<Rightarrow> (case int10 v of
       None \<Rightarrow> DEFAULT_BLOCKSIZE
     | Some requested_bs \<Rightarrow> nat (max 8 (min requested_bs 65464))))"

definition start_transfer ::
  "'a \<Rightarrow> bytes \<Rightarrow> bytes list \<Rightarrow> 'a TFTPServerProtocol \<Rightarrow> (exn + unit) \<times> 'a TFTPServerProtocol" where
  "start_transfer addr serve_data parts s =
     (let options = parse_options (drop 2 parts) [];
          blocksize = negotiated_blocksize options;
          transfer = \<lparr>tf_data = serve_data, tf_blocksize = blocksize, tf_block_num = 0, tf_complete = False, tf_retries = 0\<rparr>;
          s = s\<lparr>tp_transfers := (tp_transfers s)(addr \<mapsto> transfer)\<rparr>
      in if options \<noteq> [] \<and> blocksize \<noteq> DEFAULT_BLOCKSIZE
         then (Inr (), tftp_send addr (be_bytes 2 OPCODE_OACK @ ascii ''blksize'' @ [0] @ ascii (dec_digits blocksize) @ [0]) s)
         else send_data_block addr transfer s)"

definition handle_rrq :: "bytes \<Rightarrow> 'a \<Rightarrow> 'a TFTPServerProtocol \<Rightarrow> (exn + unit) \<times> 'a TFTPServerProtocol" where
  "handle_rrq data addr s =
     (let s = s\<lparr>tp_requests := tp_requests s + 1\<rparr>;
          parts = split0 (drop 2 data);
          mode = (if 1 < length parts then decode_ascii (parts ! 1) else Some ''octet'')
      in case (decode_ascii (parts ! 0), mode) of
           (Some filename, Some _) \<Rightarrow>
             (case resolve_file (tp_files s) (tp_default_data s) filename of
                None \<Rightarrow> (Inr (), send_error addr ERR_FILE_NOT_FOUND (''File not found: '' @ filename) s)
              | Some serve_data \<Rightarrow> start_transfer addr serve_data parts s)
         | _ \<Rightarrow> (Inr (), send_error addr ERR_NOT_DEFINED ''Malformed RRQ'' s))"

section \<open>Acknowledgements and errors\<close>

definition finish_transfer :: "'a \<Rightarrow> TFTPTransfer \<Rightarrow> 'a TFTPServerProtocol \<Rightarrow> 'a TFTPServerProtocol" where
  "finish_transfer addr transfer s =
     (let s = s\<lparr>tp_transfers_complete := tp_transfers_complete s + 1,
                tp_bytes_sent := tp_bytes_sent s + length (tf_data transfer),
                tp_transfers := (tp_transfers s)(addr := None)\<rparr>
      in if tp_done_count s \<le> int (tp_transfers_complete s) then s\<lparr>tp_done := True\<rparr> else s)"

definition handle_ack :: "bytes \<Rightarrow> 'a \<Rightarrow> 'a TFTPServerProtocol \<Rightarrow> (exn + unit) \<times> 'a TFTPServerProtocol" where
  "handle_ack data addr s =
     (if length data < 4 then (Inr (), s)
      else let block_num = nat (be_val (pyslice 2 4 data)) in
        case tp_transfers s addr of
          None \<Rightarrow> (Inr (), s)
        | Some transfer \<Rightarrow>
            if block_num = 0 \<and> tf_block_num transfer = 0 then send_data_block addr transfer s
            else if block_num = tf_block_num transfer then
              let transfer = transfer\<lparr>tf_retries := 0\<rparr>;
                  s = s\<lparr>tp_transfers := (tp_transfers s)(addr \<mapsto> transfer),
                        tp_progress := tp_progress s
                          @ [(min (tf_block_num transfer * tf_blocksize transfer) (length (tf_data transfer)), length (tf_data transfer))]\<rparr>
              in if tf_complete transfer then (Inr (), finish_transfer addr transfer s)
                 else send_data_block addr transfer s
            else (Inr (), s))"

definition handle_error :: "bytes \<Rightarrow> 'a \<Rightarrow> 'a TFTPServerProtocol \<Rightarrow> 'a TFTPServerProtocol" where
  "handle_error data addr s =
     s\<lparr>tp_errors := tp_errors s + 1, tp_transfers := (tp_transfers s)(addr := None)\<rparr>"

definition datagram_received :: "bytes \<Rightarrow> 'a \<Rightarrow> 'a TFTPServerProtocol \<Rightarrow> (exn + unit) \<times> 'a TFTPServerProtocol" where
  "datagram_received data addr s =
     (if length data < 2 then (Inr (), s)
      else let opcode = be_val (take 2 data) in
        if opcode = OPCODE_RRQ then handle_rrq data addr s
        else if opcode = OPCODE_ACK then handle_ack data addr s
        else if opcode = OPCODE_ERROR then (Inr (), handle_error data addr s)
        else (Inr (), send_error addr ERR_ILLEGAL_OP ''Unsupported operation'' s))"

text \<open>The event loop hands over the datagrams one by one; it logs an exception and goes on.\<close>

fun serve :: "('a \<times> bytes) list \<Rightarrow> 'a TFTPServerProtocol \<Rightarrow> 'a TFTPServerProtocol" where
  "serve [] s = s"
| "serve ((addr, data) # dgs) s = serve dgs (snd (datagram_received data addr s))"

section \<open>Clients do not interfere\<close>

text \<open>What the server knows about one client, and what it sent there.\<close>

definition sent_to :: "'a \<Rightarrow> 'a TFTPServerProtocol \<Rightarrow> bytes list" where
  "sent_to a s = map snd (filter (\<lambda>(b, _). b = a) (tp_sent s))"

definition view :: "'a \<Rightarrow> 'a TFTPServerProtocol \<Rightarrow> (string \<times> bytes) list \<times> bytes option \<times> bool \<times> TFTPTransfer option \<times> bytes list" where
  "view a s = (tp_files s, tp_default_data s, tp_connected s, tp_transfers s a, sent_to a s)"

lemma sent_to_simps [simp]:
  "sent_to a (s\<lparr>tp_transfers := t\<rparr>) = sent_to a s" "sent_to a (s\<lparr>tp_errors := e\<rparr>) = sent_to a s"
  "sent_to a (s\<lparr>tp_requests := r\<rparr>) = sent_to a s" "sent_to a (s\<lparr>tp_progress := p\<rparr>) = sent_to a s"
  "sent_to a (s\<lparr>tp_done := d\<rparr>) = sent_to a s" "sent_to a (s\<lparr>tp_transfers_complete := c\<rparr>) = sent_to a s"
  "sent_to a (s\<lparr>tp_bytes_sent := n\<rparr>) = sent_to a s" "sent_to a (s\<lparr>tp_connected := b\<rparr>) = sent_to a s"
  by (simp_all add: sent_to_def)

lemma sent_to_tftp_send [simp]:
  "sent_to a (tftp_send b d s) = sent_to a s @ (if tp_connected s \<and> b = a then [d] else [])"
  by (simp add: tftp_send_def sent_to_def)

lemma tftp_send_simps [simp]:
  "tp_files (tftp_send b d s) = tp_files s" "tp_default_data (tftp_send b d s) = tp_default_data s"
  "tp_connected (tftp_send b d s) = tp_connected s" "tp_transfers (tftp_send b d s) = tp_transfers s"
  by (simp_all add: tftp_send_def)

lemma send_error_other: "b \<noteq> a \<Longrightarrow> view a (send_error b c msg s) = view a s"
  by (simp add: send_error_def view_def)

lemma send_data_block_other: "b \<noteq> a \<Longrightarrow> view a (snd (send_data_block b t s)) = view a s"
  by (simp add: send_data_block_def view_def Let_def split: sum.split)

lemma start_transfer_other: "b \<noteq> a \<Longrightarrow> view a (snd (start_transfer b d parts s)) = view a s"
  unfolding start_transfer_def Let_def
  by (subst if_distrib [where f = snd]) (simp add: send_data_block_other split: if_split, simp add: view_def)

lemma handle_rrq_other: "b \<noteq> a \<Longrightarrow> view a (snd (handle_rrq d b s)) = view a s"
  by (simp add: handle_rrq_def Let_def send_error_other start_transfer_other split: option.split) (simp add: view_def)

lemma handle_ack_other: "b \<noteq> a \<Longrightarrow> view a (snd (handle_ack d b s)) = view a s"
  by (simp add: handle_ack_def Let_def finish_transfer_def send_data_block_other split: option.split) (simp add: view_def)

lemma received_other: "b \<noteq> a \<Longrightarrow> view a (snd (datagram_received d b s)) = view a s"
  by (simp add: datagram_received_def Let_def handle_rrq_other handle_ack_other send_error_other)
     (simp add: view_def handle_error_def)

lemma view_simps [simp]:
  "view a (s\<lparr>tp_requests := r\<rparr>) = view a s" "view a (s\<lparr>tp_errors := e\<rparr>) = view a s"
  "view a (s\<lparr>tp_progress := p\<rparr>) = view a s" "view a (s\<lparr>tp_done := d\<rparr>) = view a s"
  "view a (s\<lparr>tp_transfers_complete := c\<rparr>) = view a s" "view a (s\<lparr>tp_bytes_sent := n\<rparr>) = view a s"
  by (simp_all add: view_def)

lemma view_eqD:
  "view a s = view a s' \<Longrightarrow> tp_files s = tp_files s' \<and> tp_default_data s = tp_default_data s' \<and> tp_transfers s a = tp_transfers s' a"
  by (simp add: view_def)

lemma view_put: "view a s = view a s' \<Longrightarrow>
  view a (s\<lparr>tp_transfers := (tp_transfers s)(a := t)\<rparr>) = view a (s'\<lparr>tp_transfers := (tp_transfers s')(a := t)\<rparr>)"
  by (simp add: view_def)

lemma tftp_send_same: "view a s = view a s' \<Longrightarrow> view a (tftp_send a d s) = view a (tftp_send a d s')"
  by (simp add: view_def)

lemma send_error_same: "view a s = view a s' \<Longrightarrow> view a (send_error a c msg s) = view a (send_error a c msg s')"
  unfolding send_error_def by (rule tftp_send_same) simp

lemma send_data_block_same:
  "view a s = view a s' \<Longrightarrow> view a (snd (send_data_block a t s)) = view a (snd (send_data_block a t s'))"
  by (simp add: send_data_block_def view_def Let_def split: sum.split)

lemma start_transfer_same:
  "view a s = view a s' \<Longrightarrow> view a (snd (start_transfer a d parts s)) = view a (snd (start_transfer a d parts s'))"
  unfolding start_transfer_def Let_def
  by (auto intro!: send_data_block_same tftp_send_same view_put)

lemma handle_rrq_same: "view a s = view a s' \<Longrightarrow> view a (snd (handle_rrq d a s)) = view a (snd (handle_rrq d a s'))"
  using view_eqD [of a s s'] unfolding handle_rrq_def Let_def
  by (auto intro!: send_error_same start_transfer_same split: option.split)

lemma finish_transfer_same:
  "view a s = view a s' \<Longrightarrow> view a (finish_transfer a t s) = view a (finish_transfer a t s')"
  by (simp add: finish_transfer_def view_def Let_def)

lemma handle_ack_same:
  assumes "view a s = view a s'"
  shows "view a (snd (handle_ack d a s)) = view a (snd (handle_ack d a s'))"
proof (cases "tp_transfers s a")
  case None
  then show ?thesis using assms view_eqD [OF assms] by (simp add: handle_ack_def Let_def)
next
  case (Some t)
  then show ?thesis
    using view_eqD [OF assms] unfolding handle_ack_def Let_def
    by (auto intro!: send_data_block_same finish_transfer_same view_put assms)
qed

lemma received_same:
  assumes "view a s = view a s'"
  shows "view a (snd (datagram_received d a s)) = view a (snd (datagram_received d a s'))"
  using handle_rrq_same [OF assms] handle_ack_same [OF assms] send_error_same [OF assms] view_put [OF assms] assms
  by (simp add: datagram_received_def Let_def handle_error_def) (simp add: view_def)

lemma serve_view_eq:
  "view a s = view a s' \<Longrightarrow> view a (serve dgs s) = view a (serve (filter (\<lambda>(b, _). b = a) dgs) s')"
proof (induction dgs arbitrary: s s')
  case (Cons dg dgs)
  obtain b d where dg: "dg = (b, d)" by force
  show ?case
  proof (cases "b = a")
    case True
    then show ?thesis using Cons.IH [OF received_same [OF Cons.prems]] by (simp add: dg)
  next
    case False
    then show ?thesis using Cons.IH [of "snd (datagram_received d b s)" s'] Cons.prems received_other [OF False] by (simp add: dg)
  qed
qed simp

lemma serve_append: "serve (xs @ ys) s = serve ys (serve xs s)"
  by (induction xs arbitrary: s) auto

section \<open>One transfer\<close>

definition data_packet :: "nat \<Rightarrow> bytes \<Rightarrow> bytes" where
  "data_packet k block = be_bytes 2 OPCODE_DATA @ be_bytes 2 (int k) @ block"

definition ack_packet :: "nat \<Rightarrow> bytes" where
  "ack_packet k = be_bytes 2 OPCODE_ACK @ be_bytes 2 (int k)"

text \<open>Block \<open>k\<close> of a file, counted from one, and a transfer whose last block sent is \<open>k\<close>.\<close>

definition file_block :: "bytes \<Rightarrow> nat \<Rightarrow> nat \<Rightarrow> bytes" where
  "file_block file bs k = pyslice ((k - 1) * bs) ((k - 1) * bs + bs) file"

definition at_block :: "bytes \<Rightarrow> nat \<Rightarrow> nat \<Rightarrow> TFTPTransfer \<Rightarrow> bool" where
  "at_block file bs k t \<longleftrightarrow> tf_data t = file \<and> tf_blocksize t = bs \<and> tf_block_num t = k
     \<and> (tf_complete t \<longleftrightarrow> 1 \<le> k \<and> length (file_block file bs k) < bs)"

lemma received_ack:
  "k < 65536 \<Longrightarrow> datagram_received (ack_packet k) a s = (case tp_transfers s a of
     None \<Rightarrow> (Inr (), s)
   | Some transfer \<Rightarrow> handle_ack (ack_packet k) a s)"
  by (simp add: datagram_received_def handle_ack_def ack_packet_def OPCODE_ACK_def OPCODE_RRQ_def be_val_be_bytes Let_def
      split: option.split)

lemma ack_block: "k < 65536 \<Longrightarrow> length (ack_packet k) = 4 \<and> nat (be_val (pyslice 2 4 (ack_packet k))) = k"
  by (simp add: ack_packet_def pyslice_def be_val_be_bytes)

lemma length_file_block: "length (file_block file bs k) = min bs (length file - (k - 1) * bs)"
  by (simp add: file_block_def)

lemma ack_next:
  assumes "view a s = (fs, df, True, Some t, sent)" "at_block file bs k t" "\<not> tf_complete t" "k < 65535"
  shows "\<exists>t'. view a (snd (datagram_received (ack_packet k) a s))
      = (fs, df, True, Some t', sent @ [data_packet (k + 1) (file_block file bs (k + 1))]) \<and> at_block file bs (k + 1) t'"
  using assms ack_block [of k]
  by (auto simp: received_ack handle_ack_def send_data_block_def view_def at_block_def pack_be_def data_packet_def
      file_block_def Let_def)

lemma ack_last:
  assumes "view a s = (fs, df, True, Some t, sent)" "at_block file bs k t" "tf_complete t" "k < 65536"
  shows "view a (snd (datagram_received (ack_packet k) a s)) = (fs, df, True, None, sent)"
  using assms ack_block [of k]
  by (auto simp: received_ack handle_ack_def finish_transfer_def view_def at_block_def Let_def)

lemma ack_overflow:
  assumes "view a s = (fs, df, True, Some t, sent)" "at_block file bs 65535 t" "\<not> tf_complete t"
  shows "\<exists>t'. datagram_received (ack_packet 65535) a s = (Inl StructError, snd (datagram_received (ack_packet 65535) a s))
    \<and> view a (snd (datagram_received (ack_packet 65535) a s)) = (fs, df, True, Some t', sent) \<and> tf_block_num t' = 65536 \<and> \<not> tf_complete t'"
  using assms ack_block [of 65535]
  by (auto simp: received_ack handle_ack_def send_data_block_def view_def at_block_def pack_be_def Let_def)

lemma ack_stuck:
  assumes "view a s = (fs, df, True, Some t, sent)" "tf_block_num t = 65536" "k < 65536"
  shows "view a (snd (datagram_received (ack_packet k) a s)) = (fs, df, True, Some t, sent)"
  using assms ack_block [of k] by (auto simp: received_ack handle_ack_def view_def Let_def)

section \<open>Whole transfers\<close>

text \<open>A client acknowledges the blocks in order.\<close>

definition acks :: "'a \<Rightarrow> nat list \<Rightarrow> ('a \<times> bytes) list" where
  "acks a ks = map (\<lambda>k. (a, ack_packet k)) ks"

definition packets :: "bytes \<Rightarrow> nat \<Rightarrow> nat list \<Rightarrow> bytes list" where
  "packets file bs ks = map (\<lambda>k. data_packet k (file_block file bs k)) ks"

lemma acks_Cons [simp]: "acks a [] = []" "acks a (k # ks) = (a, ack_packet k) # acks a ks"
  by (simp_all add: acks_def)

lemma packets_Cons [simp]: "packets file bs [] = []"
  "packets file bs (k # ks) = data_packet k (file_block file bs k) # packets file bs ks"
  by (simp_all add: packets_def)

text \<open>A block is short exactly when it is the last one.\<close>

lemma block_short: "0 < bs \<Longrightarrow> 1 \<le> k \<Longrightarrow> length (file_block file bs k) < bs \<longleftrightarrow> length file div bs < k"
proof -
  assume bs: "0 < bs" "1 \<le> k"
  have "length file div bs < k \<longleftrightarrow> length file < k * bs" using bs by (simp add: div_less_iff_less_mult)
  then show ?thesis using bs by (cases k) (auto simp: length_file_block)
qed

lemma at_block_complete: "0 < bs \<Longrightarrow> at_block file bs k t \<Longrightarrow> tf_complete t \<longleftrightarrow> 1 \<le> k \<and> length file div bs < k"
  using block_short by (auto simp: at_block_def)

lemma serve_blocks:
  assumes "view a s = (fs, df, True, Some t, sent)" "at_block file bs k t" "0 < bs" "k + n \<le> length file div bs + 1" "k + n \<le> 65535"
  shows "\<exists>t'. view a (serve (acks a [k..<k + n]) s) = (fs, df, True, Some t', sent @ packets file bs [k + 1..<k + n + 1])
    \<and> at_block file bs (k + n) t'"
  using assms
proof (induction n)
  case (Suc n)
  then obtain t' where t': "view a (serve (acks a [k..<k + n]) s) = (fs, df, True, Some t', sent @ packets file bs [k + 1..<k + n + 1])"
    "at_block file bs (k + n) t'" by auto
  have "\<not> tf_complete t'" using at_block_complete [OF Suc.prems(3) t'(2)] Suc.prems by auto
  then obtain t'' where "view a (snd (datagram_received (ack_packet (k + n)) a (serve (acks a [k..<k + n]) s)))
      = (fs, df, True, Some t'', sent @ packets file bs [k + 1..<k + n + 1] @ [data_packet (k + n + 1) (file_block file bs (k + n + 1))])"
    "at_block file bs (k + n + 1) t''"
    using ack_next [OF t'] Suc.prems by auto
  then show ?case by (auto simp: acks_def packets_def serve_append)
qed auto

text \<open>What a request asks for.\<close>

definition requested_file :: "bytes \<Rightarrow> string option" where
  "requested_file req =
     (let parts = split0 (drop 2 req) in
      if 2 \<le> length req \<and> be_val (take 2 req) = OPCODE_RRQ \<and> (1 < length parts \<longrightarrow> decode_ascii (parts ! 1) \<noteq> None)
      then decode_ascii (parts ! 0) else None)"

definition requested_blocksize :: "bytes \<Rightarrow> nat" where
  "requested_blocksize req = negotiated_blocksize (parse_options (drop 2 (split0 (drop 2 req))) [])"

definition oack_packet :: "nat \<Rightarrow> bytes" where
  "oack_packet bs = be_bytes 2 OPCODE_OACK @ ascii ''blksize'' @ [0] @ ascii (dec_digits bs) @ [0]"

lemma requested_blocksize_range: "8 \<le> requested_blocksize req \<and> requested_blocksize req \<le> 65464"
  by (auto simp: requested_blocksize_def negotiated_blocksize_def DEFAULT_BLOCKSIZE_def split: option.split)

lemma blocksize_options: "requested_blocksize req \<noteq> 512 \<Longrightarrow> parse_options (drop 2 (split0 (drop 2 req))) [] \<noteq> []"
  by (auto simp: requested_blocksize_def negotiated_blocksize_def DEFAULT_BLOCKSIZE_def)

lemma serve_request:
  assumes "tp_connected s" "requested_file req = Some name" "resolve_file (tp_files s) (tp_default_data s) name = Some file"
  shows "\<exists>t. view a (snd (datagram_received req a s)) = (tp_files s, tp_default_data s, True, Some t, sent_to a s
      @ (if requested_blocksize req \<noteq> 512 then [oack_packet (requested_blocksize req)] else packets file 512 [1]))
    \<and> at_block file (requested_blocksize req) (if requested_blocksize req \<noteq> 512 then 0 else 1) t"
proof -
  let ?parts = "split0 (drop 2 req)" and ?s = "s\<lparr>tp_requests := tp_requests s + 1\<rparr>"
  have "datagram_received req a s = start_transfer a file ?parts ?s"
    using assms
    by (auto simp: datagram_received_def handle_rrq_def requested_file_def Let_def split: if_splits option.splits)
  then show ?thesis
    using assms(1) blocksize_options [of req]
    by (auto simp: start_transfer_def requested_blocksize_def [symmetric] Let_def DEFAULT_BLOCKSIZE_def view_def at_block_def
        oack_packet_def send_data_block_def pack_be_def data_packet_def file_block_def)
qed

lemma concat_blocks: "concat (map (file_block file bs) [1..<m + 1]) = take (m * bs) file"
  by (induction m) (simp_all add: file_block_def pyslice_def take_add [symmetric] add.commute)

text \<open>The blocks a client acknowledges when the last one is \<open>n\<close>: block 0 stands for the option acknowledgement.\<close>

definition client_acks :: "bytes \<Rightarrow> nat \<Rightarrow> nat list" where
  "client_acks req n = [if requested_blocksize req \<noteq> 512 then 0 else 1..<n + 1]"

definition option_reply :: "bytes \<Rightarrow> bytes list" where
  "option_reply req = (if requested_blocksize req \<noteq> 512 then [oack_packet (requested_blocksize req)] else [])"

text \<open>A client that asked and acknowledged the blocks before \<open>n\<close> has been sent the first \<open>n\<close> blocks.\<close>

lemma serve_client:
  assumes "tp_connected s" "requested_file req = Some name" "resolve_file (tp_files s) (tp_default_data s) name = Some file"
    and n: "1 \<le> n" "n \<le> length file div requested_blocksize req + 1" "n \<le> 65535"
  shows "\<exists>t. view a (serve ((a, req) # acks a (butlast (client_acks req n))) s)
      = (tp_files s, tp_default_data s, True, Some t, sent_to a s @ option_reply req @ packets file (requested_blocksize req) [1..<n + 1])
    \<and> at_block file (requested_blocksize req) n t"
proof -
  let ?bs = "requested_blocksize req"
  define k :: nat where "k = (if ?bs \<noteq> 512 then 0 else 1)"
  obtain t where t: "view a (snd (datagram_received req a s)) = (tp_files s, tp_default_data s, True, Some t,
      sent_to a s @ option_reply req @ packets file ?bs [1..<k + 1])" "at_block file ?bs k t"
    using serve_request [OF assms(1-3), of a] by (auto simp: k_def option_reply_def split: if_splits)
  have bs: "0 < ?bs" using requested_blocksize_range [of req] by linarith
  have "k + (n - k) = n" using n by (simp add: k_def)
  then obtain t' where "view a (serve (acks a [k..<n]) (snd (datagram_received req a s)))
      = (tp_files s, tp_default_data s, True, Some t', (sent_to a s @ option_reply req @ packets file ?bs [1..<k + 1]) @ packets file ?bs [k + 1..<n + 1])"
    "at_block file ?bs n t'"
    using serve_blocks [OF t bs, of "n - k"] n by auto
  moreover have "packets file ?bs [1..<k + 1] @ packets file ?bs [k + 1..<n + 1] = packets file ?bs [1..<n + 1]"
    using n upt_add_eq_append [of 1 "k + 1" "n - k"] by (auto simp: packets_def k_def)
  moreover have "butlast (client_acks req n) = [k..<n]"
    using n by (auto simp: client_acks_def k_def)
  ultimately show ?thesis by auto
qed

lemma serve_interleaved:
  "filter (\<lambda>(b, _). b = a) dgs = xs \<Longrightarrow> view a (serve dgs s) = view a (serve xs s)"
  using serve_view_eq [where a = a and s = s and s' = s and dgs = dgs] by simp

lemma client_acks_snoc: "1 \<le> n \<Longrightarrow> client_acks req n = butlast (client_acks req n) @ [n]"
  by (auto simp: client_acks_def)

text \<open>C12: the TFTP server delivers the file. A client that requests a file the server has, and acknowledges the blocks
  one after the other, is sent the option acknowledgement if it asked for another block size, and then all blocks of
  the file in order, full ones and a short one at the end, which together are the file; then the transfer is over. This
  holds for every file of fewer than 65535 full blocks, whatever other clients send in between.\<close>

theorem tftp_delivers:
  assumes "tp_connected s" "requested_file req = Some name"
    and "resolve_file (tp_files s) (tp_default_data s) name = Some file"
    and "n = length file div requested_blocksize req + 1" "n \<le> 65535"
    and "filter (\<lambda>(b, _). b = a) dgs = (a, req) # acks a (client_acks req n)"
  shows "tp_transfers (serve dgs s) a = None
    \<and> sent_to a (serve dgs s) = sent_to a s @ option_reply req @ packets file (requested_blocksize req) [1..<n + 1]
    \<and> concat (map (file_block file (requested_blocksize req)) [1..<n + 1]) = file
    \<and> list_all (\<lambda>k. length (file_block file (requested_blocksize req) k) = requested_blocksize req) [1..<n]
    \<and> length (file_block file (requested_blocksize req) n) < requested_blocksize req"
proof -
  let ?bs = "requested_blocksize req"
  have bs: "0 < ?bs" using requested_blocksize_range [of req] by linarith
  have n: "1 \<le> n" "n \<le> length file div ?bs + 1" using assms(4) by auto
  obtain t where t: "view a (serve ((a, req) # acks a (butlast (client_acks req n))) s)
      = (tp_files s, tp_default_data s, True, Some t, sent_to a s @ option_reply req @ packets file ?bs [1..<n + 1])"
    "at_block file ?bs n t"
    using serve_client [OF assms(1-3) n assms(5), of a] by blast
  have "tf_complete t" using at_block_complete [OF bs t(2)] assms(4) by simp
  moreover have "serve ((a, req) # acks a (client_acks req n)) s
      = snd (datagram_received (ack_packet n) a (serve ((a, req) # acks a (butlast (client_acks req n))) s))"
    using client_acks_snoc [OF n(1), of req] by (metis (no_types, lifting) acks_def append_Cons list.simps(8,9) map_append serve.simps serve_append)
  ultimately have "view a (serve dgs s) = (tp_files s, tp_default_data s, True, None, sent_to a s @ option_reply req @ packets file ?bs [1..<n + 1])"
    using serve_interleaved [OF assms(6)] ack_last [OF t] assms(5) by simp
  moreover have "length file < n * ?bs" using assms(4) bs by (metis Suc_eq_plus1 dividend_less_div_times add.commute mult_Suc mult.commute)
  moreover have "length (file_block file ?bs k) = ?bs" if "1 \<le> k" "k < n" for k
    using block_short [OF bs that(1), of "file"] that assms(4) by (simp add: length_file_block min_def split: if_splits)
  moreover have "length (file_block file ?bs n) < ?bs"
    using block_short [OF bs n(1), of "file"] assms(4) by simp
  ultimately show ?thesis
    using concat_blocks [of "file" ?bs n] by (simp add: view_def list_all_iff del: upt_Suc)
qed

definition uboot_request :: bytes where
  "uboot_request = [0, 1] @ ascii ''u-boot.bin'' @ [0] @ ascii ''octet'' @ [0]"

definition small_block_request :: bytes where
  "small_block_request = uboot_request @ ascii ''blksize'' @ [0] @ ascii ''8'' @ [0]"

lemma example_requests:
  "requested_file uboot_request = Some ''u-boot.bin''" "requested_blocksize uboot_request = 512"
  "requested_file small_block_request = Some ''u-boot.bin''" "requested_blocksize small_block_request = 8"
  by code_simp+

theorem tftp_delivers_witness:
  "sent_to 0 (serve [(0 :: nat, uboot_request), (7, [0, 9]), (0, ack_packet 1)]
     (connection_made (TFTPServerProtocol_init (Some [1, 2, 3]) [] 1))) = [data_packet 1 [1, 2, 3]]"
proof -
  let ?s = "connection_made (TFTPServerProtocol_init (Some [1, 2, 3]) [] 1) :: nat TFTPServerProtocol"
  have "sent_to 0 (serve [(0 :: nat, uboot_request), (7, [0, 9]), (0, ack_packet 1)] ?s)
    = sent_to 0 ?s @ option_reply uboot_request @ packets [1, 2, 3] (requested_blocksize uboot_request) [1..<1 + 1]"
    by (rule tftp_delivers [where name = "''u-boot.bin''", THEN conjunct2, THEN conjunct1])
       (simp_all add: example_requests connection_made_def TFTPServerProtocol_init_def resolve_file_def client_acks_def)
  then show ?thesis
    by (simp add: example_requests option_reply_def connection_made_def TFTPServerProtocol_init_def sent_to_def file_block_def
        pyslice_def)
qed



end
