(* ===== verification/DownloadCmd.thy ===== *)
theory DownloadCmd
  imports Recording HisiCV6xx
begin

text \<open>
  \<open>src/defib/protocol/download_cmd.py\<close>: the client of U-Boot's download mode. A command is announced in a header frame,
  sent in a command frame, and answered by console output that ends in a marker. Text received is held as its bytes; a
  byte above 127 stands for the replacement character it is decoded to. Log output is left out.
\<close>

unbundle bit_operations_syntax

definition XHEAD :: byte where "XHEAD = 0xAB"
definition XCMD :: byte where "XCMD = 0xCD"
definition DL_ACK :: byte where "DL_ACK = 0xAA"

fun download_mode_loop :: "'s transport \<Rightarrow> nat \<Rightarrow> usec \<Rightarrow> bytes \<Rightarrow> ('s, bool) io" where
  "download_mode_loop T 0 deadline buf = io_diverge"
| "download_mode_loop T (Suc fuel) deadline buf =
     io_bind (io_get (tr_now T)) (\<lambda>now.
       if now < deadline
       then io_try (tr_read T 256 (Some 500000))
         (\<lambda>e. if e = TransportTimeout then download_mode_loop T fuel deadline buf else io_raise e)
         (\<lambda>data. let buf = buf @ data in
            if contains_sub (ascii ''start download process'') buf then io_return True
            else download_mode_loop T fuel deadline buf)
       else io_return False)"

definition wait_for_download_mode :: "'s transport \<Rightarrow> nat \<Rightarrow> usec \<Rightarrow> ('s, bool) io" where
  "wait_for_download_mode T fuel timeout =
     io_bind (io_get (tr_now T)) (\<lambda>now. download_mode_loop T fuel (now + timeout) [])"

definition encode_ascii :: "string \<Rightarrow> exn + bytes" where
  "encode_ascii s = (if list_all (\<lambda>c. (of_char c :: nat) < 128) s then Inr (ascii s) else Inl ValueError)"

definition xhead_frame :: "bytes \<Rightarrow> bytes" where
  "xhead_frame cmd_bytes =
     (let xcmd_frame_len = 1 + int (length cmd_bytes) + 2;
          len = xcmd_frame_len - 3;
          head = [XHEAD, word_of_int (drop_bit 8 len AND 0xFF), word_of_int (len AND 0xFF)];
          crc = calc_crc head
      in head @ [word_of_int (drop_bit 8 crc AND 0xFF), word_of_int (crc AND 0xFF)])"

definition xcmd_frame :: "bytes \<Rightarrow> bytes" where
  "xcmd_frame cmd_bytes =
     (let xcmd = [XCMD] @ cmd_bytes; crc = calc_crc xcmd
      in xcmd @ [word_of_int (drop_bit 8 crc AND 0xFF), word_of_int (crc AND 0xFF)])"

text \<open>\<open>ack[0] == ACK\<close> for the answer to a frame; an empty answer raises \<open>IndexError\<close>.\<close>

definition first_is_ack :: "bytes \<Rightarrow> exn + bool" where
  "first_is_ack ack = (case ack of [] \<Rightarrow> Inl IndexError | b # _ \<Rightarrow> Inr (b = DL_ACK))"

fun send_xhead :: "'s transport \<Rightarrow> bytes \<Rightarrow> nat \<Rightarrow> ('s, bool) io" where
  "send_xhead T head 0 = io_return False"
| "send_xhead T head (Suc n) =
     io_then (tr_flush_input T) (io_then (tr_write T head)
       (io_try (tr_read T 1 (Some 2000000))
         (\<lambda>e. if e = TransportTimeout then send_xhead T head n else io_raise e)
         (\<lambda>ack. io_bind (io_lift (first_is_ack ack)) (\<lambda>ok. if ok then io_return True else send_xhead T head n))))"

definition EOT_OK :: bytes where "EOT_OK = ascii ''[EOT](OK)''"
definition EOT_ERROR :: bytes where "EOT_ERROR = ascii ''[EOT](ERROR)''"

fun eot_loop :: "'s transport \<Rightarrow> nat \<Rightarrow> usec \<Rightarrow> bytes \<Rightarrow> ('s, bool \<times> bytes) io" where
  "eot_loop T 0 deadline buf = io_diverge"
| "eot_loop T (Suc fuel) deadline buf =
     io_bind (io_get (tr_now T)) (\<lambda>now.
       if now < deadline
       then io_try (tr_read T 256 (Some 1000000))
         (\<lambda>e. if e = TransportTimeout then eot_loop T fuel deadline buf else io_raise e)
         (\<lambda>data. let buf = buf @ data in
            case find_sub EOT_OK 0 buf of
              Some i \<Rightarrow> io_return (True, take i buf)
            | None \<Rightarrow> (case find_sub EOT_ERROR 0 buf of
                Some i \<Rightarrow> io_return (False, take i buf)
              | None \<Rightarrow> eot_loop T fuel deadline buf))
       else io_return (False, buf))"

definition download_send_command :: "'s transport \<Rightarrow> nat \<Rightarrow> string \<Rightarrow> usec \<Rightarrow> ('s, bool \<times> bytes) io" where
  "download_send_command T fuel cmd timeout =
     io_bind (io_lift (encode_ascii cmd)) (\<lambda>cmd_bytes.
     io_bind (send_xhead T (xhead_frame cmd_bytes) 3) (\<lambda>ok.
       if \<not> ok then io_return (False, [])
       else io_then (tr_write T (xcmd_frame cmd_bytes))
         (io_try (tr_read T 1 (Some 2000000))
           (\<lambda>e. if e = TransportTimeout then io_return (False, []) else io_raise e)
           (\<lambda>ack. io_bind (io_lift (first_is_ack ack)) (\<lambda>ok.
              if \<not> ok then io_return (False, [])
              else io_bind (io_get (tr_now T)) (\<lambda>now. eot_loop T fuel (now + timeout) []))))))"

section \<open>What was exchanged\<close>

text \<open>The frames as U-Boot checks them.\<close>

lemma xhead_frame_seal: "xhead_frame c = append_crc [XHEAD, word_of_int (drop_bit 8 (int (length c)) AND 0xFF), word_of_int (int (length c) AND 0xFF)]"
  by (simp add: xhead_frame_def append_crc_def Let_def)

lemma xcmd_frame_seal: "xcmd_frame c = append_crc (XCMD # c)"
  by (simp add: xcmd_frame_def append_crc_def Let_def)

text \<open>An exchange of header frames that ended in an acknowledgement, after at most \<open>n\<close> frames.\<close>

definition headed :: "bytes \<Rightarrow> nat \<Rightarrow> (Direction \<times> bytes) list \<Rightarrow> bool" where
  "headed head n l \<longleftrightarrow> (\<exists>l0 k a. l = l0 @ [(RX, DL_ACK # a)] \<and> tx_of l0 = replicate k head \<and> 1 \<le> k \<and> k \<le> n)"

lemma headed_first: "headed head (Suc n) [(TX, head), (RX, DL_ACK # a)]"
  unfolding headed_def by (intro exI [of _ "[(TX, head)]"] exI [of _ 1]) simp

lemma headed_more: "tx_of l' = [] \<Longrightarrow> headed head n l \<Longrightarrow> headed head (Suc n) ((TX, head) # l' @ l)"
  unfolding headed_def by (elim exE conjE, rule_tac x = "(TX, head) # l' @ l0" in exI, rule_tac x = "Suc k" in exI) simp

text \<open>The console output of a successful command ends in the marker, which does not occur before.\<close>

definition concluded :: "bytes \<Rightarrow> bytes \<Rightarrow> bool" where
  "concluded out received \<longleftrightarrow> (\<exists>rest. received = out @ EOT_OK @ rest)
     \<and> (\<forall>j < length out. take (length EOT_OK) (drop j received) \<noteq> EOT_OK)"

lemma find_sub_concluded: "find_sub EOT_OK 0 buf = Some i \<Longrightarrow> concluded (take i buf) buf"
proof -
  assume i: "find_sub EOT_OK 0 buf = Some i"
  then have "take (length EOT_OK) (drop i buf) = EOT_OK" "i \<le> length buf"
    using find_sub_Some by blast+
  moreover have "take (length EOT_OK) (drop j buf) \<noteq> EOT_OK" if "j < i" for j
    using i that by (auto simp: find_sub_def find_Some_iff simp del: upt_Suc dest: spec [where x = j])
  ultimately show ?thesis
    unfolding concluded_def by (metis append_take_drop_id length_take min.absorb2)
qed

definition executed :: "bytes \<Rightarrow> bytes \<Rightarrow> (Direction \<times> bytes) list \<Rightarrow> bool" where
  "executed cmd_bytes out l \<longleftrightarrow> (\<exists>l0 a ds. headed (xhead_frame cmd_bytes) 3 l0
     \<and> l = l0 @ [(TX, xcmd_frame cmd_bytes), (RX, DL_ACK # a)] @ map (Pair RX) ds \<and> concluded out (concat ds))"

lemma executedI: "headed (xhead_frame c) 3 l0 \<Longrightarrow> concluded out (concat ds) \<Longrightarrow>
  executed c out (l0 @ (TX, xcmd_frame c) # (RX, DL_ACK # a) # map (Pair RX) ds)"
  unfolding executed_def by auto

context logged_transport
begin

lemma send_xhead_log:
  "wlp (send_xhead T head n) s (\<lambda>r s'. r = Inr True \<longrightarrow> (\<exists>l. log s' = log s @ l \<and> headed head n l))"
proof (induction n arbitrary: s)
  case (Suc n)
  have again: "wlp (send_xhead T head n) s1 (\<lambda>r s'. r = Inr True \<longrightarrow> (\<exists>l. log s' = log s @ l \<and> headed head (Suc n) l))"
    if "\<exists>l'. log s1 = log s @ (TX, head) # l' \<and> tx_of l' = []" for s1
    using that by (intro wlp_mono [OF Suc.IH]) (force dest: headed_more)
  show ?case
    by (auto simp: wp first_is_ack_def headed_first intro!: wlp_transport again split: sum.split list.split)
qed (simp add: wp)

lemma eot_loop_log:
  "wlp (eot_loop T fuel deadline buf) s (\<lambda>r s'. \<forall>out. r = Inr (True, out) \<longrightarrow>
    (\<exists>ds. log s' = log s @ map (Pair RX) ds \<and> concluded out (buf @ concat ds)))"
proof (induction fuel arbitrary: s buf)
  case (Suc fuel)
  have again: "wlp (eot_loop T fuel deadline (buf @ d)) s1 (\<lambda>r s'. \<forall>out. r = Inr (True, out) \<longrightarrow>
    (\<exists>ds. log s' = log s @ map (Pair RX) ds \<and> concluded out (buf @ concat ds)))"
    if "log s1 = log s @ read_log (Inr d)" for s1 d
  proof -
    have "read_log (Inr d) = map (Pair RX) (if d = [] then [] else [d])" by (simp add: read_log_def)
    with that show ?thesis
      by (intro wlp_mono [OF Suc.IH]) (force intro: exI [of _ "(if d = [] then [] else [d]) @ _"] split: if_splits)
  qed
  have again0: "wlp (eot_loop T fuel deadline buf) s1 (\<lambda>r s'. \<forall>out. r = Inr (True, out) \<longrightarrow>
    (\<exists>ds. log s' = log s @ map (Pair RX) ds \<and> concluded out (buf @ concat ds)))" if "log s1 = log s" for s1
    using again [of s1 "[]"] that by simp
  have found: "\<exists>ds. read_log (Inr d) = map (Pair RX) ds \<and> concluded (take i (buf @ d)) (buf @ concat ds)"
    if "find_sub EOT_OK 0 (buf @ d) = Some i" for d i
    using find_sub_concluded [OF that] by (cases "d = []") (auto simp: read_log_def intro: exI [of _ "[]"] exI [of _ "[d]"])
  show ?case
    by (auto simp: wp Let_def intro!: wlp_transport Suc.IH split: sum.split option.split simp del: take_append)
       (auto intro: again again0 found simp del: take_append)
qed (simp add: wp)

lemma send_command_log:
  "wlp (download_send_command T fuel cmd timeout) s (\<lambda>r s'. case r of
     Inl e \<Rightarrow> True
   | Inr (ok, out) \<Rightarrow>
       if ok then \<exists>l. log s' = log s @ l \<and> executed (ascii cmd) out l \<and> encode_ascii cmd = Inr (ascii cmd) else True)"
proof (cases "encode_ascii cmd")
  case (Inr c)
  then have c: "c = ascii cmd" by (simp add: encode_ascii_def split: if_splits)
  have eot: "wlp (eot_loop T fuel deadline []) s1 (\<lambda>r s'. \<forall>out. r = Inr (True, out) \<longrightarrow> (\<exists>l. log s' = log s @ l \<and> executed c out l))"
    if "\<exists>l0 a. headed (xhead_frame c) 3 l0 \<and> log s1 = log s @ l0 @ [(TX, xcmd_frame c), (RX, DL_ACK # a)]" for s1 deadline
    using that by (intro wlp_mono [OF eot_loop_log]) (force intro: executedI)
  show ?thesis
    unfolding download_send_command_def Inr
    using Inr c
    by (auto simp: wp first_is_ack_def intro!: wlp_mono [OF send_xhead_log] wlp_transport wlp_mono [OF eot]
        split: sum.split list.split)
qed (simp add: download_send_command_def wp)

end

context timed_transport
begin

lemma send_xhead_ends: "twp (send_xhead T head n) s (\<lambda>_ _. True)"
proof (induction n arbitrary: s)
  case (Suc n)
  then show ?case by (auto simp: wp first_is_ack_def intro!: twp_transport split: sum.split list.split)
qed (simp add: wp)

lemma eot_loop_ends: "nat (deadline - tr_now T s) < fuel \<Longrightarrow> twp (eot_loop T fuel deadline buf) s (\<lambda>_ _. True)"
proof (induction fuel arbitrary: s buf)
  case (Suc fuel)
  then show ?case by (auto simp: wp Let_def intro!: twp_readI split: sum.split option.split)
qed simp

lemma send_command_ends: "nat timeout < fuel \<Longrightarrow> twp (download_send_command T fuel cmd timeout) s (\<lambda>_ _. True)"
  unfolding download_send_command_def
  by (auto simp: wp first_is_ack_def intro!: twp_mono [OF send_xhead_ends] twp_transport twp_mono [OF eot_loop_ends]
      split: sum.split list.split)

end

section \<open>Properties\<close>

text \<open>C13: a command in download mode. Over every transport whose waits end, it returns. Success means that one to three
  header frames were sent and the last one acknowledged, then exactly one command frame was sent and acknowledged, and
  that what was received after it is the output returned, up to the first success marker. Both frames carry valid
  checksums, and the command frame the command.\<close>

theorem send_command_executed:
  assumes "timed_transport T" "nat timeout < fuel"
  shows "twp (download_send_command (recording T) fuel cmd timeout) s (\<lambda>r s'. case r of
     Inl e \<Rightarrow> True
   | Inr (ok, out) \<Rightarrow>
       if ok then \<exists>l. rec_log s' = rec_log s @ l \<and> executed (ascii cmd) out l \<and> encode_ascii cmd = Inr (ascii cmd) else True)
     \<and> verify_crc (xhead_frame (ascii cmd)) \<and> verify_crc (xcmd_frame (ascii cmd))
     \<and> butlast (butlast (xcmd_frame (ascii cmd))) = XCMD # ascii cmd"
proof -
  have "butlast (butlast (append_crc d)) = d" for d by (simp add: append_crc_def Let_def butlast_append)
  then show ?thesis
    using twp_combine [OF timed_transport.send_command_ends [OF timed_recording [OF assms(1)] assms(2)] rec.send_command_log]
    by (simp add: xhead_frame_seal xcmd_frame_seal append_crc_verifies)
qed

theorem send_command_executed_witness:
  "returns (download_send_command (recording mock_transport) 30000001 ''sf probe 0'' 30000000)
     (RecordingTransport_init mock_transport (MockTransport True) [] 115200)"
  using send_command_executed [OF mock.timed_transport_axioms, of 30000000 30000001 "''sf probe 0''"
      "RecordingTransport_init mock_transport (MockTransport True) [] 115200"]
  by (auto intro: twp_returns)

end
