(* ===== verification/Ubi.thy ===== *)
theory Ubi
  imports Profiles "HOL-Library.AList"
begin

text \<open>
  \<open>src/defib/ubi.py\<close>: the logical contents of a UBI volume, read from a raw image of physical erase blocks.
\<close>

section \<open>Extraction\<close>

definition UBI_EC_MAGIC :: bytes where "UBI_EC_MAGIC = [0x55, 0x42, 0x49, 0x23]"
definition UBIFS_MAGIC :: bytes where "UBIFS_MAGIC = [0x31, 0x18, 0x10, 0x06]"
definition VID_MAGIC :: bytes where "VID_MAGIC = [0x55, 0x42, 0x49, 0x21]"
definition EC_HDR_SIZE :: nat where "EC_HDR_SIZE = 64"
definition VID_HDR_SIZE :: nat where "VID_HDR_SIZE = 64"

definition is_ubi_image :: "bytes \<Rightarrow> bool" where
  "is_ubi_image data \<longleftrightarrow> 4 \<le> length data \<and> take 4 data = UBI_EC_MAGIC"

definition is_ubifs_image :: "bytes \<Rightarrow> bool" where
  "is_ubifs_image data \<longleftrightarrow> 4 \<le> length data \<and> take 4 data = UBIFS_MAGIC"

text \<open>A big-endian field of a header at an offset.\<close>

definition be_field :: "bytes \<Rightarrow> nat \<Rightarrow> nat" where
  "be_field data off = nat (be_val (pyslice off (off + 4) data))"

text \<open>One erase block: nothing when it is skipped, else the logical block number and its data.\<close>

definition read_peb :: "bytes \<Rightarrow> nat \<Rightarrow> nat \<Rightarrow> nat \<Rightarrow> exn + (nat \<times> bytes) option" where
  "read_peb ubi_data peb_size vol_id peb_idx =
     (let peb_off = peb_idx * peb_size in
      if pyslice peb_off (peb_off + 4) ubi_data \<noteq> UBI_EC_MAGIC then Inr None
      else if length ubi_data < peb_off + EC_HDR_SIZE then Inl StructError
      else let peb_vid_off = be_field ubi_data (peb_off + 16);
               peb_data_off = be_field ubi_data (peb_off + 20);
               vid_off = peb_off + peb_vid_off
           in if vid_off + VID_HDR_SIZE > length ubi_data then Inr None
              else if pyslice vid_off (vid_off + 4) ubi_data \<noteq> VID_MAGIC then Inr None
              else if be_field ubi_data (vid_off + 8) \<noteq> vol_id then Inr None
              else Inr (Some (be_field ubi_data (vid_off + 12), pyslice (peb_off + peb_data_off) (peb_off + peb_size) ubi_data)))"

fun collect_lebs :: "bytes \<Rightarrow> nat \<Rightarrow> nat \<Rightarrow> nat list \<Rightarrow> (nat \<times> bytes) list \<Rightarrow> exn + (nat \<times> bytes) list" where
  "collect_lebs ubi_data peb_size vol_id [] lebs = Inr lebs"
| "collect_lebs ubi_data peb_size vol_id (i # is) lebs =
     sum_bind (read_peb ubi_data peb_size vol_id i) (\<lambda>found. case found of
       None \<Rightarrow> collect_lebs ubi_data peb_size vol_id is lebs
     | Some (lnum, leb) \<Rightarrow> collect_lebs ubi_data peb_size vol_id is (AList.update lnum leb lebs))"

definition assemble :: "(nat \<times> bytes) list \<Rightarrow> nat \<Rightarrow> nat \<Rightarrow> bytes" where
  "assemble lebs leb_size_actual max_leb =
     concat (map (\<lambda>i. case map_of lebs i of Some d \<Rightarrow> d | None \<Rightarrow> replicate leb_size_actual 0xFF) [0..<max_leb + 1])"

text \<open>\<open>result[-n:]\<close> is the whole result when \<open>n\<close> is zero.\<close>

function trim_erased :: "nat \<Rightarrow> bytes \<Rightarrow> bytes" where
  "trim_erased n result =
     (if n < length result \<and> (if n = 0 then result else drop (length result - n) result) = replicate n 0xFF
      then trim_erased n (take (length result - n) result) else result)"
  by pat_completeness auto
termination by (relation "measure (\<lambda>(n, r). length r)") (auto split: if_splits)

declare trim_erased.simps [simp del]

definition extract_ubifs :: "bytes \<Rightarrow> nat \<Rightarrow> nat \<Rightarrow> exn + bytes" where
  "extract_ubifs ubi_data peb_size vol_id =
     (if \<not> is_ubi_image ubi_data then Inl ValueError
      else if peb_size = 0 then Inl ZeroDivisionError
      else sum_bind (collect_lebs ubi_data peb_size vol_id [0..<length ubi_data div peb_size] []) (\<lambda>lebs.
        if lebs = [] then Inl ValueError
        else let leb_size_actual = length (snd (hd lebs));
                 ubifs = trim_erased leb_size_actual (assemble lebs leb_size_actual (Max (fst ` set lebs)))
             in if is_ubifs_image ubifs then Inr ubifs else Inl ValueError))"

section \<open>Images by their blocks\<close>

text \<open>A block that holds logical block \<open>lnum\<close> of the volume, and one that holds nothing of it: erased, bad, without
  a volume header, or of another volume.\<close>

definition peb_holds :: "nat \<Rightarrow> nat \<Rightarrow> bytes \<Rightarrow> nat \<Rightarrow> bytes \<Rightarrow> bool" where
  "peb_holds peb_size vol_id p lnum leb \<longleftrightarrow> length p = peb_size \<and> take 4 p = UBI_EC_MAGIC
     \<and> (let v = be_field p 16 in v + 64 \<le> peb_size \<and> pyslice v (v + 4) p = VID_MAGIC
        \<and> be_field p (v + 8) = vol_id \<and> be_field p (v + 12) = lnum)
     \<and> leb = drop (be_field p 20) p"

definition peb_skipped :: "nat \<Rightarrow> nat \<Rightarrow> bytes \<Rightarrow> bool" where
  "peb_skipped peb_size vol_id p \<longleftrightarrow> length p = peb_size \<and> (take 4 p \<noteq> UBI_EC_MAGIC
     \<or> (let v = be_field p 16 in v + 64 \<le> peb_size \<and> (pyslice v (v + 4) p \<noteq> VID_MAGIC \<or> be_field p (v + 8) \<noteq> vol_id)))"

definition peb_content :: "nat \<Rightarrow> nat \<Rightarrow> bytes \<Rightarrow> (nat \<times> bytes) option \<Rightarrow> bool" where
  "peb_content peb_size vol_id p found \<longleftrightarrow> (case found of
     Some (lnum, leb) \<Rightarrow> peb_holds peb_size vol_id p lnum leb
   | None \<Rightarrow> peb_skipped peb_size vol_id p)"

definition somes :: "'a option list \<Rightarrow> 'a list" where
  "somes xs = map the (filter (\<lambda>x. x \<noteq> None) xs)"

lemma somes_simps [simp]: "somes [] = []" "somes (None # xs) = somes xs" "somes (Some x # xs) = x # somes xs"
  by (simp_all add: somes_def)

lemma drop_concat_blocks:
  "\<forall>p \<in> set ps. length p = n \<Longrightarrow> i < length ps \<Longrightarrow> drop (i * n) (concat ps) = ps ! i @ concat (drop (Suc i) ps)"
proof (induction ps arbitrary: i)
  case (Cons p ps)
  then show ?case by (cases i) auto
qed simp

lemma length_concat_blocks: "\<forall>p \<in> set ps. length p = n \<Longrightarrow> length (concat ps) = length ps * n"
  by (induction ps) auto

lemma pyslice_block:
  assumes "\<forall>p \<in> set ps. length p = n" "i < length ps" "b \<le> n"
  shows "pyslice (i * n + a) (i * n + b) (concat ps) = pyslice a b (ps ! i)"
proof -
  have "length (ps ! i) = n" using assms by simp
  moreover have "drop (i * n + a) (concat ps) = drop a (ps ! i @ concat (drop (Suc i) ps))"
    using drop_concat_blocks [OF assms(1,2)] by (metis add.commute drop_drop)
  ultimately show ?thesis using assms(3) by (simp add: pyslice_def)
qed

lemma read_peb_block:
  assumes ps: "\<forall>p \<in> set ps. length p = n" and i: "i < length ps" and n: "64 \<le> n" and c: "peb_content n vol (ps ! i) found"
  shows "read_peb (concat ps) n vol i = Inr found"
proof -
  have field: "be_field (concat ps) (i * n + a) = be_field (ps ! i) a" if "a + 4 \<le> n" for a
    using pyslice_block [OF ps i that, of a] by (simp add: be_field_def add.assoc)
  have slice: "pyslice (i * n + a) (i * n + a + 4) (concat ps) = pyslice a (a + 4) (ps ! i)" if "a + 4 \<le> n" for a
    using pyslice_block [OF ps i that, of a] by (simp add: add.assoc)
  have len: "i * n + n \<le> length (concat ps)"
    using i by (simp add: length_concat_blocks [OF ps]) (metis Suc_leI add.commute mult_Suc mult_le_mono1)
  have li: "length (ps ! i) = n" using ps i by simp
  have leb: "pyslice (i * n + a) (i * n + n) (concat ps) = drop a (ps ! i)" for a
    using pyslice_block [OF ps i order_refl, of a] li by (simp add: pyslice_def)
  show ?thesis
    using c n len field [of 16] field [of 20] slice [of 0] slice [of "be_field (ps ! i) 16"]
      field [of "be_field (ps ! i) 16 + 8"] field [of "be_field (ps ! i) 16 + 12"]
    by (auto simp: read_peb_def peb_content_def peb_holds_def peb_skipped_def Let_def EC_HDR_SIZE_def VID_HDR_SIZE_def
        leb add.assoc pyslice_def [of 0] split: option.splits prod.splits)
qed

lemma update_fresh: "k \<notin> fst ` set al \<Longrightarrow> AList.update k v al = al @ [(k, v)]"
  by (induction al) auto

lemma collect_lebs_blocks:
  assumes ps: "\<forall>p \<in> set ps. length p = n" and n: "64 \<le> n" and c: "list_all2 (peb_content n vol) ps es"
    and d: "distinct (map fst (lebs @ somes (drop k es)))"
  shows "collect_lebs (concat ps) n vol [k..<length ps] lebs = Inr (lebs @ somes (drop k es))"
  using d
proof (induction "length ps - k" arbitrary: k lebs)
  case 0
  then show ?case using list_all2_lengthD [OF c] by simp
next
  case (Suc m)
  then have k: "k < length ps" "k < length es" using list_all2_lengthD [OF c] by simp_all
  have found: "read_peb (concat ps) n vol k = Inr (es ! k)"
    using read_peb_block [OF ps k(1) n] list_all2_nthD [OF c k(1)] by simp
  have upt: "[k..<length ps] = k # [Suc k..<length ps]" using k by (simp add: upt_conv_Cons)
  have drop: "drop k es = es ! k # drop (Suc k) es" using k by (simp add: Cons_nth_drop_Suc)
  have IH: "distinct (map fst (lebs' @ somes (drop (Suc k) es))) \<Longrightarrow>
      collect_lebs (concat ps) n vol [Suc k..<length ps] lebs' = Inr (lebs' @ somes (drop (Suc k) es))" for lebs'
    using Suc by (intro Suc(1)) auto
  show ?case
    using IH [of lebs] IH [of "lebs @ [the (es ! k)]"] Suc.prems
    by (cases "es ! k") (auto simp: upt drop found sum_bind_def update_fresh simp del: upt_Suc)
qed

lemma peb_content_length: "peb_content n vol p found \<Longrightarrow> length p = n"
  by (auto simp: peb_content_def peb_holds_def peb_skipped_def split: option.splits)

lemma trim_erased_last:
  assumes "length d = n" "0 < n" "d \<noteq> replicate n 0xFF"
  shows "trim_erased n (xs @ d) = xs @ d"
  using assms by (subst trim_erased.simps) simp


definition small_peb :: bytes where
  "small_peb = UBI_EC_MAGIC @ replicate 12 0 @ [0, 0, 0, 64, 0, 0, 0, 128] @ replicate 40 0
     @ VID_MAGIC @ replicate 60 0 @ UBIFS_MAGIC"


end
