(* ===== verification/Utf8.thy ===== *)
theory Utf8
  imports Prelude
begin

text \<open>
  Python strings as lists of code points, with the UTF-8 codec of \<open>str.encode\<close> and of
  \<open>bytes.decode\<close> with \<open>errors='replace'\<close>, as \<open>src/defib/power/routeros.py\<close> uses them.
\<close>

type_synonym ustr = "int list"

definition lit :: "string \<Rightarrow> ustr" where
  "lit s = map of_char s"

definition startswith :: "ustr \<Rightarrow> ustr \<Rightarrow> bool" where
  "startswith prefix s \<longleftrightarrow> take (length prefix) s = prefix"

lemma lit_Cons [simp]: "lit (c # s) = of_char c # lit s"
  by (simp add: lit_def)

lemma lit_Nil [simp]: "lit [] = []"
  by (simp add: lit_def)

lemma startswith_append [simp]: "startswith p (p @ s)"
  by (simp add: startswith_def)

text \<open>Surrogates cannot be encoded; Python raises \<open>UnicodeEncodeError\<close>, a \<open>ValueError\<close>.\<close>

definition scalar :: "int \<Rightarrow> bool" where
  "scalar c \<longleftrightarrow> 0 \<le> c \<and> c < 0x110000 \<and> \<not> (0xD800 \<le> c \<and> c < 0xE000)"

definition utf8_char :: "int \<Rightarrow> bytes" where
  "utf8_char c = map word_of_int
     (if c < 0x80 then [c]
      else if c < 0x800 then [0xC0 + c div 64, 0x80 + c mod 64]
      else if c < 0x10000 then [0xE0 + c div 4096, 0x80 + c div 64 mod 64, 0x80 + c mod 64]
      else [0xF0 + c div 262144, 0x80 + c div 4096 mod 64, 0x80 + c div 64 mod 64, 0x80 + c mod 64])"

definition utf8_encode :: "ustr \<Rightarrow> exn + bytes" where
  "utf8_encode s = (if list_all scalar s then Inr (concat (map utf8_char s)) else Inl ValueError)"

text \<open>
  A lead byte announces a number of further bytes, the first of which has a range of its own. A
  sequence that breaks off is replaced as a whole by U+FFFD, and decoding goes on with the byte
  that broke it.
\<close>

definition utf8_lead :: "int \<Rightarrow> nat \<times> int \<times> int" where
  "utf8_lead b =
     (if 0xC2 \<le> b \<and> b < 0xE0 then (1, 0x80, 0xC0)
      else if b = 0xE0 then (2, 0xA0, 0xC0)
      else if b = 0xED then (2, 0x80, 0xA0)
      else if 0xE1 \<le> b \<and> b < 0xF0 then (2, 0x80, 0xC0)
      else if b = 0xF0 then (3, 0x90, 0xC0)
      else if 0xF1 \<le> b \<and> b < 0xF4 then (3, 0x80, 0xC0)
      else if b = 0xF4 then (3, 0x80, 0x90)
      else (0, 0, 0))"

fun utf8_tail :: "nat \<Rightarrow> int \<Rightarrow> int \<Rightarrow> int \<Rightarrow> bytes \<Rightarrow> int \<times> bytes" where
  "utf8_tail 0 lo hi acc bs = (acc, bs)"
| "utf8_tail (Suc n) lo hi acc [] = (0xFFFD, [])"
| "utf8_tail (Suc n) lo hi acc (b # bs) =
     (if lo \<le> uint b \<and> uint b < hi then utf8_tail n 0x80 0xC0 (acc * 64 + uint b mod 64) bs
      else (0xFFFD, b # bs))"

definition utf8_next :: "byte \<Rightarrow> bytes \<Rightarrow> int \<times> bytes" where
  "utf8_next b bs =
     (if uint b < 0x80 then (uint b, bs)
      else case utf8_lead (uint b) of (n, lo, hi) \<Rightarrow>
        if n = 0 then (0xFFFD, bs)
        else utf8_tail n lo hi (if n = 1 then uint b mod 32 else if n = 2 then uint b mod 16 else uint b mod 8) bs)"

lemma length_utf8_tail: "length (snd (utf8_tail n lo hi acc bs)) \<le> length bs"
  by (induction n lo hi acc bs rule: utf8_tail.induct) auto

lemma length_utf8_next: "length (snd (utf8_next b bs)) \<le> length bs"
  by (auto simp: utf8_next_def length_utf8_tail split: prod.split)

function utf8_decode :: "bytes \<Rightarrow> ustr" where
  "utf8_decode [] = []"
| "utf8_decode (b # bs) = fst (utf8_next b bs) # utf8_decode (snd (utf8_next b bs))"
  by pat_completeness auto
termination
  by (relation "measure length") (auto simp: le_imp_less_Suc length_utf8_next)

lemma utf8_char_Cons: "\<exists>b bs. utf8_char c = b # bs"
  by (simp add: utf8_char_def)

lemma mod_drop: "a mod m = 0 \<Longrightarrow> 0 \<le> x \<Longrightarrow> x < m \<Longrightarrow> (a + x) mod m = (x::int)"
  by (subst mod_add_left_eq [symmetric]) simp

text \<open>The lengths of a sequence, with the digits of the code point to base 64.\<close>

lemma utf8_next_2:
  assumes "uint b = 192 + x" "2 \<le> x" "x < 32" "uint b1 = 128 + y" "0 \<le> y" "y < 64"
  shows "utf8_next b (b1 # rest) = (x * 64 + y, rest)"
  using assms by (simp add: utf8_next_def utf8_lead_def mod_drop eval_nat_numeral)

lemma utf8_next_3:
  assumes "uint b = 224 + x" "0 \<le> x" "x < 16" "uint b1 = 128 + y" "0 \<le> y" "y < 64"
    "uint b2 = 128 + z" "0 \<le> z" "z < 64" "x = 0 \<Longrightarrow> 32 \<le> y" "x = 13 \<Longrightarrow> y < 32"
  shows "utf8_next b (b1 # b2 # rest) = ((x * 64 + y) * 64 + z, rest)"
  using assms by (simp add: utf8_next_def utf8_lead_def mod_drop eval_nat_numeral)

lemma utf8_next_4:
  assumes "uint b = 240 + x" "0 \<le> x" "x < 5" "uint b1 = 128 + y" "0 \<le> y" "y < 64"
    "uint b2 = 128 + z" "0 \<le> z" "z < 64" "uint b3 = 128 + u" "0 \<le> u" "u < 64"
    "x = 0 \<Longrightarrow> 16 \<le> y" "x = 4 \<Longrightarrow> y < 16"
  shows "utf8_next b (b1 # b2 # b3 # rest) = (((x * 64 + y) * 64 + z) * 64 + u, rest)"
  using assms by (simp add: utf8_next_def utf8_lead_def mod_drop eval_nat_numeral)

lemma uint_byte: "0 \<le> a \<Longrightarrow> 0 \<le> x \<Longrightarrow> x < 256 - a \<Longrightarrow> uint (word_of_int (a + x) :: byte) = a + x"
  by (simp only: uint_word_of_int_8) simp

lemma base64_digits: "c div 64 * 64 + c mod 64 = (c::int)" "c div 4096 = c div 64 div 64" "c div 262144 = c div 64 div 64 div 64"
  by (simp_all add: zdiv_zmult2_eq [symmetric])

lemma utf8_next_char:
  assumes "scalar c"
  shows "utf8_next (hd (utf8_char c)) (tl (utf8_char c) @ rest) = (c, rest)"
proof -
  have c: "0 \<le> c" "c < 0x110000" "\<not> (0xD800 \<le> c \<and> c < 0xE000)"
    using assms(1) by (auto simp: scalar_def)
  obtain p q r where dig: "c div 64 = p" "p div 64 = q" "q div 64 = r" by blast
  have e: "p * 64 + c mod 64 = c" "q * 64 + p mod 64 = p" "r * 64 + q mod 64 = q"
    using dig by auto
  have bd: "0 \<le> c mod 64" "c mod 64 < 64" "0 \<le> p mod 64" "p mod 64 < 64" "0 \<le> q mod 64" "q mod 64 < 64"
    by auto
  consider (1) "c < 0x80" | (2) "0x80 \<le> c" "c < 0x800" | (3) "0x800 \<le> c" "c < 0x10000" | (4) "0x10000 \<le> c"
    by linarith
  then show ?thesis
  proof cases
    case 1
    with c show ?thesis by (simp add: utf8_char_def utf8_next_def)
  next
    case 2
    have bounds: "2 \<le> p" "p < 32" using 2 e bd c by linarith+
    have "utf8_char c = [word_of_int (192 + p), word_of_int (128 + c mod 64)]"
      using 2 dig by (simp add: utf8_char_def base64_digits(2,3))
    moreover have "utf8_next (word_of_int (192 + p)) ([word_of_int (128 + c mod 64)] @ rest) = (p * 64 + c mod 64, rest)"
      unfolding append_Cons append_Nil
      by (rule utf8_next_2) (use bounds bd in \<open>simp_all only: uint_byte; linarith\<close>)+
    ultimately show ?thesis using e by simp
  next
    case 3
    have bounds: "0 \<le> q" "q < 16" "q = 0 \<Longrightarrow> 32 \<le> p mod 64" "q = 13 \<Longrightarrow> p mod 64 < 32" using 3 e bd c by linarith+
    have "utf8_char c = [word_of_int (224 + q), word_of_int (128 + p mod 64), word_of_int (128 + c mod 64)]"
      using 3 dig by (simp add: utf8_char_def base64_digits(2,3))
    moreover have "utf8_next (word_of_int (224 + q)) ([word_of_int (128 + p mod 64), word_of_int (128 + c mod 64)] @ rest) = ((q * 64 + p mod 64) * 64 + c mod 64, rest)"
      unfolding append_Cons append_Nil
      by (rule utf8_next_3) (use bounds bd in \<open>simp_all only: uint_byte; linarith\<close>)+
    ultimately show ?thesis using e by simp
  next
    case 4
    have bounds: "0 \<le> r" "r < 5" "r = 0 \<Longrightarrow> 16 \<le> q mod 64" "r = 4 \<Longrightarrow> q mod 64 < 16" using 4 e bd c by linarith+
    have "utf8_char c = [word_of_int (240 + r), word_of_int (128 + q mod 64), word_of_int (128 + p mod 64), word_of_int (128 + c mod 64)]"
      using 4 dig by (simp add: utf8_char_def base64_digits(2,3))
    moreover have "utf8_next (word_of_int (240 + r)) ([word_of_int (128 + q mod 64), word_of_int (128 + p mod 64), word_of_int (128 + c mod 64)] @ rest) = (((r * 64 + q mod 64) * 64 + p mod 64) * 64 + c mod 64, rest)"
      unfolding append_Cons append_Nil
      by (rule utf8_next_4) (use bounds bd in \<open>simp_all only: uint_byte; linarith\<close>)+
    ultimately show ?thesis using e by simp
  qed
qed

lemma utf8_decode_char [simp]: "scalar c \<Longrightarrow> utf8_decode (utf8_char c @ rest) = c # utf8_decode rest"
  using utf8_char_Cons [of c] utf8_next_char [of c rest] by auto

lemma utf8_decode_encode: "utf8_encode s = Inr bs \<Longrightarrow> utf8_decode bs = s"
proof -
  have "list_all scalar s \<Longrightarrow> utf8_decode (concat (map utf8_char s)) = s"
    by (induction s) auto
  then show "utf8_encode s = Inr bs \<Longrightarrow> utf8_decode bs = s"
    by (auto simp: utf8_encode_def split: if_splits)
qed

lemma length_utf8_encode: "utf8_encode s = Inr bs \<Longrightarrow> length s \<le> length bs"
proof -
  have "length s \<le> length (concat (map utf8_char s))"
    by (induction s) (auto simp: utf8_char_def)
  then show "utf8_encode s = Inr bs \<Longrightarrow> length s \<le> length bs"
    by (auto simp: utf8_encode_def split: if_splits)
qed

end
