(* ===== verification/RouterOs.thy ===== *)
theory RouterOs
  imports Links Utf8
begin

text \<open>
  \<open>src/defib/power/routeros.py\<close>: the PoE power controller for MikroTik switches, with its client of
  the RouterOS API. A sentence is a list of length-prefixed words closed by an empty word. The
  TCP streams, MD5, the to_lower-casing of strings and the reading of decimal integers are
  parameters; log output is left out.
\<close>

section \<open>Streams\<close>

text \<open>
  \<open>tcp_open\<close> is \<open>asyncio.open_connection\<close> awaited for at most the given time. A write only fills
  the buffer of the stream; \<open>tcp_drain\<close> waits for it.
\<close>

record ('s, 'h) tcp =
  tcp_open :: "string \<Rightarrow> int \<Rightarrow> usec \<Rightarrow> ('s, 'h) io"
  tcp_readexactly :: "'h \<Rightarrow> nat \<Rightarrow> ('s, bytes) io"
  tcp_write :: "'h \<Rightarrow> bytes \<Rightarrow> ('s, unit) io"
  tcp_drain :: "'h \<Rightarrow> ('s, unit) io"
  tcp_close :: "'h \<Rightarrow> ('s, unit) io"

section \<open>Words and sentences\<close>

definition encode_length :: "int \<Rightarrow> exn + bytes" where
  "encode_length n =
     (if n < 0x80 then pack_be 1 n
      else if n < 0x4000 then pack_be 2 (n OR 0x8000)
      else if n < 0x200000 then
        let b = n OR 0xC00000 in
        sum_bind (pack_be 1 (drop_bit 16 b AND 0xFF)) (\<lambda>hi.
          sum_bind (pack_be 2 (b AND 0xFFFF)) (\<lambda>lo. Inr (hi @ lo)))
      else if n < 0x10000000 then pack_be 4 (n OR 0xE0000000)
      else Inl PowerControllerError)"

definition index0 :: "bytes \<Rightarrow> ('s, int) io" where
  "index0 bs = (case bs of [] \<Rightarrow> io_raise IndexError | b # _ \<Rightarrow> io_return (uint b))"

definition read_length :: "('s, 'h) tcp \<Rightarrow> 'h \<Rightarrow> ('s, int) io" where
  "read_length S h =
     io_bind (io_bind (tcp_readexactly S h 1) index0) (\<lambda>b.
       if b < 0x80 then io_return b
       else if b < 0xC0 then
         io_bind (io_bind (tcp_readexactly S h 1) index0) (\<lambda>b2.
           io_return (push_bit 8 (b AND 0x3F) OR b2))
       else if b < 0xE0 then
         io_bind (tcp_readexactly S h 2) (\<lambda>rest. case rest of
           r0 # r1 # _ \<Rightarrow> io_return (push_bit 16 (b AND 0x1F) OR push_bit 8 (uint r0) OR uint r1)
         | _ \<Rightarrow> io_raise IndexError)
       else if b < 0xF0 then
         io_bind (tcp_readexactly S h 3) (\<lambda>rest. case rest of
           r0 # r1 # r2 # _ \<Rightarrow>
             io_return (push_bit 24 (b AND 0x0F) OR push_bit 16 (uint r0) OR push_bit 8 (uint r1) OR uint r2)
         | _ \<Rightarrow> io_raise IndexError)
       else io_raise PowerControllerError)"

definition read_word :: "('s, 'h) tcp \<Rightarrow> 'h \<Rightarrow> ('s, ustr) io" where
  "read_word S h =
     io_bind (read_length S h) (\<lambda>n.
       if n = 0 then io_return []
       else io_bind (tcp_readexactly S h (nat n)) (\<lambda>data. io_return (utf8_decode data)))"

definition encode_word :: "ustr \<Rightarrow> exn + bytes" where
  "encode_word word =
     sum_bind (utf8_encode word) (\<lambda>payload.
       sum_bind (encode_length (int (length payload))) (\<lambda>n. Inr (n @ payload)))"

fun send_words :: "('s, 'h) tcp \<Rightarrow> 'h \<Rightarrow> ustr list \<Rightarrow> ('s, unit) io" where
  "send_words S h [] = io_return ()"
| "send_words S h (word # words) =
     io_bind (io_lift (encode_word word)) (\<lambda>bs. io_then (tcp_write S h bs) (send_words S h words))"

definition send_sentence :: "('s, 'h) tcp \<Rightarrow> 'h \<Rightarrow> ustr list \<Rightarrow> ('s, unit) io" where
  "send_sentence S h words =
     io_then (send_words S h words) (io_then (tcp_write S h [0]) (tcp_drain S h))"

text \<open>A peer may send words for ever; the loops over words and sentences have fuel.\<close>

fun read_sentence_loop :: "('s, 'h) tcp \<Rightarrow> 'h \<Rightarrow> nat \<Rightarrow> ustr list \<Rightarrow> ('s, ustr list) io" where
  "read_sentence_loop S h 0 words = io_diverge"
| "read_sentence_loop S h (Suc fuel) words =
     io_bind (read_word S h) (\<lambda>word.
       if word = [] then io_return words else read_sentence_loop S h fuel (words @ [word]))"

definition read_sentence :: "('s, 'h) tcp \<Rightarrow> 'h \<Rightarrow> nat \<Rightarrow> ('s, ustr list) io" where
  "read_sentence S h fuel = read_sentence_loop S h fuel []"

section \<open>The API connection\<close>

text \<open>\<open>sentence[0] == kind\<close>; the sentences of a response are never empty.\<close>

definition is_kind :: "string \<Rightarrow> ustr list \<Rightarrow> bool" where
  "is_kind kind sentence \<longleftrightarrow> sentence \<noteq> [] \<and> hd sentence = lit kind"

fun read_response_loop :: "('s, 'h) tcp \<Rightarrow> 'h \<Rightarrow> nat \<Rightarrow> nat \<Rightarrow> ustr list list \<Rightarrow> ('s, ustr list list) io" where
  "read_response_loop S h fuel 0 sentences = io_diverge"
| "read_response_loop S h fuel (Suc n) sentences =
     io_bind (read_sentence S h fuel) (\<lambda>sentence.
       if sentence = [] then read_response_loop S h fuel n sentences
       else if is_kind ''!done'' sentence \<or> is_kind ''!trap'' sentence
       then io_return (sentences @ [sentence])
       else read_response_loop S h fuel n (sentences @ [sentence]))"

definition read_response :: "('s, 'h) tcp \<Rightarrow> 'h \<Rightarrow> nat \<Rightarrow> ('s, ustr list list) io" where
  "read_response S h fuel = read_response_loop S h fuel fuel []"

definition api_call :: "('s, 'h) tcp \<Rightarrow> 'h \<Rightarrow> nat \<Rightarrow> ustr list \<Rightarrow> ('s, ustr list list) io" where
  "api_call S h fuel words = io_then (send_sentence S h words) (read_response S h fuel)"

definition extract_attr :: "ustr list \<Rightarrow> string \<Rightarrow> ustr option" where
  "extract_attr sentence key =
     (let prefix = lit (''='' @ key @ ''='') in
      map_option (drop (length prefix)) (List.find (startswith prefix) sentence))"

definition item_of :: "ustr list \<Rightarrow> (ustr \<rightharpoonup> ustr)" where
  "item_of attrs = foldl (\<lambda>item word.
     if startswith (lit ''='') word \<and> of_char CHR ''='' \<in> set (drop 1 word)
     then item(takeWhile (\<lambda>c. c \<noteq> of_char CHR ''='') (drop 1 word)
               \<mapsto> drop 1 (dropWhile (\<lambda>c. c \<noteq> of_char CHR ''='') (drop 1 word)))
     else item) Map.empty attrs"

definition parse_items :: "ustr list list \<Rightarrow> (ustr \<rightharpoonup> ustr) list" where
  "parse_items response = map (\<lambda>sentence. item_of (drop 1 sentence)) (filter (is_kind ''!re'') response)"

text \<open>The check for \<open>!trap\<close> that follows a call.\<close>

definition check_trap :: "ustr list list \<Rightarrow> ('s, unit) io" where
  "check_trap response =
     (if list_ex (is_kind ''!trap'') response then io_raise PowerControllerError else io_return ())"

definition ascii_space :: "int \<Rightarrow> bool" where
  "ascii_space c \<longleftrightarrow> c = 32 \<or> 9 \<le> c \<and> c \<le> 13"

definition hex_digit_of :: "int \<Rightarrow> int option" where
  "hex_digit_of c =
     (if 48 \<le> c \<and> c \<le> 57 then Some (c - 48)
      else if 97 \<le> c \<and> c \<le> 102 then Some (c - 87)
      else if 65 \<le> c \<and> c \<le> 70 then Some (c - 55)
      else None)"

fun fromhex :: "ustr \<Rightarrow> exn + bytes" where
  "fromhex [] = Inr []"
| "fromhex [c] = (if ascii_space c then Inr [] else Inl ValueError)"
| "fromhex (c # d # cs) =
     (if ascii_space c then fromhex (d # cs)
      else case (hex_digit_of c, hex_digit_of d) of
        (Some x, Some y) \<Rightarrow> sum_bind (fromhex cs) (\<lambda>bs. Inr (word_of_int (16 * x + y) # bs))
      | _ \<Rightarrow> Inl ValueError)"

definition login_legacy ::
  "('s, 'h) tcp \<Rightarrow> (bytes \<Rightarrow> ustr) \<Rightarrow> 'h \<Rightarrow> nat \<Rightarrow> ustr \<Rightarrow> ustr \<Rightarrow> ustr \<Rightarrow> ('s, unit) io" where
  "login_legacy S md5_hex h fuel username password challenge_hex =
     io_bind (io_lift (fromhex challenge_hex)) (\<lambda>challenge.
       io_bind (io_lift (utf8_encode password)) (\<lambda>secret.
         let hashed = lit ''00'' @ md5_hex ([0] @ secret @ challenge) in
         io_bind (api_call S h fuel [lit ''/login'', lit ''=name='' @ username, lit ''=response='' @ hashed])
           check_trap))"

definition login :: "('s, 'h) tcp \<Rightarrow> (bytes \<Rightarrow> ustr) \<Rightarrow> 'h \<Rightarrow> nat \<Rightarrow> ustr \<Rightarrow> ustr \<Rightarrow> ('s, unit) io" where
  "login S md5_hex h fuel username password =
     io_bind (api_call S h fuel [lit ''/login'', lit ''=name='' @ username, lit ''=password='' @ password]) (\<lambda>response.
       io_then (check_trap response)
         (case List.find (is_kind ''!done'') response of
            None \<Rightarrow> io_raise PowerControllerError
          | Some sentence \<Rightarrow> (case extract_attr sentence ''ret'' of
              None \<Rightarrow> io_return ()
            | Some challenge \<Rightarrow>
                if challenge = [] then io_return ()
                else login_legacy S md5_hex h fuel username password challenge)))"

section \<open>The controller\<close>

record ('s, 'h) RouterOSController =
  ro_host :: string
  ro_username :: ustr
  ro_password :: ustr
  ro_api_port :: int
  ro_conn :: "'h option"
  ro_saved_poe_out :: "ustr \<rightharpoonup> ustr"
  ro_net :: 's

definition RouterOSController_init ::
  "string \<Rightarrow> ustr \<Rightarrow> ustr \<Rightarrow> int \<Rightarrow> 's \<Rightarrow> ('s, 'h) RouterOSController" where
  "RouterOSController_init host username password api_port net =
     \<lparr>ro_host = host, ro_username = username, ro_password = password, ro_api_port = api_port,
      ro_conn = None, ro_saved_poe_out = Map.empty, ro_net = net\<rparr>"

definition ro_from_env ::
  "(string \<Rightarrow> string option) \<Rightarrow> (string \<Rightarrow> exn + int) \<Rightarrow> 's \<Rightarrow> exn + ('s, 'h) RouterOSController" where
  "ro_from_env environ read_int net =
     (case environ ''DEFIB_POE_HOST'' of
        None \<Rightarrow> Inl PowerControllerError
      | Some host \<Rightarrow>
          if host = '''' then Inl PowerControllerError
          else sum_bind (case environ ''DEFIB_POE_API_PORT'' of None \<Rightarrow> Inr 8728 | Some p \<Rightarrow> read_int p) (\<lambda>api_port.
            Inr (RouterOSController_init host
              (lit (case environ ''DEFIB_POE_USER'' of None \<Rightarrow> ''admin'' | Some u \<Rightarrow> u))
              (lit (case environ ''DEFIB_POE_PASS'' of None \<Rightarrow> '''' | Some p \<Rightarrow> p)) api_port net)))"

definition on_net :: "('s, 'a) io \<Rightarrow> (('s, 'h) RouterOSController, 'a) io" where
  "on_net m = io_on ro_net (\<lambda>s C. C\<lparr>ro_net := s\<rparr>) m"

definition ro_connect ::
  "('s, 'h) tcp \<Rightarrow> (bytes \<Rightarrow> ustr) \<Rightarrow> nat \<Rightarrow> (('s, 'h) RouterOSController, 'h) io" where
  "ro_connect S md5_hex fuel =
     io_bind (io_get id) (\<lambda>C. case ro_conn C of
       Some h \<Rightarrow> io_return h
     | None \<Rightarrow>
         io_try (on_net (tcp_open S (ro_host C) (ro_api_port C) 10000000))
           (\<lambda>e. if is_os_error e then io_raise PowerControllerError else io_raise e)
           (\<lambda>h. io_then (on_net (login S md5_hex h fuel (ro_username C) (ro_password C)))
              (io_then (io_modify (\<lambda>C. C\<lparr>ro_conn := Some h\<rparr>)) (io_return h))))"

definition ro_call ::
  "('s, 'h) tcp \<Rightarrow> (bytes \<Rightarrow> ustr) \<Rightarrow> nat \<Rightarrow> ustr list \<Rightarrow> (('s, 'h) RouterOSController, ustr list list) io" where
  "ro_call S md5_hex fuel words =
     io_bind (ro_connect S md5_hex fuel) (\<lambda>conn. on_net (api_call S conn fuel words))"

fun find_comment :: "(ustr \<Rightarrow> ustr) \<Rightarrow> ustr \<Rightarrow> (ustr \<rightharpoonup> ustr) list \<Rightarrow> ustr option" where
  "find_comment to_lower search_lower [] = None"
| "find_comment to_lower search_lower (item # items) =
     (case item (lit ''comment'') of
        None \<Rightarrow> find_comment to_lower search_lower items
      | Some comment \<Rightarrow>
          if comment = [] then find_comment to_lower search_lower items
          else if contains_sub search_lower (to_lower comment) \<or> contains_sub (to_lower comment) search_lower
          then Some (case item (lit ''name'') of None \<Rightarrow> [] | Some name \<Rightarrow> name)
          else find_comment to_lower search_lower items)"

definition find_port_by_comment ::
  "('s, 'h) tcp \<Rightarrow> (bytes \<Rightarrow> ustr) \<Rightarrow> (ustr \<Rightarrow> ustr) \<Rightarrow> nat \<Rightarrow> ustr \<Rightarrow> (('s, 'h) RouterOSController, ustr) io" where
  "find_port_by_comment S md5_hex to_lower fuel search =
     io_bind (ro_call S md5_hex fuel [lit ''/interface/ethernet/print'']) (\<lambda>response.
       case find_comment to_lower (to_lower search) (parse_items response) of
         None \<Rightarrow> io_raise PowerControllerError
       | Some name \<Rightarrow> io_return name)"

definition print_query :: "ustr \<Rightarrow> ustr list" where
  "print_query interface_name = [lit ''/interface/ethernet/poe/print'', lit ''?name='' @ interface_name]"

definition set_command :: "ustr \<Rightarrow> ustr \<Rightarrow> ustr list" where
  "set_command item_id poe_out =
     [lit ''/interface/ethernet/poe/set'', lit ''=.id='' @ item_id, lit ''=poe-out='' @ poe_out]"

definition set_poe ::
  "('s, 'h) tcp \<Rightarrow> (bytes \<Rightarrow> ustr) \<Rightarrow> nat \<Rightarrow> ustr \<Rightarrow> ustr \<Rightarrow> (('s, 'h) RouterOSController, unit) io" where
  "set_poe S md5_hex fuel interface_name poe_out =
     io_bind (ro_connect S md5_hex fuel) (\<lambda>conn.
       io_bind (on_net (api_call S conn fuel (print_query interface_name))) (\<lambda>response.
         case parse_items response of
           [] \<Rightarrow> io_raise PowerControllerError
         | item # _ \<Rightarrow> (case item (lit ''.id'') of
             None \<Rightarrow> io_raise PowerControllerError
           | Some item_id \<Rightarrow>
               if item_id = [] then io_raise PowerControllerError
               else io_bind (on_net (api_call S conn fuel (set_command item_id poe_out))) check_trap)))"

definition get_poe_out ::
  "('s, 'h) tcp \<Rightarrow> (bytes \<Rightarrow> ustr) \<Rightarrow> nat \<Rightarrow> ustr \<Rightarrow> (('s, 'h) RouterOSController, ustr) io" where
  "get_poe_out S md5_hex fuel interface_name =
     io_bind (ro_call S md5_hex fuel (print_query interface_name)) (\<lambda>response.
       io_return (case parse_items response of
         [] \<Rightarrow> lit ''auto-on''
       | item # _ \<Rightarrow> (case item (lit ''poe-out'') of None \<Rightarrow> lit ''auto-on'' | Some m \<Rightarrow> m)))"

definition poe_power_cycle ::
  "('s, 'h) tcp \<Rightarrow> (bytes \<Rightarrow> ustr) \<Rightarrow> nat \<Rightarrow> ustr \<Rightarrow> ustr \<Rightarrow> (('s, 'h) RouterOSController, unit) io" where
  "poe_power_cycle S md5_hex fuel interface_name duration =
     io_bind (ro_call S md5_hex fuel
       [lit ''/interface/ethernet/poe/power-cycle'', lit ''=.id='' @ interface_name, lit ''=duration='' @ duration])
       check_trap"

definition ro_power_off ::
  "('s, 'h) tcp \<Rightarrow> (bytes \<Rightarrow> ustr) \<Rightarrow> nat \<Rightarrow> ustr \<Rightarrow> (('s, 'h) RouterOSController, unit) io" where
  "ro_power_off S md5_hex fuel port =
     io_bind (io_get (\<lambda>C. ro_saved_poe_out C port)) (\<lambda>saved.
       io_then
         (case saved of
            Some _ \<Rightarrow> io_return ()
          | None \<Rightarrow> io_bind (get_poe_out S md5_hex fuel port) (\<lambda>m.
              io_modify (\<lambda>C. C\<lparr>ro_saved_poe_out := (ro_saved_poe_out C)(port \<mapsto> m)\<rparr>)))
         (set_poe S md5_hex fuel port (lit ''off'')))"

definition restore_mode :: "ustr option \<Rightarrow> ustr" where
  "restore_mode saved =
     (let m = (case saved of None \<Rightarrow> lit ''forced-on'' | Some m \<Rightarrow> m)
      in if m = lit ''off'' then lit ''forced-on'' else m)"

definition ro_power_on ::
  "('s, 'h) tcp \<Rightarrow> (bytes \<Rightarrow> ustr) \<Rightarrow> nat \<Rightarrow> ustr \<Rightarrow> (('s, 'h) RouterOSController, unit) io" where
  "ro_power_on S md5_hex fuel port =
     io_bind (io_get (\<lambda>C. ro_saved_poe_out C port)) (\<lambda>saved.
       io_then (io_modify (\<lambda>C. C\<lparr>ro_saved_poe_out := (ro_saved_poe_out C)(port := None)\<rparr>))
         (set_poe S md5_hex fuel port (restore_mode saved)))"

definition ro_power_cycle ::
  "('s, 'h) tcp \<Rightarrow> (bytes \<Rightarrow> ustr) \<Rightarrow> nat \<Rightarrow> ustr \<Rightarrow> usec \<Rightarrow> (('s, 'h) RouterOSController, unit) io" where
  "ro_power_cycle S md5_hex fuel port off_duration =
     poe_power_cycle S md5_hex fuel port (lit (dec_digits (nat (max (off_duration div 1000000) 5)) @ ''s''))"

definition ro_close :: "('s, 'h) tcp \<Rightarrow> (('s, 'h) RouterOSController, unit) io" where
  "ro_close S =
     io_bind (io_get ro_conn) (\<lambda>conn. case conn of
       None \<Rightarrow> io_return ()
     | Some h \<Rightarrow> io_then (on_net (tcp_close S h)) (io_modify (\<lambda>C. C\<lparr>ro_conn := None\<rparr>)))"

section \<open>Lengths\<close>

lemma or_disjoint:
  fixes n :: int
  assumes "0 \<le> n" "n < 2 ^ k"
  shows "n OR push_bit k m = n + m * 2 ^ k"
proof -
  have "n AND push_bit k m = take_bit k n AND push_bit k m"
    using assms by (simp add: take_bit_int_eq_self)
  also have "\<dots> = 0"
    by (rule bit_eqI) (auto simp: bit_simps)
  finally show ?thesis
    by (simp add: disjunctive_add_eq_or [symmetric] push_bit_eq_mult)
qed

lemma be_bytes_digits:
  "be_bytes (Suc 0) v = [word_of_int v]"
  "be_bytes 2 v = [word_of_int (v div 256), word_of_int v]"
  "be_bytes 4 v = [word_of_int (v div 16777216), word_of_int (v div 65536), word_of_int (v div 256), word_of_int v]"
  by (simp_all add: be_bytes_def eval_nat_numeral zdiv_zmult2_eq [symmetric])

lemma and_masks:
  "(v::int) AND 0xFF = v mod 256" "v AND 0xFFFF = v mod 65536" "v AND 0x3F = v mod 64"
  "v AND 0x1F = v mod 32" "v AND 0x0F = v mod 16"
  using take_bit_eq_mask [of 8 v] take_bit_eq_mask [of 16 v] take_bit_eq_mask [of 6 v]
    take_bit_eq_mask [of 5 v] take_bit_eq_mask [of 4 v]
  by (simp_all add: take_bit_eq_mod mask_eq_exp_minus_1)

lemma shift_or:
  assumes "0 \<le> (v::int)" "v < 2 ^ k"
  shows "push_bit k m OR v = m * 2 ^ k + v"
  using or_disjoint [OF assms, of m] by (simp add: or.commute)

lemma uint_byte_bounds: "0 \<le> uint (b::byte)" "uint (b::byte) < 256"
  using uint_lt2p [of b] by simp_all

lemma shift_or_bytes:
  "push_bit 8 m OR uint (b::byte) = m * 256 + uint b"
  "push_bit 16 m OR (uint (a::byte) * 256 + uint b) = m * 65536 + uint a * 256 + uint b"
  "push_bit 24 m OR (uint (c::byte) * 65536 + uint a * 256 + uint b)
     = m * 16777216 + uint c * 65536 + uint a * 256 + uint b"
  using shift_or [of "uint b" 8 m] shift_or [of "uint a * 256 + uint b" 16 m]
    shift_or [of "uint c * 65536 + uint a * 256 + uint b" 24 m]
    uint_byte_bounds [of a] uint_byte_bounds [of b] uint_byte_bounds [of c] by simp_all

text \<open>The four encodings, written out byte by byte.\<close>

lemma encode_length_bytes:
  assumes "0 \<le> n"
  shows "encode_length n =
    (if n < 0x80 then Inr [word_of_int n]
     else if n < 0x4000 then Inr [word_of_int (0x80 + n div 256), word_of_int n]
     else if n < 0x200000 then Inr [word_of_int (0xC0 + n div 65536), word_of_int (n div 256), word_of_int n]
     else if n < 0x10000000 then
       Inr [word_of_int (0xE0 + n div 16777216), word_of_int (n div 65536), word_of_int (n div 256), word_of_int n]
     else Inl PowerControllerError)"
proof -
  have o2: "n OR 0x8000 = n + 0x8000" if "n < 0x4000"
    using or_disjoint [of n 15 1] that assms by (simp add: push_bit_eq_mult)
  have o3: "n OR 0xC00000 = n + 0xC00000" if "n < 0x200000"
    using or_disjoint [of n 22 3] that assms by (simp add: push_bit_eq_mult)
  have o4: "n OR 0xE0000000 = n + 0xE0000000" if "n < 0x10000000"
    using or_disjoint [of n 28 14] that assms by (simp add: push_bit_eq_mult)
  have dv: "(n + 32768) div 256 = n div 256 + 128" "(n + 12582912) div 65536 = n div 65536 + 192"
    "(n + 12582912) div 256 = n div 256 + 49152" "(n + 3758096384) div 16777216 = n div 16777216 + 224"
    "(n + 3758096384) div 65536 = n div 65536 + 57344" "(n + 3758096384) div 256 = n div 256 + 14680064"
    by (simp_all add: div_plus_div_distrib_dvd_right)
  have md: "v mod 65536 div 256 = v div 256 mod 256" for v :: int
    using zmod_zmult2_eq [of 256 v 256] by simp
  have wm: "(word_of_int (v mod 256) :: byte) = word_of_int v" "(word_of_int (v mod 65536) :: byte) = word_of_int v" for v
    by (simp_all add: word_of_int_eq_iff take_bit_eq_mod mod_mod_cancel)
  show ?thesis
    using assms
    by (auto simp: encode_length_def pack_be_def be_bytes_digits o2 o3 o4 Let_def sum_bind_def and_masks drop_bit_eq_div
        dv md wm)
qed

text \<open>The first byte tells how many follow.\<close>

lemma encode_length_cases:
  assumes "encode_length n = Inr bs" "0 \<le> n"
  obtains (1) b where "bs = [b]" "uint b = n" "n < 0x80"
    | (2) b c x where "bs = [b, c]" "uint b = 0x80 + x" "0 \<le> x" "x < 64" "n = x * 256 + uint c"
    | (3) b c d x where "bs = [b, c, d]" "uint b = 0xC0 + x" "0 \<le> x" "x < 32"
        "n = x * 65536 + uint c * 256 + uint d"
    | (4) b c d e x where "bs = [b, c, d, e]" "uint b = 0xE0 + x" "0 \<le> x" "x < 16"
        "n = x * 16777216 + uint c * 65536 + uint d * 256 + uint e"
proof -
  have dm: "n = n div 256 * 256 + n mod 256" "n div 256 = n div 65536 * 256 + n div 256 mod 256"
    "n div 65536 = n div 16777216 * 256 + n div 65536 mod 256"
    using div_mult_mod_eq [of "n div 256" 256] div_mult_mod_eq [of "n div 65536" 256]
    by (simp_all add: zdiv_zmult2_eq [symmetric])
  consider (a) "n < 0x80" | (b) "0x80 \<le> n" "n < 0x4000" | (c) "0x4000 \<le> n" "n < 0x200000"
    | (d) "0x200000 \<le> n" "n < 0x10000000"
    using assms by (force simp: encode_length_bytes)
  then show thesis
  proof cases
    case a
    show thesis by (rule 1 [of "word_of_int n"]) (use a assms in \<open>simp_all add: encode_length_bytes\<close>)
  next
    case b
    have "0 \<le> n div 256" "n div 256 < 64" using b by auto
    moreover have "bs = [word_of_int (0x80 + n div 256), word_of_int n]"
      using b assms by (simp add: encode_length_bytes)
    moreover have "n = n div 256 * 256 + uint (word_of_int n :: byte)" by (simp only: uint_word_of_int_8) (rule dm)
    ultimately show thesis by (intro 2) (assumption | simp only: uint_byte)+
  next
    case c
    have "0 \<le> n div 65536" "n div 65536 < 32" using c by auto
    moreover have "bs = [word_of_int (0xC0 + n div 65536), word_of_int (n div 256), word_of_int n]"
      using c assms by (simp add: encode_length_bytes)
    moreover have "n = n div 65536 * 65536 + uint (word_of_int (n div 256) :: byte) * 256 + uint (word_of_int n :: byte)"
      unfolding uint_word_of_int_8 using dm by linarith
    ultimately show thesis by (intro 3) (assumption | simp only: uint_byte)+
  next
    case d
    have "0 \<le> n div 16777216" "n div 16777216 < 16" using d by auto
    moreover have "bs = [word_of_int (0xE0 + n div 16777216), word_of_int (n div 65536), word_of_int (n div 256), word_of_int n]"
      using d assms by (simp add: encode_length_bytes)
    moreover have "n = n div 16777216 * 16777216 + uint (word_of_int (n div 65536) :: byte) * 65536
        + uint (word_of_int (n div 256) :: byte) * 256 + uint (word_of_int n :: byte)"
      unfolding uint_word_of_int_8 using dm by linarith
    ultimately show thesis by (intro 4) (assumption | simp only: uint_byte)+
  qed
qed

section \<open>Reading what was sent\<close>

text \<open>
  A stream whose peer has sent the bytes \<open>buf s\<close>: \<open>readexactly\<close> takes them off the front, as long as
  there are enough.
\<close>

definition buffered :: "('s, 'h) tcp \<Rightarrow> 'h \<Rightarrow> ('s \<Rightarrow> bytes) \<Rightarrow> bool" where
  "buffered S h buf \<longleftrightarrow> (\<forall>n s. n \<le> length (buf s) \<longrightarrow>
     (\<exists>s'. tcp_readexactly S h n s = Some (Inr (take n (buf s)), s') \<and> buf s' = drop n (buf s)))"

lemma twp_readexactly:
  assumes "buffered S h buf" "n \<le> length (buf s)"
    "\<And>s'. buf s' = drop n (buf s) \<Longrightarrow> Q (Inr (take n (buf s))) s'"
  shows "twp (tcp_readexactly S h n) s Q"
  using assms unfolding buffered_def twp_def by (metis (no_types, lifting) case_prod_conv option.simps(5))

lemma twp_read_length:
  assumes "buffered S h buf" "0 \<le> n" "encode_length n = Inr bs" "buf s = bs @ rest"
  shows "twp (read_length S h) s (\<lambda>r s'. r = Inr n \<and> buf s' = rest)"
  using assms(3,2)
proof (cases rule: encode_length_cases)
  case (1 b)
  with assms(4) show ?thesis
    unfolding read_length_def
    by (auto simp: wp index0_def intro!: twp_readexactly [OF assms(1)])
next
  case (2 b c x)
  then have "(128 + x) mod 64 = x" by (intro mod_drop) auto
  with 2 assms(4) show ?thesis
    unfolding read_length_def
    by (auto simp: wp index0_def shift_or_bytes and_masks intro!: twp_readexactly [OF assms(1)])
next
  case (3 b c d x)
  then have "(192 + x) mod 32 = x" by (intro mod_drop) auto
  with 3 assms(4) show ?thesis
    unfolding read_length_def
    by (auto simp: wp index0_def shift_or_bytes and_masks intro!: twp_readexactly [OF assms(1)])
next
  case (4 b c d e x)
  then have "(224 + x) mod 16 = x" by (intro mod_drop) auto
  with 4 assms(4) show ?thesis
    unfolding read_length_def
    by (auto simp: wp index0_def shift_or_bytes and_masks intro!: twp_readexactly [OF assms(1)])
qed

lemma encode_word_Inr:
  assumes "encode_word w = Inr bs"
  obtains payload n where "utf8_encode w = Inr payload" "encode_length (int (length payload)) = Inr n" "bs = n @ payload"
  using assms by (auto simp: encode_word_def sum_bind_def split: sum.splits)

lemma twp_read_word:
  assumes "buffered S h buf" "encode_word w = Inr bs" "buf s = bs @ rest"
  shows "twp (read_word S h) s (\<lambda>r s'. r = Inr w \<and> buf s' = rest)"
  using assms(2)
proof (cases rule: encode_word_Inr)
  case (1 payload n)
  have "payload = [] \<Longrightarrow> w = []" using utf8_decode_encode [OF 1(1)] by simp
  with 1 assms(3) utf8_decode_encode [OF 1(1)] show ?thesis
    unfolding read_word_def
    by (auto simp: wp intro!: twp_mono [OF twp_read_length [OF assms(1) _ 1(2), where rest = "payload @ rest"]]
        twp_readexactly [OF assms(1)])
qed

text \<open>What a sentence looks like on the wire.\<close>

fun sentence_bytes :: "ustr list \<Rightarrow> exn + bytes" where
  "sentence_bytes [] = Inr [0]"
| "sentence_bytes (w # ws) = sum_bind (encode_word w) (\<lambda>b. sum_bind (sentence_bytes ws) (\<lambda>bs. Inr (b @ bs)))"

lemma sentence_bytes_Cons:
  "sentence_bytes (w # ws) = Inr bs \<longleftrightarrow>
     (\<exists>b bs'. encode_word w = Inr b \<and> sentence_bytes ws = Inr bs' \<and> bs = b @ bs')"
  by (auto simp: sum_bind_def split: sum.splits)

lemma twp_read_sentence_loop:
  assumes "buffered S h buf"
  shows "sentence_bytes ws = Inr bs \<Longrightarrow> list_all (\<lambda>w. w \<noteq> []) ws \<Longrightarrow> length ws < fuel \<Longrightarrow> buf s = bs @ rest \<Longrightarrow>
    twp (read_sentence_loop S h fuel acc) s (\<lambda>r s'. r = Inr (acc @ ws) \<and> buf s' = rest)"
proof (induction ws arbitrary: fuel acc bs s)
  case Nil
  then obtain f where f: "fuel = Suc f" by (cases fuel) auto
  have "encode_word [] = Inr [0]" by (simp add: encode_word_def utf8_encode_def encode_length_bytes sum_bind_def)
  then have "twp (read_word S h) s (\<lambda>r s'. r = Inr [] \<and> buf s' = rest)"
    using Nil by (intro twp_read_word [OF assms]) auto
  then show ?case unfolding f by (auto simp: wp elim!: twp_mono)
next
  case (Cons w ws)
  then obtain f where f: "fuel = Suc f" by (cases fuel) auto
  obtain b bs' where b: "encode_word w = Inr b" "sentence_bytes ws = Inr bs'" "bs = b @ bs'"
    using Cons.prems(1) unfolding sentence_bytes_Cons by blast
  have "twp (read_word S h) s (\<lambda>r s'. r = Inr w \<and> buf s' = bs' @ rest)"
    using Cons.prems b by (intro twp_read_word [OF assms b(1)]) simp
  moreover have "twp (read_sentence_loop S h f (acc @ [w])) s' (\<lambda>r s'. r = Inr (acc @ w # ws) \<and> buf s' = rest)"
    if "buf s' = bs' @ rest" for s'
    using Cons.IH [OF b(2), of f s' "acc @ [w]"] Cons.prems that f by simp
  ultimately show ?case
    using Cons.prems(2) unfolding f by (auto simp: wp elim!: twp_mono)
qed

lemma twp_read_sentence:
  assumes "buffered S h buf" "sentence_bytes ws = Inr bs" "list_all (\<lambda>w. w \<noteq> []) ws" "length ws < fuel" "buf s = bs @ rest"
  shows "twp (read_sentence S h fuel) s (\<lambda>r s'. r = Inr ws \<and> buf s' = rest)"
  using twp_read_sentence_loop [OF assms, of "[]"] by (simp add: read_sentence_def)

section \<open>The mode a port is brought back to\<close>

text \<open>
  The mode a controller has to restore: the one an earlier \<open>power_off\<close> saved, otherwise the one the
  switch reports now.
\<close>

definition mode_before ::
  "('s, 'h) tcp \<Rightarrow> (bytes \<Rightarrow> ustr) \<Rightarrow> nat \<Rightarrow> ustr \<Rightarrow> ('s, 'h) RouterOSController \<Rightarrow> ustr option" where
  "mode_before S md5_hex fuel port C =
     (case ro_saved_poe_out C port of
        Some m \<Rightarrow> Some m
      | None \<Rightarrow> (case get_poe_out S md5_hex fuel port C of Some (Inr m, _) \<Rightarrow> Some m | _ \<Rightarrow> None))"

lemma restore_mode_not_off: "restore_mode saved \<noteq> lit ''off''"
  by (auto simp: restore_mode_def Let_def)

section \<open>Streams whose writes are recorded\<close>

locale observed_tcp =
  fixes S :: "('s, 'h) tcp" and sent :: "'s \<Rightarrow> bytes"
  assumes open_silent: "wlp (tcp_open S host port t) s (\<lambda>r s'. sent s' = sent s)"
    and read_silent: "wlp (tcp_readexactly S h n) s (\<lambda>r s'. sent s' = sent s)"
    and write_sends: "wlp (tcp_write S h d) s (\<lambda>r s'. sent s' = sent s @ d)"
    and drain_silent: "wlp (tcp_drain S h) s (\<lambda>r s'. sent s' = sent s)"
begin

lemma read_length_silent: "wlp (read_length S h) s (\<lambda>r s'. sent s' = sent s)"
  unfolding read_length_def index0_def
  by (auto simp: wp intro!: wlp_mono [OF read_silent] split: sum.split list.split)

lemma read_word_silent: "wlp (read_word S h) s (\<lambda>r s'. sent s' = sent s)"
  unfolding read_word_def
  by (auto simp: wp intro!: wlp_mono [OF read_length_silent] wlp_mono [OF read_silent] split: sum.split)

lemma read_sentence_silent: "wlp (read_sentence S h fuel) s (\<lambda>r s'. sent s' = sent s)"
proof -
  have "wlp (read_sentence_loop S h fuel acc) s (\<lambda>r s'. sent s' = sent s)" for acc
  proof (induction fuel arbitrary: acc s)
    case (Suc fuel)
    show ?case
      by (auto simp: wp intro!: wlp_mono [OF read_word_silent] wlp_mono [OF Suc.IH] split: sum.split)
  qed (simp add: wp)
  then show ?thesis by (simp add: read_sentence_def)
qed

lemma read_response_silent: "wlp (read_response S h fuel) s (\<lambda>r s'. sent s' = sent s)"
proof -
  have "wlp (read_response_loop S h fuel n acc) s (\<lambda>r s'. sent s' = sent s)" for n acc
  proof (induction n arbitrary: acc s)
    case (Suc n)
    show ?case
      by (auto simp: wp intro!: wlp_mono [OF read_sentence_silent] wlp_mono [OF Suc.IH] split: sum.split)
  qed (simp add: wp)
  then show ?thesis by (simp add: read_response_def)
qed

lemma send_sentence_sends:
  "wlp (send_sentence S h ws) s (\<lambda>r s'. case r of Inl _ \<Rightarrow> True
     | Inr _ \<Rightarrow> \<exists>bs. sentence_bytes ws = Inr bs \<and> sent s' = sent s @ bs)"
proof -
  have "wlp (send_words S h ws) s (\<lambda>r s'. case r of Inl _ \<Rightarrow> True
     | Inr _ \<Rightarrow> \<exists>bs. sentence_bytes ws = Inr (bs @ [0]) \<and> sent s' = sent s @ bs)"
  proof (induction ws arbitrary: s)
    case (Cons w ws)
    show ?case
      unfolding sentence_bytes_Cons
      by (auto simp: wp intro!: wlp_mono [OF write_sends] wlp_mono [OF Cons.IH] split: sum.splits)
  qed (simp add: wp)
  then show ?thesis
    unfolding send_sentence_def
    by (auto simp: wp intro!: wlp_mono [OF write_sends] wlp_mono [OF drain_silent] elim!: wlp_mono split: sum.splits)
qed

lemma api_call_sends:
  "wlp (api_call S h fuel ws) s (\<lambda>r s'. case r of Inl _ \<Rightarrow> True
     | Inr _ \<Rightarrow> \<exists>bs. sentence_bytes ws = Inr bs \<and> sent s' = sent s @ bs)"
  unfolding api_call_def
  by (auto simp: wp intro!: wlp_mono [OF send_sentence_sends] wlp_mono [OF read_response_silent] split: sum.splits)

lemma login_sends:
  "wlp (login S md5_hex h fuel u p) s (\<lambda>r s'. case r of Inl _ \<Rightarrow> True | Inr _ \<Rightarrow> \<exists>pre. sent s' = sent s @ pre)"
  unfolding login_def login_legacy_def check_trap_def
  by (auto simp: wp Let_def intro!: wlp_mono [OF api_call_sends] split: sum.splits option.splits)

lemma connect_sends:
  "wlp (ro_connect S md5_hex fuel) C (\<lambda>r C'. ro_saved_poe_out C' = ro_saved_poe_out C \<and> (case r of Inl _ \<Rightarrow> True
     | Inr _ \<Rightarrow> \<exists>pre. sent (ro_net C') = sent (ro_net C) @ pre \<and> (pre = [] \<or> ro_conn C = None)))"
  unfolding ro_connect_def on_net_def
  by (auto simp: wp intro!: wlp_mono [OF open_silent] wlp_mono [OF login_sends] split: sum.splits option.splits)

lemma set_poe_sends:
  "wlp (set_poe S md5_hex fuel port mode) C (\<lambda>r C'. ro_saved_poe_out C' = ro_saved_poe_out C \<and> (case r of Inl _ \<Rightarrow> True
     | Inr _ \<Rightarrow> \<exists>pre q item_id c. sent (ro_net C') = sent (ro_net C) @ pre @ q @ c \<and> (pre = [] \<or> ro_conn C = None)
         \<and> sentence_bytes (print_query port) = Inr q \<and> item_id \<noteq> []
         \<and> sentence_bytes (set_command item_id mode) = Inr c))"
  unfolding set_poe_def check_trap_def on_net_def
  by (fastforce simp: wp intro!: wlp_mono [OF connect_sends] wlp_mono [OF api_call_sends]
      split: sum.splits option.splits list.splits)

lemma set_poe_last:
  "wlp (set_poe S md5_hex fuel port mode) C (\<lambda>r C'. ro_saved_poe_out C' = ro_saved_poe_out C \<and> (case r of Inl _ \<Rightarrow> True
     | Inr _ \<Rightarrow> \<exists>pre item_id c. sent (ro_net C') = sent (ro_net C) @ pre @ c \<and> item_id \<noteq> []
         \<and> sentence_bytes (set_command item_id mode) = Inr c))"
proof (rule wlp_mono [OF set_poe_sends], goal_cases)
  case (1 r C')
  show ?case
  proof (cases r)
    case (Inr u)
    with 1 obtain pre q item_id c where "sent (ro_net C') = sent (ro_net C) @ (pre @ q) @ c" "item_id \<noteq> []"
      "sentence_bytes (set_command item_id mode) = Inr c" by auto
    with 1 Inr show ?thesis by (simp only: sum.simps) blast
  qed (use 1 in simp)
qed

lemma get_poe_out_sends:
  "wlp (get_poe_out S md5_hex fuel port) C (\<lambda>r C'. ro_saved_poe_out C' = ro_saved_poe_out C \<and> (case r of Inl _ \<Rightarrow> True
     | Inr _ \<Rightarrow> \<exists>pre. sent (ro_net C') = sent (ro_net C) @ pre))"
  unfolding get_poe_out_def ro_call_def on_net_def
  by (auto simp: wp intro!: wlp_mono [OF connect_sends] wlp_mono [OF api_call_sends] split: sum.splits)

lemma power_off_sends:
  "wlp (ro_power_off S md5_hex fuel port) C (\<lambda>r C'. case r of Inl _ \<Rightarrow> True
     | Inr _ \<Rightarrow> ro_saved_poe_out C' = (ro_saved_poe_out C)(port := mode_before S md5_hex fuel port C)
         \<and> (\<exists>pre item_id c. sent (ro_net C') = sent (ro_net C) @ pre @ c
            \<and> item_id \<noteq> [] \<and> sentence_bytes (set_command item_id (lit ''off'')) = Inr c))"
proof (cases "ro_saved_poe_out C port")
  case None
  have "wlp (get_poe_out S md5_hex fuel port) C (\<lambda>r C'. (case r of Inl _ \<Rightarrow> True
      | Inr m \<Rightarrow> ro_saved_poe_out C' = ro_saved_poe_out C \<and> mode_before S md5_hex fuel port C = Some m
          \<and> (\<exists>pre. sent (ro_net C') = sent (ro_net C) @ pre)))"
    using get_poe_out_sends [of md5_hex fuel port C] None
    by (auto simp: wlp_def mode_before_def split: option.splits sum.splits)
  moreover have "wlp (set_poe S md5_hex fuel port (lit ''off'')) C1 (\<lambda>r C'. r = Inr () \<longrightarrow>
         ro_saved_poe_out C' = (ro_saved_poe_out C)(port \<mapsto> m)
         \<and> (\<exists>pre item_id c. sent (ro_net C') = sent (ro_net C) @ pre @ c
            \<and> item_id \<noteq> [] \<and> sentence_bytes (set_command item_id (lit ''off'')) = Inr c))"
    if "ro_saved_poe_out C1 = (ro_saved_poe_out C)(port \<mapsto> m)" "sent (ro_net C1) = sent (ro_net C) @ pre" for C1 m pre
  proof (rule wlp_mono [OF set_poe_last], goal_cases)
    case (1 r C')
    show ?case
    proof (cases r)
      case (Inr u)
      with 1 that obtain pre' item_id c where "sent (ro_net C') = sent (ro_net C) @ (pre @ pre') @ c" "item_id \<noteq> []"
        "sentence_bytes (set_command item_id (lit ''off'')) = Inr c" by (auto simp del: lit_Cons)
      with 1 that Inr show ?thesis by (simp only: sum.simps) blast
    qed simp
  qed
  ultimately show ?thesis
    using None unfolding ro_power_off_def
    by (auto simp: wp simp del: lit_Cons elim!: wlp_mono split: sum.splits)
next
  case (Some m)
  then show ?thesis
    unfolding ro_power_off_def mode_before_def
    by (auto simp: wp fun_upd_idem simp del: lit_Cons intro!: wlp_mono [OF set_poe_last] split: sum.splits)
qed

lemma power_on_sends:
  "wlp (ro_power_on S md5_hex fuel port) C (\<lambda>r C'.
     ro_saved_poe_out C' = (ro_saved_poe_out C)(port := None) \<and> (case r of Inl _ \<Rightarrow> True
     | Inr _ \<Rightarrow> \<exists>pre item_id c. sent (ro_net C') = sent (ro_net C) @ pre @ c \<and> item_id \<noteq> []
         \<and> sentence_bytes (set_command item_id (restore_mode (ro_saved_poe_out C port))) = Inr c))"
  unfolding ro_power_on_def
  by (auto simp: wp intro!: wlp_mono [OF set_poe_last] split: sum.splits)

end

definition log_io :: "bytes \<Rightarrow> ('s, 'a) io \<Rightarrow> ('s \<times> bytes, 'a) io" where
  "log_io d m = (\<lambda>(s, l). case m s of None \<Rightarrow> None | Some (r, s') \<Rightarrow> Some (r, (s', l @ d)))"

definition wire :: "('s, 'h) tcp \<Rightarrow> ('s \<times> bytes, 'h) tcp" where
  "wire S =
     \<lparr>tcp_open = (\<lambda>host port t. log_io [] (tcp_open S host port t)),
      tcp_readexactly = (\<lambda>h n. log_io [] (tcp_readexactly S h n)),
      tcp_write = (\<lambda>h d. log_io d (tcp_write S h d)),
      tcp_drain = (\<lambda>h. log_io [] (tcp_drain S h)),
      tcp_close = (\<lambda>h. log_io [] (tcp_close S h))\<rparr>"

lemma wlp_log_io: "wlp (log_io d m) w (\<lambda>r w'. snd w' = snd w @ d)"
  by (auto simp: wlp_def log_io_def split: option.split prod.split)

interpretation wired: observed_tcp "wire S" snd for S :: "('s, 'h) tcp"
  by unfold_locales
    (use wlp_log_io [where d = "[]"] in \<open>auto simp: wire_def intro: wlp_log_io\<close>)

section \<open>Properties\<close>

text \<open>C35: API sentences round-trip. When a sentence of non-empty words has been sent, a peer whose stream
  holds the bytes that were written reads exactly the words back, consumes exactly these bytes,
  and needs fuel for one round more than there are words.\<close>

theorem sentence_roundtrip:
  assumes "send_sentence (wire S) h words (s, []) = Some (Inr (), (s', bs))"
    and "list_all (\<lambda>w. w \<noteq> []) words"
    and "buffered R k buf" "buf t = bs @ rest" "length words < fuel"
  shows "\<exists>t'. read_sentence R k fuel t = Some (Inr words, t') \<and> buf t' = rest"
proof -
  have "sentence_bytes words = Inr bs"
    using wlp_Some [OF wired.send_sentence_sends assms(1)] by auto
  from twp_Some [OF twp_read_sentence [OF assms(3) this assms(2,5,4)]] show ?thesis by blast
qed

theorem sentence_roundtrip_witness:
  "\<exists>t'. read_sentence \<lparr>tcp_open = (\<lambda>_ _ _. io_return ()),
      tcp_readexactly = (\<lambda>_ n. \<lambda>b. if n \<le> length b then Some (Inr (take n b), drop n b) else Some (Inl IncompleteReadError, [])),
      tcp_write = (\<lambda>_ _. io_return ()), tcp_drain = (\<lambda>_. io_return ()), tcp_close = (\<lambda>_. io_return ())\<rparr> () 3
      [2, 104, 105, 3, 226, 130, 172, 0, 7] = Some (Inr [lit ''hi'', [0x20AC]], t') \<and> t' = [7]"
  by (rule sentence_roundtrip [where buf = "\<lambda>b. b" and S = "\<lparr>tcp_open = (\<lambda>_ _ _. io_return ()),
      tcp_readexactly = (\<lambda>_ n. io_return []), tcp_write = (\<lambda>_ _. io_return ()), tcp_drain = (\<lambda>_. io_return ()),
      tcp_close = (\<lambda>_. io_return ())\<rparr>" and s = "()" and h = "()" and s' = "()" and bs = "[2, 104, 105, 3, 226, 130, 172, 0]"])
    (code_simp, simp, simp add: buffered_def, simp, simp)


end
