(* ===== verification/RackPod.thy ===== *)
theory RackPod
  imports HisiStandard RouterOs
begin

text \<open>
  \<open>src/defib/power/rack.py\<close>, \<open>recovery/rack_fastboot.py\<close>, \<open>power/vectis.py\<close> and \<open>power/factory.py\<close>: the
  power controllers of the rack pods and of the Vectis bridge, the boot upload that a pod runs on behalf
  of the host, and the choice of a controller from the environment. The HTTP client and the JSON reader are
  parameters; log output is left out.
\<close>

section \<open>HTTP and JSON\<close>

text \<open>
  A request answers with a body, or with an HTTP error status and its body; connection failures
  raise \<open>OSError\<close> or one of its subclasses. A JSON float is held as its truth value and what
  \<open>int()\<close> makes of it.
\<close>

datatype http_reply = Http_ok bytes | Http_error int bytes

datatype json =
    JNull | JBool bool | JInt int | JFloat bool "exn + int" | JStr string
  | JList "json list" | JDict "(string \<times> json) list"

type_synonym 's http = "string \<Rightarrow> string \<Rightarrow> bytes option \<Rightarrow> usec \<Rightarrow> ('s, http_reply) io"
type_synonym json_loads = "bytes \<Rightarrow> exn + json"
type_synonym json_dict = "(string \<times> json) list"

definition truthy :: "json option \<Rightarrow> bool" where
  "truthy v = (case v of
     None \<Rightarrow> False | Some JNull \<Rightarrow> False | Some (JBool b) \<Rightarrow> b | Some (JInt i) \<Rightarrow> i \<noteq> 0 | Some (JFloat b _) \<Rightarrow> b
   | Some (JStr s) \<Rightarrow> s \<noteq> [] | Some (JList xs) \<Rightarrow> xs \<noteq> [] | Some (JDict d) \<Rightarrow> d \<noteq> [])"

definition dict_or_empty :: "json \<Rightarrow> json_dict" where
  "dict_or_empty j = (case j of JDict d \<Rightarrow> d | _ \<Rightarrow> [])"

text \<open>\<open>json.loads\<close> with an undecodable reply read as an empty object.\<close>

definition loads_or_empty :: "json_loads \<Rightarrow> bytes \<Rightarrow> ('s, json_dict) io" where
  "loads_or_empty loads payload =
     (case loads payload of
        Inr j \<Rightarrow> io_return (dict_or_empty j)
      | Inl e \<Rightarrow> if e = JSONDecodeError then io_return [] else io_raise e)"

section \<open>The rack controller\<close>

record RackController =
  ra_host :: string
  ra_port :: int
  ra_timeout :: usec

definition ra_from_env :: "(string \<Rightarrow> string option) \<Rightarrow> (string \<Rightarrow> exn + int) \<Rightarrow> exn + RackController" where
  "ra_from_env environ read_int =
     (case environ ''DEFIB_RACK_HOST'' of
        None \<Rightarrow> Inl PowerControllerError
      | Some host \<Rightarrow>
          if host = '''' then Inl PowerControllerError
          else sum_bind (case environ ''DEFIB_RACK_PORT'' of None \<Rightarrow> Inr 8080 | Some p \<Rightarrow> read_int p) (\<lambda>port.
            Inr \<lparr>ra_host = host, ra_port = port, ra_timeout = 10000000\<rparr>))"

definition rack_url :: "RackController \<Rightarrow> string \<Rightarrow> string" where
  "rack_url R path =
     ''http://'' @ ra_host R @ '':'' @ (if ra_port R < 0 then ''-'' else []) @ dec_digits (nat \<bar>ra_port R\<bar>) @ path"

definition http_send_sync ::
  "'s http \<Rightarrow> json_loads \<Rightarrow> string \<Rightarrow> string \<Rightarrow> bytes option \<Rightarrow> usec \<Rightarrow> ('s, json_dict) io" where
  "http_send_sync http loads meth url body timeout =
     io_try (http meth url body timeout)
       (\<lambda>e. if is_os_error e then io_raise PowerControllerError else io_raise e)
       (\<lambda>reply. case reply of
          Http_error code detail \<Rightarrow> io_raise PowerControllerError
        | Http_ok payload \<Rightarrow> loads_or_empty loads payload)"

definition post_sync :: "'s http \<Rightarrow> json_loads \<Rightarrow> RackController \<Rightarrow> string \<Rightarrow> ('s, json_dict) io" where
  "post_sync http loads R url =
     io_try (http ''POST'' url (Some []) (ra_timeout R))
       (\<lambda>e. if is_os_error e then io_raise PowerControllerError else io_raise e)
       (\<lambda>reply. case reply of
          Http_error code detail \<Rightarrow> io_raise PowerControllerError
        | Http_ok body \<Rightarrow> loads_or_empty loads body)"

definition rack_post :: "'s http \<Rightarrow> json_loads \<Rightarrow> RackController \<Rightarrow> string \<Rightarrow> ('s, json_dict) io" where
  "rack_post http loads R path = post_sync http loads R (rack_url R path)"

definition rack_power_off :: "'s http \<Rightarrow> json_loads \<Rightarrow> RackController \<Rightarrow> string \<Rightarrow> ('s, unit) io" where
  "rack_power_off http loads R port = io_then (rack_post http loads R ''/power/off'') (io_return ())"

definition rack_power_on :: "'s http \<Rightarrow> json_loads \<Rightarrow> RackController \<Rightarrow> string \<Rightarrow> ('s, unit) io" where
  "rack_power_on http loads R port = io_then (rack_post http loads R ''/power/on'') (io_return ())"

definition rack_power_cycle ::
  "'s http \<Rightarrow> json_loads \<Rightarrow> (usec \<Rightarrow> ('s, unit) io) \<Rightarrow> RackController \<Rightarrow> string \<Rightarrow> usec \<Rightarrow> ('s, unit) io" where
  "rack_power_cycle http loads sleep R port off_duration =
     (if off_duration \<le> 2500000 then io_then (rack_post http loads R ''/power/cycle'') (io_return ())
      else io_then (rack_post http loads R ''/power/off'') (io_then (sleep off_duration)
        (io_then (rack_post http loads R ''/power/on'') (io_return ()))))"

definition tftp_put ::
  "'s http \<Rightarrow> json_loads \<Rightarrow> RackController \<Rightarrow> string \<Rightarrow> bytes \<Rightarrow> usec \<Rightarrow> ('s, json_dict) io" where
  "tftp_put http loads R name data timeout =
     (if CHR ''/'' \<in> set name \<or> name = [] then io_raise PowerControllerError
      else http_send_sync http loads ''POST'' (rack_url R (''/tftp/'' @ name)) (Some data) timeout)"

definition tftp_delete :: "'s http \<Rightarrow> json_loads \<Rightarrow> RackController \<Rightarrow> string \<Rightarrow> usec \<Rightarrow> ('s, json_dict) io" where
  "tftp_delete http loads R name timeout =
     (if CHR ''/'' \<in> set name then io_raise PowerControllerError
      else http_send_sync http loads ''DELETE''
        (rack_url R (if name \<noteq> [] then ''/tftp/'' @ name else ''/tftp'')) (Some []) timeout)"

definition tftp_clear :: "'s http \<Rightarrow> json_loads \<Rightarrow> RackController \<Rightarrow> usec \<Rightarrow> ('s, json_dict) io" where
  "tftp_clear http loads R timeout = http_send_sync http loads ''DELETE'' (rack_url R ''/tftp'') (Some []) timeout"

definition tftp_list :: "'s http \<Rightarrow> json_loads \<Rightarrow> RackController \<Rightarrow> usec \<Rightarrow> ('s, json_dict) io" where
  "tftp_list http loads R timeout = http_send_sync http loads ''GET'' (rack_url R ''/tftp'') None timeout"

text \<open>A listing that fails counts as a pod without room; booleans are integers in Python.\<close>

definition largest_block :: "json_dict \<Rightarrow> exn + int" where
  "largest_block stats = (case map_of stats ''psram_largest_free_block'' of
     Some (JInt i) \<Rightarrow> Inr i | Some (JFloat _ r) \<Rightarrow> r | Some (JBool b) \<Rightarrow> Inr (if b then 1 else 0) | _ \<Rightarrow> Inr 0)"

definition psram_can_fit ::
  "'s http \<Rightarrow> json_loads \<Rightarrow> RackController \<Rightarrow> int \<Rightarrow> int \<Rightarrow> ('s, bool \<times> json_dict) io" where
  "psram_can_fit http loads R total_bytes headroom_bytes =
     io_try (tftp_list http loads R 10000000) (\<lambda>_. io_return (False, []))
       (\<lambda>stats. io_bind (io_lift (largest_block stats)) (\<lambda>largest.
          io_return (largest \<ge> total_bytes + headroom_bytes, stats)))"

section \<open>The boot upload of a pod\<close>

definition to_bytes_big :: "nat \<Rightarrow> int \<Rightarrow> exn + bytes" where
  "to_bytes_big n v = (if 0 \<le> v \<and> v < 256 ^ n then Inr (be_bytes n v) else Inl OverflowError)"

definition sized :: "nat \<Rightarrow> bytes \<Rightarrow> exn + bytes" where
  "sized n d = sum_bind (to_bytes_big n (int (length d))) (\<lambda>l. Inr (l @ d))"

fun joined :: "(exn + bytes) list \<Rightarrow> exn + bytes" where
  "joined [] = Inr []"
| "joined (p # ps) = sum_bind p (\<lambda>b. sum_bind (joined ps) (\<lambda>bs. Inr (b @ bs)))"

definition fastboot_blob ::
  "int \<Rightarrow> int \<Rightarrow> int \<Rightarrow> bytes \<Rightarrow> bytes \<Rightarrow> bytes option \<Rightarrow> bytes \<Rightarrow> bytes \<Rightarrow> exn + bytes" where
  "fastboot_blob spl_addr ddr_addr uboot_addr pre0 ddr0 pre1 spl agent =
     joined [to_bytes_big 4 spl_addr, to_bytes_big 4 ddr_addr, to_bytes_big 4 uboot_addr,
       sized 2 pre0, sized 2 ddr0, sized 2 (case pre1 of None \<Rightarrow> [] | Some d \<Rightarrow> d), sized 4 spl, sized 4 agent]"

text \<open>The pod answers a failed upload with an error status and a JSON body, which is passed on.\<close>

definition post_blob_sync :: "'s http \<Rightarrow> json_loads \<Rightarrow> string \<Rightarrow> bytes \<Rightarrow> usec \<Rightarrow> ('s, json_dict) io" where
  "post_blob_sync http loads url body timeout =
     io_try (http ''POST'' url (Some body) timeout)
       (\<lambda>e. if is_os_error e then io_raise PowerControllerError else io_raise e)
       (\<lambda>reply. case reply of
          Http_error code payload \<Rightarrow> (case loads payload of
            Inr j \<Rightarrow> io_return (dict_or_empty j)
          | Inl e \<Rightarrow> if e = JSONDecodeError then io_raise PowerControllerError else io_raise e)
        | Http_ok payload \<Rightarrow> loads_or_empty loads payload)"

definition fastboot ::
  "'s http \<Rightarrow> json_loads \<Rightarrow> RackController \<Rightarrow> int \<Rightarrow> int \<Rightarrow> int \<Rightarrow> bytes \<Rightarrow> bytes \<Rightarrow> bytes option \<Rightarrow> bytes \<Rightarrow> bytes
    \<Rightarrow> usec \<Rightarrow> ('s, json_dict) io" where
  "fastboot http loads R spl_addr ddr_addr uboot_addr pre0 ddr0 pre1 spl agent timeout =
     io_bind (io_lift (fastboot_blob spl_addr ddr_addr uboot_addr pre0 ddr0 pre1 spl agent)) (\<lambda>blob.
       post_blob_sync http loads (rack_url R ''/fastboot'') blob timeout)"

text \<open>\<open>str(response.get("last_phase", ""))\<close>: of the printed forms only those of strings name a phase.\<close>

definition last_phase :: "json_dict \<Rightarrow> string" where
  "last_phase response = (case map_of response ''last_phase'' of Some (JStr s) \<Rightarrow> s | _ \<Rightarrow> [])"

definition fastboot_stages :: "string \<Rightarrow> Stage list" where
  "fastboot_stages phase =
     (if phase \<in> {''frame_for_start'', ''prestep0'', ''ddrstep0'', ''prestep1'', ''spl'', ''agent'', ''done''} then [HANDSHAKE] else [])
     @ (if phase \<in> {''prestep0'', ''ddrstep0'', ''prestep1'', ''spl'', ''agent'', ''done''} then [DDR_INIT] else [])
     @ (if phase \<in> {''spl'', ''agent'', ''done''} then [SPL] else [])
     @ (if phase \<in> {''agent'', ''done''} then [UBOOT] else [])
     @ (if phase = ''done'' then [COMPLETE] else [])"

definition rack_spl :: "bytes \<Rightarrow> int \<Rightarrow> bytes" where
  "rack_spl firmware spl_size = zero_long_ff_runs (py_ljust spl_size (py_prefix spl_size firmware))"

definition run_rack_fastboot ::
  "'s http \<Rightarrow> json_loads \<Rightarrow> ('s \<Rightarrow> usec) \<Rightarrow> 'j json_reader \<Rightarrow> profile_dir \<Rightarrow> RackController \<Rightarrow> string
    \<Rightarrow> exn + bytes \<Rightarrow> bytes option \<Rightarrow> usec \<Rightarrow> ('s, RecoveryResult) io" where
  "run_rack_fastboot http loads now J dir R chip firmware agent_payload timeout =
     io_bind (io_lift firmware) (\<lambda>firmware_bytes.
     io_bind (io_lift (load_profile J dir chip)) (\<lambda>profile.
     let scan_buf = (case agent_payload of Some d \<Rightarrow> d | None \<Rightarrow> firmware_bytes) in
     io_bind (io_lift (spl_max_size profile)) (\<lambda>profile_max.
     io_bind (io_lift (spl_sram_limit profile)) (\<lambda>sram.
     io_bind (io_lift (detect_spl_size scan_buf profile_max sram)) (\<lambda>spl_size.
     let spl_bytes = rack_spl firmware_bytes spl_size;
         uboot_bytes = (case agent_payload of Some d \<Rightarrow> d | None \<Rightarrow> firmware_bytes) in
     io_bind (io_lift (spl_address profile)) (\<lambda>spl_addr.
     io_bind (io_lift (ddr_step_address profile)) (\<lambda>ddr_addr.
     io_bind (io_lift (uboot_address profile)) (\<lambda>uboot_addr.
     io_bind (io_get now) (\<lambda>t0.
     io_bind (io_lift (prestep_data profile)) (\<lambda>pre0.
     io_bind (io_lift (ddr_step_data profile)) (\<lambda>ddr0.
     io_bind (io_lift (prestep1_data profile)) (\<lambda>pre1.
     io_bind (fastboot http loads R spl_addr ddr_addr uboot_addr
       (case pre0 of None \<Rightarrow> [] | Some d \<Rightarrow> d) ddr0 pre1 spl_bytes uboot_bytes timeout) (\<lambda>response.
     io_bind (io_get now) (\<lambda>t1.
     let stages = fastboot_stages (last_phase response) in
     io_return (if truthy (map_of response ''success'')
       then (RecoveryResult_ok stages)\<lparr>rr_elapsed := t1 - t0\<rparr>
       else (RecoveryResult_fail stages ''rack fastboot failed'')\<lparr>rr_elapsed := t1 - t0\<rparr>)))))))))))))))"

section \<open>The Vectis bridge\<close>

text \<open>
  What the controller needs of a transport: writing, closing, and the two modem lines where the
  transport has them.
\<close>

record 's modem =
  mo_write :: "bytes \<Rightarrow> ('s, unit) io"
  mo_close :: "('s, unit) io"
  mo_set_dtr :: "(bool \<Rightarrow> ('s, unit) io) option"
  mo_set_rts :: "(bool \<Rightarrow> ('s, unit) io) option"

record 's VectisController =
  ve_host :: string
  ve_port :: int
  ve_transport :: "'s modem option"
  ve_owns_transport :: bool
  ve_pulse :: usec
  ve_world :: 's

definition on_bridge :: "('s, 'a) io \<Rightarrow> ('s VectisController, 'a) io" where
  "on_bridge m = io_on ve_world (\<lambda>s V. V\<lparr>ve_world := s\<rparr>) m"

definition VectisController_init :: "string \<Rightarrow> int \<Rightarrow> 's modem option \<Rightarrow> 's \<Rightarrow> 's VectisController" where
  "VectisController_init host port tr s =
     \<lparr>ve_host = host, ve_port = port, ve_transport = tr, ve_owns_transport = False, ve_pulse = 250000, ve_world = s\<rparr>"

definition ve_from_env ::
  "(string \<Rightarrow> string option) \<Rightarrow> (string \<Rightarrow> exn + int) \<Rightarrow> 's \<Rightarrow> exn + 's VectisController" where
  "ve_from_env environ read_int s =
     (case environ ''DEFIB_VECTIS_HOST'' of
        None \<Rightarrow> Inl PowerControllerError
      | Some host \<Rightarrow>
          if host = '''' then Inl PowerControllerError
          else sum_bind (case environ ''DEFIB_VECTIS_PORT'' of None \<Rightarrow> Inr 35240 | Some p \<Rightarrow> read_int p) (\<lambda>port.
            Inr (VectisController_init host port None s)))"

definition attach_transport :: "'s modem \<Rightarrow> ('s VectisController, unit) io" where
  "attach_transport tr = io_modify (\<lambda>V. V\<lparr>ve_transport := Some tr, ve_owns_transport := False\<rparr>)"

definition vectis_power_off :: "string \<Rightarrow> ('s VectisController, unit) io" where
  "vectis_power_off port = io_raise PowerControllerError"

definition vectis_power_on :: "string \<Rightarrow> ('s VectisController, unit) io" where
  "vectis_power_on port = io_raise PowerControllerError"

definition do_pulse :: "(usec \<Rightarrow> ('s, unit) io) \<Rightarrow> ('s VectisController, unit) io" where
  "do_pulse sleep =
     io_bind (io_get id) (\<lambda>V. case ve_transport V of
       None \<Rightarrow> io_raise AssertionError
     | Some tr \<Rightarrow> (case (mo_set_dtr tr, mo_set_rts tr) of
         (Some set_dtr, Some set_rts) \<Rightarrow>
           io_then (on_bridge (set_dtr False)) (io_then (on_bridge (set_rts False))
             (io_then (on_bridge (sleep (ve_pulse V)))
               (io_then (on_bridge (set_rts True)) (on_bridge (set_dtr True)))))
       | _ \<Rightarrow> io_then (on_bridge (mo_write tr [0x10])) (on_bridge (sleep (ve_pulse V)))))"

definition open_standalone :: "(string \<Rightarrow> ('s, 's modem) io) \<Rightarrow> ('s VectisController, unit) io" where
  "open_standalone create =
     io_bind (io_get id) (\<lambda>V.
       io_bind (on_bridge (create (''rfc2217://'' @ ve_host V @ '':''
           @ (if ve_port V < 0 then ''-'' else []) @ dec_digits (nat \<bar>ve_port V\<bar>)))) (\<lambda>tr.
         io_modify (\<lambda>V. V\<lparr>ve_transport := Some tr, ve_owns_transport := True\<rparr>)))"

definition close_standalone :: "('s VectisController, unit) io" where
  "close_standalone =
     io_bind (io_get id) (\<lambda>V. case ve_transport V of
       Some tr \<Rightarrow>
         if ve_owns_transport V then
           io_then (on_bridge (mo_close tr))
             (io_modify (\<lambda>V. V\<lparr>ve_transport := None, ve_owns_transport := False\<rparr>))
         else io_return ()
     | None \<Rightarrow> io_return ())"

definition vectis_power_cycle ::
  "(string \<Rightarrow> ('s, 's modem) io) \<Rightarrow> (usec \<Rightarrow> ('s, unit) io) \<Rightarrow> string \<Rightarrow> usec \<Rightarrow> ('s VectisController, unit) io" where
  "vectis_power_cycle create sleep port off_duration =
     io_bind (io_get ve_transport) (\<lambda>tr. case tr of
       None \<Rightarrow> io_then (open_standalone create) (io_finally (do_pulse sleep) close_standalone)
     | Some _ \<Rightarrow> do_pulse sleep)"

definition vectis_close :: "('s VectisController, unit) io" where
  "vectis_close = close_standalone"

section \<open>The choice of a controller\<close>

datatype 's power_controller =
    RouterOS_power "('s, nat) RouterOSController" | Vectis_power "'s VectisController" | Rack_power RackController

definition power_controller_from_env ::
  "(string \<Rightarrow> string option) \<Rightarrow> (string \<Rightarrow> exn + int) \<Rightarrow> 's \<Rightarrow> exn + 's power_controller" where
  "power_controller_from_env environ read_int s =
     (let kind = lower (case environ ''DEFIB_POWER_TYPE'' of None \<Rightarrow> ''routeros'' | Some k \<Rightarrow> k) in
      if kind = ''routeros'' then map_sum id RouterOS_power (ro_from_env environ read_int s)
      else if kind = ''vectis'' then map_sum id Vectis_power (ve_from_env environ read_int s)
      else if kind = ''rack'' then map_sum id Rack_power (ra_from_env environ read_int)
      else Inl PowerControllerError)"

section \<open>The blob, read back\<close>

definition take_sized :: "nat \<Rightarrow> bytes \<Rightarrow> bytes \<times> bytes" where
  "take_sized n bs = (let l = nat (be_val (take n bs)) in (take l (drop n bs), drop (n + l) bs))"

fun take_fields :: "nat list \<Rightarrow> bytes \<Rightarrow> bytes list \<times> bytes" where
  "take_fields [] bs = ([], bs)"
| "take_fields (n # ns) bs =
     (case take_sized n bs of (f, rest) \<Rightarrow> (case take_fields ns rest of (fs, rest') \<Rightarrow> (f # fs, rest')))"

definition unpack_blob :: "bytes \<Rightarrow> int list \<times> bytes list \<times> bytes" where
  "unpack_blob bs = (map be_val [take 4 bs, take 4 (drop 4 bs), take 4 (drop 8 bs)], take_fields [2, 2, 2, 4, 4] (drop 12 bs))"

lemma sum_bind_Inr: "sum_bind m k = Inr y \<longleftrightarrow> (\<exists>x. m = Inr x \<and> k x = Inr y)"
  by (cases m) (auto simp: sum_bind_def)

lemma to_bytes_big_Inr: "to_bytes_big n v = Inr bs \<longleftrightarrow> 0 \<le> v \<and> v < 256 ^ n \<and> bs = be_bytes n v"
  by (auto simp: to_bytes_big_def)

lemma take_sized_sized: "sized n d = Inr bs \<Longrightarrow> take_sized n (bs @ rest) = (d, rest)"
  by (auto simp: sized_def sum_bind_Inr to_bytes_big_Inr take_sized_def be_val_be_bytes)

lemma take_fields_joined:
  "joined (map (\<lambda>(n, d). sized n d) fs) = Inr bs \<Longrightarrow> take_fields (map fst fs) (bs @ rest) = (map snd fs, rest)"
  by (induction fs arbitrary: bs) (auto simp: sum_bind_Inr take_sized_sized)

lemma unpack_fastboot_blob:
  assumes "fastboot_blob a1 a2 a3 pre0 ddr0 pre1 spl agent = Inr blob"
  shows "unpack_blob blob = ([a1, a2, a3], [pre0, ddr0, (case pre1 of None \<Rightarrow> [] | Some d \<Rightarrow> d), spl, agent], [])"
proof -
  let ?fs = "[(2, pre0), (2, ddr0), (2, case pre1 of None \<Rightarrow> [] | Some d \<Rightarrow> d), (4, spl), (4, agent)]"
  obtain bs where bs: "joined (map (\<lambda>(n, d). sized n d) ?fs) = Inr bs"
    and blob: "blob = be_bytes 4 a1 @ be_bytes 4 a2 @ be_bytes 4 a3 @ bs"
    and r: "0 \<le> a1" "a1 < 256 ^ 4" "0 \<le> a2" "a2 < 256 ^ 4" "0 \<le> a3" "a3 < 256 ^ 4"
    using assms by (auto simp: fastboot_blob_def sum_bind_Inr to_bytes_big_Inr)
  have "take_fields [2, 2, 2, 4, 4] bs = (map snd ?fs, [])"
    using take_fields_joined [OF bs, of "[]"] by simp
  with r show ?thesis by (simp add: unpack_blob_def blob be_val_be_bytes)
qed

section \<open>Requests that are recorded\<close>

type_synonym request = "string \<times> string \<times> bytes option"

definition logged :: "'s http \<Rightarrow> ('s \<times> request list) http" where
  "logged http = (\<lambda>meth url body t (s, reqs). case http meth url body t s of
     None \<Rightarrow> None | Some (r, s') \<Rightarrow> Some (r, (s', reqs @ [(meth, url, body)])))"

lemma wlp_logged: "wlp (logged http meth url body t) w (\<lambda>r w'. snd w' = snd w @ [(meth, url, body)])"
  by (auto simp: wlp_def logged_def split: option.split prod.split)

lemma post_blob_requests:
  "wlp (post_blob_sync (logged http) loads url body t) w (\<lambda>r w'. snd w' = snd w @ [(''POST'', url, Some body)])"
  unfolding post_blob_sync_def loads_or_empty_def
  by (auto simp: wp intro!: wlp_mono [OF wlp_logged] split: sum.split http_reply.split)

lemma fastboot_stages_take:
  "\<exists>n. fastboot_stages phase = take n [HANDSHAKE, DDR_INIT, SPL, UBOOT, COMPLETE]"
proof -
  have "fastboot_stages phase \<in> (\<lambda>n. take n [HANDSHAKE, DDR_INIT, SPL, UBOOT, COMPLETE]) ` {0, 1, 2, 3, 4, 5}"
    unfolding fastboot_stages_def by (auto simp: eval_nat_numeral)
  then show ?thesis by blast
qed

lemma rack_spl_host: "rack_spl firmware n = spl_payload agent (Some firmware) n"
  by (simp add: rack_spl_def spl_payload_def)


section \<open>The pulse of the bridge\<close>

lemma do_pulse_keeps:
  "wlp (do_pulse sleep) V (\<lambda>r V'. ve_transport V' = ve_transport V \<and> ve_owns_transport V' = ve_owns_transport V)"
  unfolding do_pulse_def on_bridge_def
  by (auto simp: wp intro!: wlp_any split: option.split sum.split)

text \<open>A standalone power cycle gives the controller back without a transport; only when closing fails does it
  keep the one it opened. An attached transport stays attached.\<close>

lemma vectis_power_cycle_transport:
  "wlp (vectis_power_cycle create sleep port d) V (\<lambda>r V'. case ve_transport V of
     None \<Rightarrow> (case r of Inr _ \<Rightarrow> ve_transport V' = None | Inl _ \<Rightarrow> ve_transport V' = None \<or> ve_owns_transport V')
   | Some tr \<Rightarrow> ve_transport V' = Some tr \<and> ve_owns_transport V' = ve_owns_transport V)"
  unfolding vectis_power_cycle_def open_standalone_def close_standalone_def on_bridge_def
  by (auto simp: wp intro!: wlp_any wlp_mono [OF do_pulse_keeps] split: option.split sum.split)

end
