(* ===== verification/FlashDump.thy ===== *)
theory FlashDump
  imports AgentProtocol "HOL-Library.Multiset"
begin

text \<open>
  \<open>src/defib/flashdump.py\<close> and \<open>src/defib/uboot_env.py\<close>: reading a flash chip through the hex dumps of a U-Boot
  console, and the helpers for the MAC address in U-Boot's environment. Console text is held as its bytes; a
  byte above 127 stands for the replacement character it is decoded to, which is neither a space, nor a digit, nor
  a letter. A regular expression is a function that matches at a position; log output and the statistics
  callback are left out.
\<close>

section \<open>Characters\<close>

definition text_space :: "byte \<Rightarrow> bool" where
  "text_space b \<longleftrightarrow> b = 32 \<or> 9 \<le> b \<and> b \<le> 13 \<or> 28 \<le> b \<and> b \<le> 31"

definition text_strip :: "bytes \<Rightarrow> bytes" where
  "text_strip s = rev (dropWhile text_space (rev (dropWhile text_space s)))"

definition text_lower :: "bytes \<Rightarrow> bytes" where
  "text_lower s = map (\<lambda>b. if 65 \<le> b \<and> b \<le> 90 then b + 32 else b) s"

definition is_digit :: "byte \<Rightarrow> bool" where
  "is_digit b \<longleftrightarrow> 48 \<le> b \<and> b \<le> 57"

definition word_char :: "byte \<Rightarrow> bool" where
  "word_char b \<longleftrightarrow> is_digit b \<or> 65 \<le> b \<and> b \<le> 90 \<or> 97 \<le> b \<and> b \<le> 122 \<or> b = 95"

definition hexval :: "byte \<Rightarrow> int option" where
  "hexval b =
     (if is_digit b then Some (uint b - 48)
      else if 97 \<le> b \<and> b \<le> 102 then Some (uint b - 87)
      else if 65 \<le> b \<and> b \<le> 70 then Some (uint b - 55)
      else None)"

definition hexnum :: "bytes \<Rightarrow> int" where
  "hexnum s = foldl (\<lambda>n b. n * 16 + (case hexval b of Some d \<Rightarrow> d | None \<Rightarrow> 0)) 0 s"

definition decnum :: "bytes \<Rightarrow> int" where
  "decnum s = foldl (\<lambda>n b. n * 10 + (uint b - 48)) 0 s"

definition hex_char :: "nat \<Rightarrow> byte" where
  "hex_char d = (if d < 10 then of_nat (48 + d) else of_nat (87 + d))"

fun hex_nat :: "nat \<Rightarrow> bytes" where
  "hex_nat n = (if n < 16 then [hex_char n] else hex_nat (n div 16) @ [hex_char (n mod 16)])"

declare hex_nat.simps [simp del]

text \<open>The format \<open>0x{n:x}\<close>.\<close>

definition hex0x :: "int \<Rightarrow> bytes" where
  "hex0x n = ascii ''0x'' @ (if n < 0 then ascii ''-'' else []) @ hex_nat (nat \<bar>n\<bar>)"

text \<open>
  \<open>splitlines\<close>: lines end at line feeds, carriage returns (with a line feed behind them), vertical tabs, form
  feeds and the separators 28 to 30; an end of line at the end of the text starts no further line.
\<close>

definition line_end :: "byte \<Rightarrow> bool" where
  "line_end b \<longleftrightarrow> 10 \<le> b \<and> b \<le> 13 \<or> 28 \<le> b \<and> b \<le> 30"

function splitlines :: "bytes \<Rightarrow> bytes list" where
  "splitlines s =
     (if s = [] then []
      else let line = takeWhile (\<lambda>b. \<not> line_end b) s; rest = dropWhile (\<lambda>b. \<not> line_end b) s
           in line # splitlines (if take 2 rest = [13, 10] then drop 2 rest else drop 1 rest))"
  by auto
termination
proof (relation "measure length", goal_cases)
  case (2 s x xa)
  have "length xa \<le> length s" "0 < length s" using 2 by (auto simp: length_dropWhile_le)
  then show ?case by (cases s; cases xa) auto
qed simp

declare splitlines.simps [simp del]

section \<open>The staging address\<close>

definition RAM_BASE :: "(string \<times> int) list" where
  "RAM_BASE =
     map (\<lambda>c. (c, 0x80000000))
       [''hi3516cv100'', ''hi3516cv200'', ''hi3516av100'', ''hi3516av200'', ''hi3516cv300'', ''hi3516cv500'',
        ''hi3519v101'', ''hi3516a'', ''hi3516dv100'', ''hi3516dv300'', ''hi3518'', ''hi3518ev200'', ''hi3520d'',
        ''hi3531'', ''hi3531a'', ''hi3535'', ''hi3536'', ''hi3519'', ''hi3559v100'']
     @ map (\<lambda>c. (c, 0x40000000))
       [''hi3516ev200'', ''hi3516ev300'', ''hi3518ev300'', ''hi3516dv200'', ''gk7205v200'', ''gk7205v300'',
        ''gk7202v300'', ''gk7605v100'', ''gk7205v500'', ''hi3516cv608'', ''hi3516cv610'', ''hi3516cv613'']"

definition RAM_STAGING_OFFSET :: int where "RAM_STAGING_OFFSET = 0x2000000"
definition SF_READ_TIMEOUT :: usec where "SF_READ_TIMEOUT = 120000000"

definition get_ram_staging_addr :: "'j json_reader \<Rightarrow> profile_dir \<Rightarrow> string \<Rightarrow> int" where
  "get_ram_staging_addr J dir chip =
     (let chip_lower = lower chip in
      case map_of RAM_BASE chip_lower of
        Some base \<Rightarrow> base + RAM_STAGING_OFFSET
      | None \<Rightarrow> (case sum_bind (load_profile J dir chip_lower) uboot_address of
          Inr uboot_addr \<Rightarrow> (uboot_addr AND 0xF0000000) + RAM_STAGING_OFFSET
        | Inl _ \<Rightarrow> (case List.find (\<lambda>(prefix, _). take (length (take 8 prefix)) chip_lower = take 8 prefix) RAM_BASE of
            Some (_, base) \<Rightarrow> base + RAM_STAGING_OFFSET
          | None \<Rightarrow> 0x82000000)))"

section \<open>Hex dumps\<close>

text \<open>
  The bytes of a line: pairs of hex digits with white space between them, at most \<open>n\<close>. The expression
  gives back a repetition that no pair follows, so the longest run of pairs is what it matches.
\<close>

fun md_bytes :: "nat \<Rightarrow> bytes \<Rightarrow> bytes" where
  "md_bytes 0 s = []"
| "md_bytes (Suc n) s = (case s of
     a # b # rest \<Rightarrow> (case (hexval a, hexval b) of
       (Some x, Some y) \<Rightarrow> word_of_int (16 * x + y)
         # (if rest \<noteq> [] \<and> text_space (hd rest) then md_bytes n (dropWhile text_space rest) else [])
     | _ \<Rightarrow> [])
   | _ \<Rightarrow> [])"

definition parse_md_line :: "bytes \<Rightarrow> (int \<times> bytes) option" where
  "parse_md_line line0 =
     (let line = text_strip line0; addr = take 8 line; rest = drop 8 line in
      if length addr = 8 \<and> list_all (\<lambda>b. hexval b \<noteq> None) addr
         \<and> (case rest of c # sp # _ \<Rightarrow> c = 58 \<and> text_space sp | _ \<Rightarrow> False)
      then (let data = md_bytes 16 (dropWhile text_space (drop 1 rest))
            in if data = [] then None else Some (hexnum addr, data))
      else None)"

text \<open>Assignment to a slice that starts inside the buffer: it may make the buffer longer.\<close>

definition put_slice :: "nat \<Rightarrow> 'a list \<Rightarrow> 'a list \<Rightarrow> 'a list" where
  "put_slice i d buf = take i buf @ d @ drop (i + length d) buf"

definition parse_md_output :: "bytes \<Rightarrow> bytes" where
  "parse_md_output txt =
     (let entries = sort_key fst (List.map_filter parse_md_line (splitlines txt)) in
      if entries = [] then []
      else let base_addr = fst (hd entries);
               total_size = (fst (last entries) - base_addr) + int (length (snd (last entries)))
           in foldl (\<lambda>buf (addr, data). put_slice (nat (addr - base_addr)) data buf)
                (replicate (nat total_size) 0) entries)"

section \<open>Console commands\<close>

text \<open>
  \<open>idle\<close> counts the reads in a row that brought nothing; the tenths of seconds that the code adds up
  pass one half with the sixth.
\<close>

definition waiting_for :: "bytes option \<Rightarrow> bool" where
  "waiting_for w \<longleftrightarrow> (case w of None \<Rightarrow> False | Some p \<Rightarrow> p \<noteq> [])"

fun command_loop ::
  "'s transport \<Rightarrow> nat \<Rightarrow> usec \<Rightarrow> usec \<Rightarrow> bytes option \<Rightarrow> bytes \<Rightarrow> nat \<Rightarrow> ('s, bytes) io" where
  "command_loop T 0 start timeout wait_for buf idle = io_diverge"
| "command_loop T (Suc fuel) start timeout wait_for buf idle =
     io_bind (io_get (tr_now T)) (\<lambda>now.
       if \<not> now - start < timeout then io_return buf
       else io_try (tr_read T 4096 (Some 100000))
         (\<lambda>e. if e = TransportTimeout then
                if \<not> waiting_for wait_for \<and> buf \<noteq> [] \<and> Suc idle > 5 then io_return buf
                else command_loop T fuel start timeout wait_for buf (Suc idle)
              else io_raise e)
         (\<lambda>data. if data \<noteq> [] then
                if waiting_for wait_for \<and> contains_sub (the wait_for) (drop (length (buf @ data) - 64) (buf @ data))
                then io_return (buf @ data)
                else command_loop T fuel start timeout wait_for (buf @ data) 0
              else if \<not> waiting_for wait_for \<and> buf \<noteq> [] \<and> Suc idle > 5 then io_return buf
              else command_loop T fuel start timeout wait_for buf (Suc idle)))"

definition console_command ::
  "'s transport \<Rightarrow> nat \<Rightarrow> bytes \<Rightarrow> usec \<Rightarrow> bytes option \<Rightarrow> ('s, bytes) io" where
  "console_command T fuel cmd timeout wait_for =
     io_then
       (io_try
          (io_bind (tr_bytes_waiting T) (\<lambda>avail.
             if avail > 0 then io_then (tr_read T avail (Some 100000)) (io_return ()) else io_return ()))
          (\<lambda>_. io_return ()) io_return)
       (io_then (tr_write T (cmd @ [13]))
          (io_bind (io_get (tr_now T)) (\<lambda>start. command_loop T fuel start timeout wait_for [] 0)))"

abbreviation prompt :: "bytes option" where "prompt \<equiv> Some (ascii ''# '')"

definition says :: "string \<Rightarrow> bytes \<Rightarrow> bool" where
  "says s resp \<longleftrightarrow> contains_sub (ascii s) (text_lower resp)"

definition tftp_to_ram :: "'s transport \<Rightarrow> nat \<Rightarrow> int \<Rightarrow> bytes \<Rightarrow> usec \<Rightarrow> ('s, bytes) io" where
  "tftp_to_ram T fuel addr filename timeout =
     io_bind (console_command T fuel (ascii ''tftpboot '' @ hex0x addr @ ascii '' '' @ filename) timeout prompt) (\<lambda>resp0.
     io_bind (if says ''unknown command'' resp0
              then console_command T fuel (ascii ''tftp '' @ hex0x addr @ ascii '' '' @ filename) timeout prompt
              else io_return resp0) (\<lambda>resp.
     if \<not> says ''done'' resp \<and> \<not> says ''bytes transferred'' resp then io_raise RuntimeError
     else io_return resp))"

section \<open>The size of the flash\<close>

text \<open>
  \<open>re.finditer\<close> for expressions that match at least one character. A matcher sees the character before
  the position and the text from there, and returns what its group holds and how much it matched.
\<close>

type_synonym matcher = "byte option \<Rightarrow> bytes \<Rightarrow> (bytes \<times> nat) option"

function finditer :: "matcher \<Rightarrow> byte option \<Rightarrow> bytes \<Rightarrow> bytes list" where
  "finditer m prev [] = []"
| "finditer m prev (c # cs) = (case m prev (c # cs) of
     None \<Rightarrow> finditer m (Some c) cs
   | Some (g, n) \<Rightarrow> g # finditer m (Some (last (take (Suc (n - 1)) (c # cs)))) (drop (n - 1) cs))"
  by pat_completeness auto
termination
  by (relation "measure (\<lambda>(m, prev, s). length s)") auto

definition has_prefix :: "string \<Rightarrow> bytes \<Rightarrow> bool" where
  "has_prefix p s \<longleftrightarrow> take (length p) s = ascii p"

definition match_sized :: matcher where
  "match_sized prev s =
     (case List.find (\<lambda>k. has_prefix k (text_lower s)) [''chip'', ''flash'', ''size'', ''nor''] of
        None \<Rightarrow> None
      | Some k \<Rightarrow>
          (let rest = dropWhile (\<lambda>b. \<not> is_digit b) (drop (length k) s);
               digits = takeWhile is_digit rest;
               tail = dropWhile text_space (dropWhile is_digit rest)
           in if digits \<noteq> [] \<and> has_prefix ''mb'' (text_lower tail)
              then Some (digits, length s - (length tail - 2)) else None))"

definition match_mb :: matcher where
  "match_mb prev s =
     (let digits = takeWhile is_digit s;
          tail = dropWhile text_space (dropWhile is_digit s)
      in if (case prev of None \<Rightarrow> True | Some p \<Rightarrow> \<not> word_char p) \<and> digits \<noteq> [] \<and> has_prefix ''MB'' tail
            \<and> (case drop 2 tail of [] \<Rightarrow> True | b # _ \<Rightarrow> \<not> word_char b)
         then Some (digits, length s - (length tail - 2)) else None)"

definition match_hex :: matcher where
  "match_hex prev s =
     (let digits = takeWhile (\<lambda>b. hexval b \<noteq> None) (take 8 (drop 2 s))
      in if has_prefix ''0x'' s \<and> 6 \<le> length digits then Some (digits, 2 + length digits) else None)"

text \<open>\<open>int\<close> refuses more than 4300 decimal digits.\<close>

fun first_mb :: "bytes list \<Rightarrow> exn + int option" where
  "first_mb [] = Inr None"
| "first_mb (digits # ms) =
     (if length digits > 4300 then Inl ValueError
      else if decnum digits \<in> {4, 8, 16, 32, 64} then Inr (Some (decnum digits * 1024 * 1024))
      else first_mb ms)"

fun first_hex :: "bytes list \<Rightarrow> int option" where
  "first_hex [] = None"
| "first_hex (digits # ms) =
     (let sz = hexnum digits
      in if 0x100000 \<le> sz \<and> sz \<le> 0x4000000 \<and> sz AND (sz - 1) = 0 then Some sz else first_hex ms)"

definition detect_flash_from_text :: "bytes \<Rightarrow> exn + int option" where
  "detect_flash_from_text txt =
     sum_bind (first_mb (finditer match_sized None txt)) (\<lambda>r. case r of
       Some n \<Rightarrow> Inr (Some n)
     | None \<Rightarrow> sum_bind (first_mb (finditer match_mb None txt)) (\<lambda>r. case r of
         Some n \<Rightarrow> Inr (Some n)
       | None \<Rightarrow> Inr (first_hex (finditer match_hex None txt))))"

definition detect_flash :: "'s transport \<Rightarrow> nat \<Rightarrow> bytes \<Rightarrow> ('s, int option) io" where
  "detect_flash T fuel boot_log =
     io_bind (io_lift (if boot_log = [] then Inr None else detect_flash_from_text boot_log)) (\<lambda>found. case found of
       Some sz \<Rightarrow> io_return (Some sz)
     | None \<Rightarrow> io_bind (console_command T fuel (ascii ''sf probe 0'') 5000000 prompt) (\<lambda>resp.
         io_lift (detect_flash_from_text resp)))"

definition detect_crc32 :: "'s transport \<Rightarrow> nat \<Rightarrow> ('s, bool) io" where
  "detect_crc32 T fuel =
     io_bind (console_command T fuel (ascii ''crc32 0 0'') 3000000 prompt) (\<lambda>resp.
       io_return (\<not> says ''unknown command'' resp))"

definition match_crc :: matcher where
  "match_crc prev s =
     (let digits = takeWhile (\<lambda>b. hexval b \<noteq> None) (take 8 (dropWhile text_space (drop 3 s)))
      in if has_prefix ''==>'' s \<and> length digits = 8 then Some (digits, 11) else None)"

definition get_device_crc32 :: "'s transport \<Rightarrow> nat \<Rightarrow> int \<Rightarrow> int \<Rightarrow> ('s, int option) io" where
  "get_device_crc32 T fuel addr sz =
     io_bind (console_command T fuel (ascii ''crc32 '' @ hex0x addr @ ascii '' '' @ hex0x sz) 5000000 prompt) (\<lambda>resp.
       io_return (case finditer match_crc None resp of [] \<Rightarrow> None | g # _ \<Rightarrow> Some (hexnum g)))"

section \<open>The dump\<close>

text \<open>
  One block: at most six attempts. A transport error, an empty reply or a checksum that differs costs an attempt;
  a block that cannot be read is filled with zeros, and one whose checksum keeps differing is taken as it is.
\<close>

definition CHUNK :: int where "CHUNK = 0x1000"

fun read_block :: "'s transport \<Rightarrow> nat \<Rightarrow> bool \<Rightarrow> int \<Rightarrow> int \<Rightarrow> nat \<Rightarrow> ('s, bytes) io" where
  "read_block T fuel has_crc32 addr remaining left =
     io_try
       (io_bind (console_command T fuel (ascii ''md.b '' @ hex0x addr @ ascii '' '' @ hex0x remaining) 15000000 prompt) (\<lambda>resp.
          io_return (parse_md_output resp)))
       (\<lambda>_. case left of
          0 \<Rightarrow> io_return (replicate (nat remaining) 0)
        | Suc l \<Rightarrow> io_then (tr_sleep T 1000000)
            (io_then (io_try (console_command T fuel [] 3000000 prompt) (\<lambda>_. io_return ()) (\<lambda>_. io_return ()))
              (read_block T fuel has_crc32 addr remaining l)))
       (\<lambda>chunk_data.
          if chunk_data = [] then
            (case left of
               0 \<Rightarrow> io_return (replicate (nat remaining) 0)
             | Suc l \<Rightarrow> read_block T fuel has_crc32 addr remaining l)
          else if has_crc32 \<and> int (length chunk_data) = remaining then
            io_try (get_device_crc32 T fuel addr remaining) (\<lambda>_. io_return chunk_data)
              (\<lambda>device_crc.
                 if device_crc \<noteq> None \<and> device_crc \<noteq> Some (crc32 chunk_data) then
                   (case left of
                      0 \<Rightarrow> io_return chunk_data
                    | Suc l \<Rightarrow> read_block T fuel has_crc32 addr remaining l)
                 else io_return chunk_data)
          else io_return chunk_data)"

declare read_block.simps [simp del]

text \<open>
  The loop over the blocks: the file is its contents, and its position is the offset of the loop. Every
  round adds at least one byte, so as many rounds as bytes are missing are enough.
\<close>

fun dump_loop ::
  "'s transport \<Rightarrow> nat \<Rightarrow> (int \<Rightarrow> int \<Rightarrow> ('s, unit) io) \<Rightarrow> ('s, bool) io \<Rightarrow> bool \<Rightarrow> int \<Rightarrow> int \<Rightarrow> nat \<Rightarrow> int \<Rightarrow> bytes
    \<Rightarrow> ('s, int \<times> bytes) io" where
  "dump_loop T fuel on_progress is_cancelled has_crc32 ram_addr flash_size n offset f =
     (if \<not> offset < flash_size then io_return (offset, f)
      else case n of
        0 \<Rightarrow> io_diverge
      | Suc m \<Rightarrow>
          io_bind (read_block T fuel has_crc32 (ram_addr + offset) (min CHUNK (flash_size - offset)) 5) (\<lambda>chunk_data.
          let f' = put_slice (nat offset) chunk_data f; offset' = offset + int (length chunk_data) in
          io_then (on_progress offset' flash_size)
            (io_bind is_cancelled (\<lambda>stop.
               if stop then io_return (offset', f')
               else dump_loop T fuel on_progress is_cancelled has_crc32 ram_addr flash_size m offset' f'))))"

declare dump_loop.simps [simp del]

text \<open>Where a dump resumes, and what it keeps of the file.\<close>

definition resume_at :: "bytes option \<Rightarrow> int \<Rightarrow> int \<times> bytes" where
  "resume_at existing flash_size =
     (case existing of
        None \<Rightarrow> (0, [])
      | Some f \<Rightarrow>
          (let resume_offset = int (length f) div CHUNK * CHUNK
           in if 0 < resume_offset \<and> resume_offset < flash_size then (resume_offset, f) else (0, [])))"

definition dump_flash ::
  "'s transport \<Rightarrow> nat \<Rightarrow> 'j json_reader \<Rightarrow> profile_dir \<Rightarrow> bytes option \<Rightarrow> int option \<Rightarrow> int option \<Rightarrow> string
    \<Rightarrow> (int \<Rightarrow> int \<Rightarrow> ('s, unit) io) \<Rightarrow> ('s, bool) io \<Rightarrow> bytes \<Rightarrow> ('s, int \<times> bytes) io" where
  "dump_flash T fuel J dir existing flash_size0 ram_addr0 chip on_progress is_cancelled boot_log =
     (let ram_addr = (case ram_addr0 of Some a \<Rightarrow> a
        | None \<Rightarrow> if chip \<noteq> [] then get_ram_staging_addr J dir chip else 0x82000000) in
      io_bind (case flash_size0 of Some n \<Rightarrow> io_return (Some n) | None \<Rightarrow> detect_flash T fuel boot_log) (\<lambda>found.
      case found of
        None \<Rightarrow> io_raise RuntimeError
      | Some flash_size \<Rightarrow>
          io_bind (console_command T fuel (ascii ''sf probe 0'') 5000000 prompt) (\<lambda>probe_resp.
          if says ''error'' probe_resp \<or> says ''fail'' probe_resp then io_raise RuntimeError
          else io_bind (console_command T fuel
            (ascii ''sf read '' @ hex0x ram_addr @ ascii '' 0x0 '' @ hex0x flash_size) SF_READ_TIMEOUT prompt) (\<lambda>resp.
          if \<not> contains_sub (ascii ''Read: OK'') resp then io_raise RuntimeError
          else io_bind (console_command T fuel (ascii ''md.b '' @ hex0x ram_addr @ ascii '' 10'') 5000000 prompt) (\<lambda>check_resp.
          let check_data = parse_md_output check_resp in
          if 16 \<le> length check_data \<and> card (set (take 16 check_data)) = 1 then io_raise RuntimeError
          else io_bind (detect_crc32 T fuel) (\<lambda>has_crc32.
          case resume_at existing flash_size of (offset, f) \<Rightarrow>
            dump_loop T fuel on_progress is_cancelled has_crc32 ram_addr flash_size (nat flash_size) offset f))))))"

section \<open>The MAC address in the environment\<close>

definition OPENIPC_DEFAULT_ETHADDR :: bytes where
  "OPENIPC_DEFAULT_ETHADDR = ascii ''00:00:23:34:45:66''"

fun mac_octets :: "nat \<Rightarrow> bytes \<Rightarrow> bool" where
  "mac_octets 0 s = (case s of [a, b] \<Rightarrow> hexval a \<noteq> None \<and> hexval b \<noteq> None | _ \<Rightarrow> False)"
| "mac_octets (Suc n) s = (case s of
     a # b # c # rest \<Rightarrow> hexval a \<noteq> None \<and> hexval b \<noteq> None \<and> c = 58 \<and> mac_octets n rest
   | _ \<Rightarrow> False)"

definition is_unset_or_default_ethaddr :: "bytes option \<Rightarrow> bool" where
  "is_unset_or_default_ethaddr value =
     (case value of
        None \<Rightarrow> True
      | Some v0 \<Rightarrow>
          (let v = text_lower (text_strip v0)
           in v = [] \<or> \<not> mac_octets 5 v \<or> v = text_lower OPENIPC_DEFAULT_ETHADDR))"

definition hex_byte :: "byte \<Rightarrow> bytes" where
  "hex_byte b = [hex_char (unat b div 16), hex_char (unat b mod 16)]"

fun join_colon :: "bytes list \<Rightarrow> bytes" where
  "join_colon [] = []"
| "join_colon [x] = x"
| "join_colon (x # xs) = x @ [58] @ join_colon xs"

text \<open>The six random bytes are an argument.\<close>

definition generate_locally_administered_mac :: "bytes \<Rightarrow> bytes" where
  "generate_locally_administered_mac raw =
     join_colon (map hex_byte (case raw of [] \<Rightarrow> [] | r0 # rs \<Rightarrow> ((r0 AND 0xFC) OR 0x02) # rs))"

text \<open>
  The expression starts at a line, skips white space, and takes the shortest non-empty rest of the line behind
  which there is only white space. White space over several lines leads to the same match from the last of them.
\<close>

function lines_lf :: "bytes \<Rightarrow> bytes list" where
  "lines_lf s =
     (let line = takeWhile (\<lambda>b. b \<noteq> 10) s; rest = dropWhile (\<lambda>b. b \<noteq> 10) s
      in if rest = [] then [line] else line # lines_lf (drop 1 rest))"
  by auto
termination
proof (relation "measure length", goal_cases)
  case (2 s x xa)
  have "length xa \<le> length s" "0 < length xa" using 2 by (auto simp: length_dropWhile_le)
  then show ?case by (cases s; cases xa) auto
qed simp

declare lines_lf.simps [simp del]

definition env_line :: "bytes \<Rightarrow> bytes \<Rightarrow> bytes option" where
  "env_line var line =
     (let s = dropWhile text_space line; v = drop (length var + 1) s
      in if take (length var + 1) s = var @ [61] \<and> v \<noteq> [] then Some (text_strip v) else None)"

definition parse_printenv_value :: "bytes \<Rightarrow> bytes \<Rightarrow> bytes option" where
  "parse_printenv_value response var =
     (case List.map_filter (env_line var) (lines_lf response) of [] \<Rightarrow> None | v # _ \<Rightarrow> Some v)"

section \<open>Dumps are read back\<close>

text \<open>What U-Boot's \<open>md.b\<close> prints for sixteen bytes: address, bytes, and a gutter with the printable ones.\<close>

fun hex_fixed :: "nat \<Rightarrow> nat \<Rightarrow> bytes" where
  "hex_fixed 0 v = []"
| "hex_fixed (Suc n) v = hex_fixed n (v div 16) @ [hex_char (v mod 16)]"

definition md_row :: "nat \<Rightarrow> bytes \<Rightarrow> bytes \<Rightarrow> bytes" where
  "md_row addr bs gutter = hex_fixed 8 addr @ [58] @ concat (map (\<lambda>b. [32] @ hex_byte b) bs) @ [32, 32, 32, 32] @ gutter"

lemma hex_char_digits:
  "list_all (\<lambda>d. hexval (hex_char d) = Some (int d) \<and> \<not> text_space (hex_char d)) [0..<16]"
  by code_simp

lemma hexval_hex_char: "d < 16 \<Longrightarrow> hexval (hex_char d) = Some (int d)"
  and hex_char_not_space: "d < 16 \<Longrightarrow> \<not> text_space (hex_char d)"
  using hex_char_digits by (auto simp: list_all_iff)

lemma length_hex_fixed [simp]: "length (hex_fixed n v) = n"
  by (induction n arbitrary: v) auto

lemma hexnum_snoc: "hexnum (s @ [hex_char d]) = hexnum s * 16 + (case hexval (hex_char d) of Some x \<Rightarrow> x | None \<Rightarrow> 0)"
  by (simp add: hexnum_def)

lemma hexnum_hex_fixed: "v < 16 ^ n \<Longrightarrow> hexnum (hex_fixed n v) = int v"
proof (induction n arbitrary: v)
  case (Suc n)
  have "v div 16 < 16 ^ n" using Suc.prems by (simp add: div_less_iff_less_mult mult.commute)
  then show ?case
    by (simp add: hexnum_snoc hexval_hex_char Suc.IH zdiv_int zmod_int)
qed (simp add: hexnum_def)

lemma hex_fixed_digits: "b \<in> set (hex_fixed n v) \<Longrightarrow> hexval b \<noteq> None \<and> \<not> text_space b"
  by (induction n arbitrary: v) (auto simp: hexval_hex_char hex_char_not_space)

lemma hex_byte_digits:
  "hexval (hex_byte b ! 0) = Some (uint b div 16)" "hexval (hex_byte b ! 1) = Some (uint b mod 16)"
proof -
  have "unat b < 256" by (rule unat_lt_256)
  then have "unat b div 16 < 16" by simp
  then show "hexval (hex_byte b ! 0) = Some (uint b div 16)" "hexval (hex_byte b ! 1) = Some (uint b mod 16)"
    by (simp_all add: hex_byte_def hexval_hex_char zdiv_int zmod_int)
qed

lemma hex_byte_space: "\<not> text_space (hex_byte b ! 0)" "\<not> text_space (hex_byte b ! 1)"
proof -
  have "unat b < 256" by (rule unat_lt_256)
  then show "\<not> text_space (hex_byte b ! 0)" "\<not> text_space (hex_byte b ! 1)"
    by (simp_all add: hex_byte_def hex_char_not_space)
qed

lemma space_32 [simp]: "text_space 32"
  by (simp add: text_space_def)

lemma md_bytes_pair:
  "md_bytes (Suc n) (hex_byte b @ rest) = b # (if rest \<noteq> [] \<and> text_space (hd rest) then md_bytes n (dropWhile text_space rest) else [])"
proof -
  have v: "hexval (hex_char (unat b div 16)) = Some (uint b div 16)" "hexval (hex_char (unat b mod 16)) = Some (uint b mod 16)"
    using hex_byte_digits [of b] by (auto simp: hex_byte_def)
  have "(word_of_int (16 * (uint b div 16) + uint b mod 16) :: byte) = b"
    by (simp only: mult_div_mod_eq word_of_int_uint)
  then show ?thesis
    by (simp add: hex_byte_def v del: of_int_add of_int_mult)
qed

lemma dropWhile_pair: "dropWhile text_space (hex_byte b @ rest) = hex_byte b @ rest"
  using hex_byte_space [of b] by (simp add: hex_byte_def)

lemma md_bytes_row:
  "bs \<noteq> [] \<Longrightarrow> md_bytes (length bs) (dropWhile text_space (concat (map (\<lambda>b. 32 # hex_byte b) bs) @ rest)) = bs"
proof (induction bs)
  case (Cons b bs)
  show ?case
  proof (cases "bs = []")
    case True
    then show ?thesis by (simp add: dropWhile_pair md_bytes_pair del: md_bytes.simps(2)) 
  next
    case False
    then obtain c cs where bs: "bs = c # cs" by (cases bs) auto
    have "hd (concat (map (\<lambda>b. 32 # hex_byte b) bs) @ rest) = 32" "concat (map (\<lambda>b. 32 # hex_byte b) bs) @ rest \<noteq> []"
      by (auto simp: bs)
    with Cons.IH [OF False] show ?thesis
      by (simp add: dropWhile_pair md_bytes_pair del: md_bytes.simps(2))
  qed
qed simp

lemma text_strip_append:
  assumes "p \<noteq> []" "\<not> text_space (hd p)" "\<not> text_space (last p)"
  obtains q' where "text_strip (p @ q) = p @ q'"
proof -
  have "dropWhile text_space (p @ q) = p @ q" using assms by (cases p) auto
  moreover have "dropWhile text_space (rev p) = rev p"
    using assms by (cases p rule: rev_cases) auto
  then have "dropWhile text_space (rev q @ rev p) = dropWhile text_space (rev q) @ rev p"
    by (simp add: dropWhile_append)
  ultimately show thesis using that by (simp add: text_strip_def)
qed

lemma parse_md_row:
  assumes "length bs = 16" "addr < 2 ^ 32"
  shows "parse_md_line (md_row addr bs gutter) = Some (int addr, bs)"
proof -
  let ?p = "hex_fixed 8 addr @ [58] @ concat (map (\<lambda>b. 32 # hex_byte b) bs)"
  have ne: "hex_fixed 8 addr \<noteq> []" using length_hex_fixed [of 8 addr] by (metis list.size(3) zero_neq_numeral)
  then have "hd ?p \<in> set (hex_fixed 8 addr)" by simp
  then have 1: "\<not> text_space (hd ?p)" using hex_fixed_digits by blast
  have "bs \<noteq> []" using assms by auto
  then have "last ?p = hex_byte (last bs) ! 1"
    by (cases bs rule: rev_cases) (auto simp: hex_byte_def)
  then have 2: "\<not> text_space (last ?p)" using hex_byte_space by metis
  obtain q where q: "text_strip (?p @ [32, 32, 32, 32] @ gutter) = ?p @ q"
    using text_strip_append [OF _ 1 2] by blast
  obtain b bs' where bs: "bs = b # bs'" using \<open>bs \<noteq> []\<close> by (cases bs) auto
  have "list_all (\<lambda>b. hexval b \<noteq> None) (hex_fixed 8 addr)"
    using hex_fixed_digits by (auto simp: list_all_iff)
  moreover have "hexnum (hex_fixed 8 addr) = int addr" using assms by (intro hexnum_hex_fixed) simp
  moreover have "md_bytes 16 (dropWhile text_space (concat (map (\<lambda>b. 32 # hex_byte b) bs) @ q)) = bs"
    using md_bytes_row [OF \<open>bs \<noteq> []\<close>, of q] assms by simp
  moreover have "md_row addr bs gutter = ?p @ [32, 32, 32, 32] @ gutter" by (simp add: md_row_def)
  ultimately show ?thesis
    using q bs unfolding parse_md_line_def by (simp add: Let_def)
qed

lemma splitlines_line:
  assumes "list_all (\<lambda>b. \<not> line_end b) l"
  shows "splitlines (l @ [13, 10] @ rest) = l # splitlines rest"
proof -
  have "\<not> line_end b" if "b \<in> set l" for b using assms that by (auto simp: list_all_iff)
  moreover have "line_end 13" by (simp add: line_end_def)
  ultimately show ?thesis
    by (subst splitlines.simps) (simp add: takeWhile_append dropWhile_append)
qed

lemma splitlines_lines:
  "list_all (list_all (\<lambda>b. \<not> line_end b)) ls \<Longrightarrow> splitlines (concat (map (\<lambda>l. l @ [13, 10]) ls)) = ls"
proof (induction ls)
  case Nil
  then show ?case by (subst splitlines.simps) simp
next
  case (Cons l ls)
  then show ?case using splitlines_line [of l] by simp
qed

lemma put_slice_block:
  "length pre = i \<Longrightarrow> length old = length d \<Longrightarrow> put_slice i d (pre @ old @ post) = pre @ d @ post"
  by (simp add: put_slice_def)

text \<open>Consecutive rows fill the buffer.\<close>

fun row_entries :: "nat \<Rightarrow> bytes list \<Rightarrow> (nat \<times> bytes) list" where
  "row_entries addr [] = []"
| "row_entries addr (d # rows) = (addr, d) # row_entries (addr + 16) rows"

definition fill :: "nat \<Rightarrow> bytes \<Rightarrow> (int \<times> bytes) list \<Rightarrow> bytes" where
  "fill base = foldl (\<lambda>buf (addr, d). put_slice (nat (addr - int base)) d buf)"

lemma fill_Cons: "fill base buf ((addr, d) # es) = fill base (put_slice (nat (addr - int base)) d buf) es"
  by (simp add: fill_def)

lemma fill_rows:
  assumes "\<And>d. d \<in> set rows \<Longrightarrow> length d = 16"
  shows "fill base (pre @ replicate (16 * length rows) 0) (map (apfst int) (row_entries (base + length pre) rows)) = pre @ concat rows"
  using assms
proof (induction rows arbitrary: pre)
  case (Cons d rows)
  have d: "length d = 16" using Cons.prems by simp
  have "put_slice (length pre) d (pre @ replicate (16 * length (d # rows)) 0) = (pre @ d) @ replicate (16 * length rows) 0"
    using put_slice_block [of pre "length pre" "replicate 16 0" d "replicate (16 * length rows) 0"] d
    by (simp only: length_replicate length_Cons mult_Suc_right replicate_add) simp
  then have "fill base (pre @ replicate (16 * length (d # rows)) 0) (map (apfst int) (row_entries (base + length pre) (d # rows)))
      = fill base ((pre @ d) @ replicate (16 * length rows) 0) (map (apfst int) (row_entries (base + length (pre @ d)) rows))"
    by (simp only: row_entries.simps list.map apfst_conv fill_Cons) (simp add: d add.assoc)
  also have "\<dots> = (pre @ d) @ concat rows"
    by (rule Cons.IH) (use Cons.prems in simp)
  finally show ?case by simp
qed (simp add: fill_def)

lemma row_entries_addr: "(a, d) \<in> set (row_entries addr rows) \<Longrightarrow> addr \<le> a \<and> d \<in> set rows"
  by (induction rows arbitrary: addr) fastforce+

lemma row_entries_bound: "(a, d) \<in> set (row_entries addr rows) \<Longrightarrow> a + 16 \<le> addr + 16 * length rows"
  by (induction rows arbitrary: addr) fastforce+

lemma row_entries_sorted: "sorted (map fst (row_entries addr rows)) \<and> distinct (map fst (row_entries addr rows))"
proof (induction rows arbitrary: addr)
  case (Cons d rows)
  have "\<forall>x\<in>set (map fst (row_entries (addr + 16) rows)). addr + 16 \<le> x"
    using row_entries_addr [of _ _ "addr + 16" rows] by auto
  with Cons.IH [of "addr + 16"] show ?case by force
qed simp

lemma row_entries_last:
  "rows \<noteq> [] \<Longrightarrow> row_entries addr rows \<noteq> [] \<and> last (row_entries addr rows) = (addr + 16 * (length rows - 1), last rows)"
proof (induction rows arbitrary: addr)
  case (Cons d rows)
  show ?case
  proof (cases "rows = []")
    case False
    then have "16 + 16 * (length rows - 1) = 16 * length rows" by (cases rows) auto
    with Cons.IH [OF False, of "addr + 16"] False show ?thesis by simp
  qed simp
qed simp

lemma sort_rows:
  assumes "mset es = mset (map (apfst int) (row_entries addr rows))"
  shows "sort_key fst es = map (apfst int) (row_entries addr rows)"
proof (rule sort_key_inj_key_eq [OF assms])
  have m: "map fst (map (apfst int) (row_entries addr rows)) = map int (map fst (row_entries addr rows))"
    by simp
  have "distinct (map fst (map (apfst int) (row_entries addr rows)))"
    unfolding m distinct_map [of int] by (intro conjI row_entries_sorted [THEN conjunct2] inj_onI) simp
  then show "inj_on fst (set es)"
    unfolding mset_eq_setD [OF assms] distinct_map [of fst] by (rule conjunct2)
  show "sorted (map fst (map (apfst int) (row_entries addr rows)))"
    unfolding m using row_entries_sorted [of addr rows] by (auto simp: sorted_map elim: sorted_wrt_mono_rel [rotated])
qed

text \<open>C39: A hex dump is read back whatever the order of its lines and whatever lies between them. When the lines
  of a console reply that look like data are the printed rows of an address range, in any order, the parsed
  bytes are the contents of that range. The range is the one of the rows that arrived: rows that are
  missing at its start shorten the result and move the rest of it to the front.\<close>

theorem parse_md_output_rows:
  assumes "list_all (list_all (\<lambda>b. \<not> line_end b)) ls"
    and "list_all (\<lambda>d. length d = 16) rows" "base + 16 * length rows \<le> 2 ^ 32"
    and "mset (filter (\<lambda>l. parse_md_line l \<noteq> None) ls) = mset (map (\<lambda>(addr, d). md_row addr d (gutter addr)) (row_entries base rows))"
  shows "parse_md_output (concat (map (\<lambda>l. l @ [13, 10]) ls)) = concat rows"
proof (cases "rows = []")
  case True
  then have "List.map_filter parse_md_line ls = []"
    using assms(4) by (simp add: List.map_filter_def)
  with True assms(1) show ?thesis by (simp add: parse_md_output_def splitlines_lines)
next
  case False
  let ?es = "map (apfst int) (row_entries base rows)"
  have row: "parse_md_line (md_row a d (gutter a)) = Some (int a, d)" if "(a, d) \<in> set (row_entries base rows)" for a d
    using row_entries_addr [OF that] row_entries_bound [OF that] assms(2,3) by (intro parse_md_row) (auto simp: list_all_iff)
  have "mset (List.map_filter parse_md_line ls) = image_mset (the \<circ> parse_md_line) (mset (filter (\<lambda>l. parse_md_line l \<noteq> None) ls))"
    by (simp add: List.map_filter_def)
  also have "\<dots> = mset ?es"
    unfolding assms(4) using row by (auto simp: multiset.map_comp intro!: image_mset_cong)
  finally have sorted: "sort_key fst (List.map_filter parse_md_line ls) = ?es" by (rule sort_rows)
  have len: "length d = 16" if "d \<in> set rows" for d using assms(2) that by (auto simp: list_all_iff)
  have last: "row_entries base rows \<noteq> []" "last (row_entries base rows) = (base + 16 * (length rows - 1), last rows)"
    using row_entries_last [OF False] by auto
  have hd: "fst (hd ?es) = int base" using False by (cases rows) auto
  have "16 * (length rows - 1) + 16 = 16 * length rows" using False by (cases rows) auto
  then have tot: "nat (fst (last ?es) - int base + int (length (snd (last ?es)))) = 16 * length rows"
    using last len [OF last_in_set [OF False]] by (simp add: last_map nat_add_distrib nat_mult_distrib)
  have "parse_md_output (concat (map (\<lambda>l. l @ [13, 10]) ls)) = fill base (replicate (16 * length rows) 0) ?es"
    unfolding parse_md_output_def splitlines_lines [OF assms(1)] sorted Let_def hd tot fill_def using last(1) by simp
  then show ?thesis using fill_rows [OF len, of rows base "[]"] by simp
qed

theorem parse_md_output_rows_witness:
  "parse_md_output (concat (map (\<lambda>l. l @ [13, 10])
     [ascii ''md.b 0x80 0x20'', md_row 0x90 (replicate 16 7) [], md_row 0x80 (replicate 16 0xAB) (ascii ''AB'')])) =
   replicate 16 0xAB @ replicate 16 7"
proof -
  have p: "parse_md_line (ascii ''md.b 0x80 0x20'') = None" by code_simp
  have "parse_md_output (concat (map (\<lambda>l. l @ [13, 10])
     [ascii ''md.b 0x80 0x20'', md_row 0x90 (replicate 16 7) [], md_row 0x80 (replicate 16 0xAB) (ascii ''AB'')])) =
     concat [replicate 16 0xAB, replicate 16 7]"
  proof (rule parse_md_output_rows [where base = "0x80" and gutter = "\<lambda>a. if a = 0x80 then ascii ''AB'' else []"])
    show "list_all (list_all (\<lambda>b. \<not> line_end b))
       [ascii ''md.b 0x80 0x20'', md_row 0x90 (replicate 16 7) [], md_row 0x80 (replicate 16 0xAB) (ascii ''AB'')]"
      by code_simp
  qed (simp_all add: p parse_md_row)
  then show ?thesis by simp
qed

section \<open>A dump ends\<close>

context timed_transport
begin

lemma command_loop_ends:
  "nat (start + timeout - tr_now T s) < fuel \<Longrightarrow> twp (command_loop T fuel start timeout w buf idle) s (\<lambda>_ _. True)"
proof (induction fuel arbitrary: s buf idle)
  case (Suc fuel)
  then show ?case by (auto simp: wp intro!: twp_readI split: sum.split)
qed simp

lemma console_command_ends:
  "nat timeout < fuel \<Longrightarrow> twp (console_command T fuel cmd timeout w) s (\<lambda>_ _. True)"
  unfolding console_command_def
  by (auto simp: wp intro!: twp_readI twp_writeI twp_bytes_waitingI command_loop_ends split: sum.split)

lemmas console_endsI = twp_mono [OF console_command_ends]

lemma read_block_ends:
  "120000000 < fuel \<Longrightarrow> 0 < remaining \<Longrightarrow>
   twp (read_block T fuel has_crc32 addr remaining left) s (\<lambda>r s'. case r of Inl _ \<Rightarrow> True | Inr d \<Rightarrow> d \<noteq> [])"
proof (induction left arbitrary: s)
  case 0
  then show ?case
    by (subst read_block.simps) (auto simp: wp get_device_crc32_def intro!: console_endsI split: sum.split)
next
  case (Suc left)
  then show ?case
    by (subst read_block.simps)
      (auto simp: wp get_device_crc32_def intro!: console_endsI twp_sleepI split: sum.split)
qed

lemma dump_loop_ends:
  assumes "120000000 < fuel" "\<And>a b s. returns (on_progress a b) s"
  shows "0 \<le> offset \<Longrightarrow> nat offset \<le> length f \<Longrightarrow> nat (flash_size - offset) \<le> n \<Longrightarrow>
    twp (dump_loop T fuel on_progress (io_return False) has_crc32 ram_addr flash_size n offset f) s
      (\<lambda>r s'. case r of Inl _ \<Rightarrow> True
         | Inr (off, f') \<Rightarrow> flash_size \<le> off \<and> offset \<le> off \<and> nat off \<le> length f' \<and> take (nat offset) f' = take (nat offset) f)"
proof (induction n arbitrary: offset f s)
  case 0
  then show ?case by (subst dump_loop.simps) (auto simp: wp)
next
  case (Suc n)
  have step: "twp (dump_loop T fuel on_progress (io_return False) has_crc32 ram_addr flash_size n (offset + int (length d)) (put_slice (nat offset) d f)) s1
      (\<lambda>r s'. case r of Inl _ \<Rightarrow> True
         | Inr (off, f') \<Rightarrow> flash_size \<le> off \<and> offset \<le> off \<and> nat off \<le> length f' \<and> take (nat offset) f' = take (nat offset) f)"
    if d: "d \<noteq> []" "offset < flash_size" for d s1
  proof (rule twp_mono [OF Suc.IH], goal_cases)
    case 1
    show ?case using Suc.prems by simp
  next
    case 2
    show ?case using Suc.prems by (simp add: put_slice_def nat_add_distrib)
  next
    case 3
    have "0 < length d" using d by simp
    then show ?case using Suc.prems by linarith
  next
    case (4 r s')
    have tk: "take (nat offset) x = take (nat offset) (take (nat (offset + int (length d))) x)" for x :: bytes
      using Suc.prems by (simp add: min_def nat_add_distrib)
    have put: "take (nat offset) (put_slice (nat offset) d f) = take (nat offset) f"
      using Suc.prems by (simp add: put_slice_def)
    show ?case
    proof (cases r)
      case (Inr p)
      obtain off f' where p: "p = (off, f')" by (cases p)
      have eq: "take (nat (offset + int (length d))) f' = take (nat (offset + int (length d))) (put_slice (nat offset) d f)"
        using 4 Inr p by simp
      have "take (nat offset) f' = take (nat offset) f"
        by (subst tk) (unfold eq tk [symmetric] put, rule refl)
      with 4 Inr p show ?thesis by simp
    qed simp
  qed
  have progress: "twp (on_progress a b) s1 Q" if "\<And>r s2. Q r s2" for a b s1 Q
    using assms(2) [of a b s1] that unfolding returns_twp by (rule twp_mono)
  show ?case
    using Suc.prems
    by (subst dump_loop.simps) (auto simp: wp Let_def CHUNK_def intro!: twp_mono [OF read_block_ends [OF assms(1)]] progress step
        split: sum.splits)
qed

lemma detect_flash_ends: "120000000 < fuel \<Longrightarrow> twp (detect_flash T fuel boot_log) s (\<lambda>_ _. True)"
  unfolding detect_flash_def by (auto simp: wp intro!: console_endsI split: sum.split option.split)

end

lemma resume_at_cases:
  assumes "resume_at existing flash_size = (offset, f)"
  shows "0 \<le> offset \<and> nat offset \<le> length f \<and> (case existing of None \<Rightarrow> offset = 0 | Some old \<Rightarrow> f = old \<or> offset = 0)"
proof -
  have "int (length x) div CHUNK * CHUNK \<le> int (length x)" for x :: bytes
    using div_mult_mod_eq [of "int (length x)" CHUNK] pos_mod_sign [of CHUNK "int (length x)"] by (simp add: CHUNK_def)
  note le = this
  show ?thesis
  proof (cases existing)
    case (Some old)
    then show ?thesis using assms le [of old]
      by (auto simp: resume_at_def Let_def nat_le_iff split: if_splits)
  qed (use assms in \<open>simp add: resume_at_def\<close>)
qed

text \<open>The outcome of a dump: the whole flash is in the file, behind what a resumed dump kept.\<close>

definition dumped :: "int option \<Rightarrow> bytes option \<Rightarrow> int \<Rightarrow> bytes \<Rightarrow> bool" where
  "dumped flash_size existing n f \<longleftrightarrow>
     (\<exists>sz. (case flash_size of None \<Rightarrow> True | Some k \<Rightarrow> sz = k) \<and> sz \<le> n \<and> nat n \<le> length f
       \<and> (case existing of None \<Rightarrow> True
          | Some old \<Rightarrow> take (nat (fst (resume_at existing sz))) f = take (nat (fst (resume_at existing sz))) old))"



section \<open>Short rows, and generated addresses\<close>

text \<open>A row of fewer than sixteen bytes takes in what its gutter shows as a pair of hex digits.\<close>

lemma md_line_takes_gutter:
  "parse_md_line (ascii ''82000000: 41 42    AB'') = Some (0x82000000, [0x41, 0x42, 0xAB])"
  by code_simp

lemma lower_hex_char: "d < 16 \<Longrightarrow> text_lower [hex_char d] = [hex_char d]"
proof -
  have "list_all (\<lambda>d. text_lower [hex_char d] = [hex_char d]) [0..<16]" by code_simp
  then show "d < 16 \<Longrightarrow> text_lower [hex_char d] = [hex_char d]" by (auto simp: list_all_iff)
qed

lemma lower_hex_byte: "text_lower (hex_byte b @ s) = hex_byte b @ text_lower s"
  using lower_hex_char [of "unat b div 16"] lower_hex_char [of "unat b mod 16"] unat_lt_256 [of b]
  by (simp add: text_lower_def hex_byte_def)

lemma lower_colon: "text_lower (58 # s) = 58 # text_lower s" "text_lower [] = []"
  by (simp_all add: text_lower_def)

lemma mac_octets_hex:
  "mac_octets 0 (hex_byte b)" "mac_octets (Suc n) (hex_byte b @ 58 # s) = mac_octets n s"
  using unat_lt_256 [of b] by (simp_all add: hex_byte_def hexval_hex_char)

text \<open>A generated address is well formed and is not taken for a missing one.\<close>

lemma generated_mac_is_set:
  assumes "length raw = 6"
  shows "\<not> is_unset_or_default_ethaddr (Some (generate_locally_administered_mac raw))"
proof -
  obtain r0 r1 r2 r3 r4 r5 where raw: "raw = [r0, r1, r2, r3, r4, r5]"
    using assms by (auto simp: eval_nat_numeral length_Suc_conv)
  obtain q where q: "q = (r0 AND 0xFC) OR 0x02" by blast
  have bit1: "bit q 1" unfolding q by (simp add: bit_or_iff)
  let ?v = "hex_byte q @ 58 # hex_byte r1 @ 58 # hex_byte r2 @ 58 # hex_byte r3 @ 58 # hex_byte r4 @ 58 # hex_byte r5"
  have v: "generate_locally_administered_mac raw = ?v"
    by (simp add: generate_locally_administered_mac_def raw q)
  have "unat q < 256" "unat r5 < 256" by (rule unat_lt_256)+
  then have "text_strip ?v = ?v"
    by (simp add: text_strip_def hex_byte_def hex_char_not_space del: word_ao_dist)
  moreover have "text_lower ?v = ?v" using lower_hex_byte [of r5 "[]"] by (simp add: lower_hex_byte lower_colon)
  moreover have "mac_octets 5 ?v" by (simp add: mac_octets_hex eval_nat_numeral del: mac_octets.simps)
  moreover have "?v \<noteq> text_lower OPENIPC_DEFAULT_ETHADDR"
  proof
    assume eq: "?v = text_lower OPENIPC_DEFAULT_ETHADDR"
    have "take 2 (text_lower OPENIPC_DEFAULT_ETHADDR) = hex_byte 0" by code_simp
    with arg_cong [OF eq, of "take 2"] have "hex_byte q = hex_byte 0" by (simp add: hex_byte_def)
    then have "Some (uint q div 16) = Some (uint (0 :: byte) div 16)" "Some (uint q mod 16) = Some (uint (0 :: byte) mod 16)"
      using hex_byte_digits [of q] hex_byte_digits [of 0] by metis+
    then have "uint q div 16 = 0" "uint q mod 16 = 0" by simp_all
    then have "uint q = 0" using mult_div_mod_eq [of 16 "uint q"] by simp
    then have "q = 0" by (simp add: uint_0_iff)
    with bit1 show False by simp
  qed
  ultimately show ?thesis by (simp add: is_unset_or_default_ethaddr_def v)
qed

end
