(* ===== verification/HostTools.thy ===== *)
theory HostTools
  imports Tftp Utf8
    "HOL-Library.Product_Lexorder" "HOL-Library.List_Lexorder" "HOL-Library.Char_ord"
begin

text \<open>
  What defib asks of the host: \<open>src/defib/network/ip_manager.py\<close> (a temporary address for the TFTP server),
  \<open>network/discovery.py\<close>, \<open>firmware.py\<close> (published images and their cache) and \<open>serial_ports.py\<close>. Commands of the
  operating system, sockets, HTTP and the port enumeration are parameters; a cache directory is the map
  of its files. A command that is not done in its time raises \<open>TimeoutError\<close>. Messages are left out.
\<close>

section \<open>Python strings\<close>

definition uspace :: "int \<Rightarrow> bool" where
  "uspace c \<longleftrightarrow> c = 32 \<or> 9 \<le> c \<and> c \<le> 13 \<or> 28 \<le> c \<and> c \<le> 31 \<or> c \<in> {0x85, 0xA0, 0x1680, 0x2028, 0x2029, 0x202F, 0x205F, 0x3000}
     \<or> 0x2000 \<le> c \<and> c \<le> 0x200A"

definition ustrip :: "ustr \<Rightarrow> ustr" where
  "ustrip s = rev (dropWhile uspace (rev (dropWhile uspace s)))"

definition uline_end :: "int \<Rightarrow> bool" where
  "uline_end c \<longleftrightarrow> 10 \<le> c \<and> c \<le> 13 \<or> 28 \<le> c \<and> c \<le> 30 \<or> c \<in> {0x85, 0x2028, 0x2029}"

function usplitlines :: "ustr \<Rightarrow> ustr list" where
  "usplitlines s =
     (if s = [] then []
      else let line = takeWhile (\<lambda>c. \<not> uline_end c) s; rest = dropWhile (\<lambda>c. \<not> uline_end c) s
           in line # usplitlines (if take 2 rest = [13, 10] then drop 2 rest else drop 1 rest))"
  by auto
termination
proof (relation "measure length", goal_cases)
  case (2 s x xa)
  have "length xa \<le> length s" "0 < length s" using 2 by (auto simp: length_dropWhile_le)
  then show ?case by (cases s; cases xa) auto
qed simp

declare usplitlines.simps [simp del]

text \<open>\<open>split(None, n)\<close>, and \<open>split()\<close> with as many splits as there are characters.\<close>

fun split_max :: "nat \<Rightarrow> ustr \<Rightarrow> ustr list" where
  "split_max n s =
     (let s' = dropWhile uspace s in
      if s' = [] then []
      else case n of
        0 \<Rightarrow> [s']
      | Suc m \<Rightarrow> takeWhile (\<lambda>c. \<not> uspace c) s' # split_max m (dropWhile (\<lambda>c. \<not> uspace c) s'))"

declare split_max.simps [simp del]

fun split_on :: "'a \<Rightarrow> 'a list \<Rightarrow> 'a list list" where
  "split_on d [] = [[]]"
| "split_on d (c # cs) =
     (if c = d then [] # split_on d cs
      else case split_on d cs of [] \<Rightarrow> [[c]] | p # ps \<Rightarrow> (c # p) # ps)"

section \<open>Addresses of network interfaces\<close>

datatype platform = Linux | Darwin | Win32 | Other_platform

record 's host =
  ho_platform :: platform
  ho_socket :: "('s, unit) io"
  ho_bind :: "ustr \<Rightarrow> ('s, unit) io"
  ho_run :: "ustr list \<Rightarrow> ('s, int \<times> ustr \<times> ustr) io"
  ho_run_within :: "usec \<Rightarrow> ustr list \<Rightarrow> ('s, int \<times> ustr \<times> ustr) io"
  ho_nameindex :: "('s, ustr list) io"
  ho_now :: "'s \<Rightarrow> usec"
  ho_sleep :: "usec \<Rightarrow> ('s, unit) io"

definition NETSH_LIST_CMD :: "ustr list" where
  "NETSH_LIST_CMD = [lit ''netsh'', lit ''interface'', lit ''show'', lit ''interface'']"

definition bindable :: "'s host \<Rightarrow> ustr \<Rightarrow> ('s, bool) io" where
  "bindable H ip =
     io_then (ho_socket H)
       (io_try (ho_bind H ip) (\<lambda>e. if is_os_error e then io_return False else io_raise e) (\<lambda>_. io_return True))"

fun wait_bindable_loop :: "'s host \<Rightarrow> nat \<Rightarrow> ustr \<Rightarrow> usec \<Rightarrow> ('s, bool) io" where
  "wait_bindable_loop H 0 ip deadline = io_diverge"
| "wait_bindable_loop H (Suc fuel) ip deadline =
     io_bind (bindable H ip) (\<lambda>ok.
       if ok then io_return True
       else io_bind (io_get (ho_now H)) (\<lambda>now.
         if now \<ge> deadline then io_return False
         else io_then (ho_sleep H 100000) (wait_bindable_loop H fuel ip deadline)))"

definition wait_until_bindable :: "'s host \<Rightarrow> nat \<Rightarrow> ustr \<Rightarrow> usec \<Rightarrow> ('s, bool) io" where
  "wait_until_bindable H fuel ip timeout =
     io_bind (io_get (ho_now H)) (\<lambda>t. wait_bindable_loop H fuel ip (t + timeout))"

fun ones :: "nat \<Rightarrow> nat" where
  "ones n = (if n = 0 then 0 else n mod 2 + ones (n div 2))"

declare ones.simps [simp del]

fun count_ones :: "ustr list \<Rightarrow> exn + nat" where
  "count_ones [] = Inr 0"
| "count_ones (p # ps) =
     (case int10 p of
        None \<Rightarrow> Inl ValueError
      | Some v \<Rightarrow> sum_bind (count_ones ps) (\<lambda>n. Inr (ones (nat \<bar>v\<bar>) + n)))"

definition netmask_to_prefix :: "ustr \<Rightarrow> exn + nat" where
  "netmask_to_prefix netmask =
     (let parts = split_on 46 netmask in if length parts \<noteq> 4 then Inr 24 else count_ones parts)"

definition add_command :: "platform \<Rightarrow> ustr \<Rightarrow> ustr \<Rightarrow> ustr \<Rightarrow> nat \<Rightarrow> ustr list option" where
  "add_command platform interface ip netmask prefix = (case platform of
     Linux \<Rightarrow> Some [lit ''ip'', lit ''addr'', lit ''add'', ip @ lit ''/'' @ lit (dec_digits prefix), lit ''dev'', interface]
   | Darwin \<Rightarrow> Some [lit ''ifconfig'', interface, lit ''alias'', ip, lit ''netmask'', netmask]
   | Win32 \<Rightarrow> Some [lit ''netsh'', lit ''interface'', lit ''ip'', lit ''add'', lit ''address'', interface, ip, netmask]
   | Other_platform \<Rightarrow> None)"

definition remove_command :: "platform \<Rightarrow> ustr \<Rightarrow> ustr \<Rightarrow> nat \<Rightarrow> ustr list option" where
  "remove_command platform interface ip prefix = (case platform of
     Linux \<Rightarrow> Some [lit ''ip'', lit ''addr'', lit ''del'', ip @ lit ''/'' @ lit (dec_digits prefix), lit ''dev'', interface]
   | Darwin \<Rightarrow> Some [lit ''ifconfig'', interface, lit ''-alias'', ip]
   | Win32 \<Rightarrow> Some [lit ''netsh'', lit ''interface'', lit ''ip'', lit ''delete'', lit ''address'', interface, ip]
   | Other_platform \<Rightarrow> None)"

text \<open>A failed removal is only logged.\<close>

definition remove_ip :: "'s host \<Rightarrow> ustr \<Rightarrow> ustr \<Rightarrow> ustr \<Rightarrow> ('s, unit) io" where
  "remove_ip H interface ip netmask =
     io_bind (io_lift (netmask_to_prefix netmask)) (\<lambda>prefix.
       case remove_command (ho_platform H) interface ip prefix of
         None \<Rightarrow> io_raise IPManagerError
       | Some cmd \<Rightarrow> io_then (ho_run H cmd) (io_return ()))"

definition undo_add :: "'s host \<Rightarrow> ustr \<Rightarrow> ustr \<Rightarrow> ustr \<Rightarrow> ('s, unit) io" where
  "undo_add H interface ip netmask = io_try (remove_ip H interface ip netmask) (\<lambda>_. io_return ()) io_return"

fun netsh_names :: "bool \<Rightarrow> ustr list \<Rightarrow> ustr list \<Rightarrow> ustr list" where
  "netsh_names seen_separator names [] = names"
| "netsh_names seen_separator names (line # ls) =
     (if startswith (lit ''---'') (ustrip line) then netsh_names True names ls
      else if \<not> seen_separator then netsh_names seen_separator names ls
      else case split_max 3 line of
        [_, _, _, f] \<Rightarrow>
          (let name = ustrip f
           in netsh_names seen_separator (if name \<noteq> [] \<and> name \<notin> set names then names @ [name] else names) ls)
      | _ \<Rightarrow> netsh_names seen_separator names ls)"

definition parse_netsh_interfaces :: "ustr \<Rightarrow> ustr list" where
  "parse_netsh_interfaces stdout = netsh_names False [] (usplitlines stdout)"

definition windows_interfaces_async :: "'s host \<Rightarrow> ('s, ustr list) io" where
  "windows_interfaces_async H =
     io_try (ho_run_within H 10000000 NETSH_LIST_CMD)
       (\<lambda>e. if is_os_error e then io_return [] else io_raise e)
       (\<lambda>(returncode, stdout, stderr). io_return (if returncode \<noteq> 0 then [] else parse_netsh_interfaces stdout))"

definition fallback_interfaces :: "platform \<Rightarrow> ustr list" where
  "fallback_interfaces platform = (case platform of
     Linux \<Rightarrow> [lit ''eth0'', lit ''enp0s3''] | Darwin \<Rightarrow> [lit ''en0'', lit ''en1'']
   | Win32 \<Rightarrow> [lit ''Ethernet'', lit ''Wi-Fi''] | Other_platform \<Rightarrow> [])"

text \<open>
  The synchronous listing asks netsh in the same way on Windows, and the socket library elsewhere, where a failure
  keeps what was listed: nothing.
\<close>

definition list_interfaces :: "'s host \<Rightarrow> ('s, ustr list) io" where
  "list_interfaces H =
     io_bind
       (if ho_platform H = Win32 then windows_interfaces_async H
        else io_try (ho_nameindex H) (\<lambda>e. if is_os_error e then io_return [] else io_raise e)
          (\<lambda>names. io_return (filter (\<lambda>n. n \<noteq> lit ''lo'') names)))
       (\<lambda>found. io_return (if found = [] then fallback_interfaces (ho_platform H) else found))"

definition list_interfaces_async :: "'s host \<Rightarrow> ('s, ustr list) io" where
  "list_interfaces_async H =
     (if ho_platform H = Win32 then
        io_bind (windows_interfaces_async H) (\<lambda>found.
          io_return (if found = [] then fallback_interfaces (ho_platform H) else found))
      else list_interfaces H)"

definition interface_name_advice :: "'s host \<Rightarrow> ('s, unit) io" where
  "interface_name_advice H =
     (if ho_platform H \<noteq> Win32 then io_return () else io_then (list_interfaces_async H) (io_return ()))"

definition add_ip :: "'s host \<Rightarrow> nat \<Rightarrow> ustr \<Rightarrow> ustr \<Rightarrow> ustr \<Rightarrow> ('s, bool) io" where
  "add_ip H fuel interface ip netmask =
     io_bind (io_lift (netmask_to_prefix netmask)) (\<lambda>prefix.
     io_bind (bindable H ip) (\<lambda>usable.
     if usable then io_return False
     else case add_command (ho_platform H) interface ip netmask prefix of
       None \<Rightarrow> io_raise IPManagerError
     | Some cmd \<Rightarrow>
         io_bind (ho_run H cmd) (\<lambda>(returncode, stdout, stderr).
         if returncode \<noteq> 0 then
           io_bind (bindable H ip) (\<lambda>usable.
           if usable then io_return False
           else io_then (interface_name_advice H) (io_raise IPManagerError))
         else
           io_bind (io_try (wait_until_bindable H fuel ip 10000000)
              (\<lambda>e. io_then (undo_add H interface ip netmask) (io_raise e)) io_return) (\<lambda>ready.
           if \<not> ready then io_then (undo_add H interface ip netmask) (io_raise IPManagerError)
           else io_return True))))"

text \<open>The context manager around the code that uses the address.\<close>

definition temporary_ip :: "'s host \<Rightarrow> nat \<Rightarrow> ustr \<Rightarrow> ustr \<Rightarrow> ustr \<Rightarrow> (ustr \<Rightarrow> ('s, 'a) io) \<Rightarrow> ('s, 'a) io" where
  "temporary_ip H fuel interface ip netmask body =
     io_bind (add_ip H fuel interface ip netmask) (\<lambda>added.
       io_finally (body ip) (if added then remove_ip H interface ip netmask else io_return ()))"

section \<open>Discovery\<close>

record DiscoveredDevice =
  dd_ip :: ustr
  dd_mac :: "ustr option"

definition discovery_received :: "ustr \<Rightarrow> DiscoveredDevice list \<Rightarrow> DiscoveredDevice list" where
  "discovery_received ip devices =
     (if list_ex (\<lambda>d. dd_ip d = ip) devices then devices else devices @ [\<lparr>dd_ip = ip, dd_mac = None\<rparr>])"

text \<open>\<open>parts.index(part)\<close> is the first place of the part, which is where the loop is.\<close>

definition arp_line :: "ustr \<Rightarrow> DiscoveredDevice option" where
  "arp_line line =
     (let parts = split_max (length line) line in
      if length parts < 3 then None
      else case List.find (\<lambda>i. startswith (lit ''('') (parts ! i) \<and> last (parts ! i) = 41) [0..<length parts] of
        None \<Rightarrow> None
      | Some i \<Rightarrow> Some \<lparr>dd_ip = butlast (drop 1 (parts ! i)), dd_mac = (if i + 2 < length parts then Some (parts ! (i + 2)) else None)\<rparr>)"

definition scan_arp_table :: "'s host \<Rightarrow> ('s, DiscoveredDevice list) io" where
  "scan_arp_table H =
     io_try (ho_run_within H 5000000 [lit ''arp'', if ho_platform H = Win32 then lit ''-a'' else lit ''-an''])
       (\<lambda>e. if is_os_error e then io_return [] else io_raise e)
       (\<lambda>(returncode, stdout, stderr). io_return (List.map_filter arp_line (usplitlines stdout)))"

section \<open>Published firmware\<close>

definition AVAILABLE_FIRMWARE :: "string list" where
  "AVAILABLE_FIRMWARE =
     [''gk7202v300'', ''gk7205v200'', ''gk7205v300'', ''gk7605v100'', ''hi3516av100'', ''hi3516av200'', ''hi3516av300'',
      ''hi3516cv100'', ''hi3516cv200'', ''hi3516cv300'', ''hi3516cv500'', ''hi3516dv100'', ''hi3516dv200'', ''hi3516dv300'',
      ''hi3516ev100'', ''hi3516ev200'', ''hi3516ev300'', ''hi3518av100'', ''hi3518cv100'', ''hi3518ev100'', ''hi3518ev200'',
      ''hi3518ev300'', ''hi3519v101'', ''hi3520dv200'', ''hi3536cv100'', ''hi3536dv100'', ''t40a'', ''t40n'', ''t40xp'']"

definition CV6XX_BOOT_VARIANTS :: "(string \<times> string list) list" where
  "CV6XX_BOOT_VARIANTS =
     [(''hi3516cv608'', []), (''hi3516cv610'', [''00g'', ''00s'', ''10b'', ''20g'', ''20s'']), (''hi3519dv500'', [''dmeb'', ''dmebpro''])]"

definition CHIP_TO_FIRMWARE :: "(string \<times> string) list" where
  "CHIP_TO_FIRMWARE =
     [(''hi3518ev201'', ''hi3518ev200''), (''hi3516dv100'', ''hi3516dv100''), (''gk7201v200'', ''gk7205v200''),
      (''gk7201v300'', ''gk7205v200''), (''gk7205v210'', ''gk7205v200'')]"

definition split_variant :: "string \<Rightarrow> string \<times> string option" where
  "split_variant chip =
     (let base = takeWhile (\<lambda>c. c \<noteq> CHR '':'') chip; variant = drop (length base + 1) chip
      in (base, if variant = [] then None else Some variant))"

definition firmware_name :: "string \<Rightarrow> string" where
  "firmware_name base = (case map_of CHIP_TO_FIRMWARE base of None \<Rightarrow> base | Some n \<Rightarrow> n)"

definition asset_name :: "string \<Rightarrow> string option" where
  "asset_name chip =
     (case split_variant chip of (base, variant) \<Rightarrow>
        (let name = firmware_name base in
         case map_of CV6XX_BOOT_VARIANTS name of
           Some variants \<Rightarrow>
             if variants = [] then Some (''boot-'' @ name @ ''-nor.bin'')
             else (case variant of
               Some v \<Rightarrow> if v \<in> set variants then Some (''boot-'' @ name @ ''-'' @ v @ ''-nor.bin'') else None
             | None \<Rightarrow> None)
         | None \<Rightarrow> if name \<in> set AVAILABLE_FIRMWARE then Some (''u-boot-'' @ name @ ''-universal.bin'') else None))"

definition firmware_url :: "string \<Rightarrow> string option" where
  "firmware_url chip =
     map_option (\<lambda>name. ''https://github.com/OpenIPC/firmware/releases/download/latest/'' @ name) (asset_name chip)"

definition legacy_cache_name :: "string \<Rightarrow> string" where
  "legacy_cache_name chip = ''u-boot-'' @ firmware_name (fst (split_variant chip)) @ ''-universal.bin''"

type_synonym cache = "string \<rightharpoonup> bytes"

definition get_cached_path :: "cache \<Rightarrow> string \<Rightarrow> string option" where
  "get_cached_path files chip =
     List.find (\<lambda>name. case files name of None \<Rightarrow> False | Some d \<Rightarrow> d \<noteq> [])
       ((case asset_name chip of None \<Rightarrow> [] | Some n \<Rightarrow> [n]) @ [legacy_cache_name chip])"

definition has_firmware :: "cache \<Rightarrow> string \<Rightarrow> bool" where
  "has_firmware files chip \<longleftrightarrow> firmware_url chip \<noteq> None \<or> get_cached_path files chip \<noteq> None"

definition pad_to_size :: "bytes \<Rightarrow> nat \<Rightarrow> byte \<Rightarrow> exn + bytes" where
  "pad_to_size data tgt fill =
     (if length data > tgt then Inl ValueError
      else Inr (data @ replicate (tgt - length data) fill))"

text \<open>
  A download: the request, the chunks until an empty one, and the file. Writing may fail and leave part of the data
  behind. Everything else that goes wrong is a \<open>ConnectionError\<close>.
\<close>

record 's mirror =
  mi_open :: "string \<Rightarrow> ('s, int) io"
  mi_read :: "nat \<Rightarrow> ('s, bytes) io"
  mi_write :: "string \<Rightarrow> bytes \<Rightarrow> ('s \<times> cache, unit) io"
  mi_progress :: "int \<Rightarrow> int \<Rightarrow> ('s, unit) io"

definition on_mirror :: "('s, 'a) io \<Rightarrow> ('s \<times> cache, 'a) io" where
  "on_mirror m = io_on fst (\<lambda>s w. (s, snd w)) m"

fun download_chunks :: "'s mirror \<Rightarrow> nat \<Rightarrow> int \<Rightarrow> bytes \<Rightarrow> ('s \<times> cache, bytes) io" where
  "download_chunks M 0 tot data = io_diverge"
| "download_chunks M (Suc fuel) tot data =
     io_bind (on_mirror (mi_read M 8192)) (\<lambda>chunk.
       if chunk = [] then io_return data
       else io_then (if tot \<noteq> 0 then on_mirror (mi_progress M (int (length (data @ chunk))) tot) else io_return ())
         (download_chunks M fuel tot (data @ chunk)))"

definition download_firmware :: "'s mirror \<Rightarrow> nat \<Rightarrow> string \<Rightarrow> ('s \<times> cache, string) io" where
  "download_firmware M fuel chip =
     io_bind (io_get (\<lambda>w. get_cached_path (snd w) chip)) (\<lambda>cached.
     case (firmware_url chip, asset_name chip) of
       (Some url, Some dest) \<Rightarrow> (case cached of
         Some p \<Rightarrow> io_return p
       | None \<Rightarrow>
           io_try
             (io_bind (on_mirror (mi_open M url)) (\<lambda>tot.
              io_bind (download_chunks M fuel tot []) (\<lambda>data.
              if length data < 1024 then io_raise ConnectionError
              else mi_write M dest data)))
             (\<lambda>e. io_then (io_modify (\<lambda>(s, files). (s, files(dest := None))))
                (if e = ValueError \<or> e = ConnectionError then io_raise e else io_raise ConnectionError))
             (\<lambda>_. io_return dest))
     | _ \<Rightarrow> (case cached of Some p \<Rightarrow> io_return p | None \<Rightarrow> io_raise ValueError))"

section \<open>Serial ports\<close>

definition alias_priority :: "string \<Rightarrow> nat \<times> string" where
  "alias_priority alias =
     (if take 10 alias = ''/dev/uart-'' then (0, alias)
      else if take 18 alias = ''/dev/serial/by-id/'' then (1, alias)
      else if take 20 alias = ''/dev/serial/by-path/'' then (2, alias)
      else (3, alias))"

definition preferred_alias :: "string list \<Rightarrow> string option" where
  "preferred_alias aliases = (case sort_key alias_priority aliases of [] \<Rightarrow> None | a # _ \<Rightarrow> Some a)"

record comport =
  co_device :: string
  co_description :: string
  co_manufacturer :: "string option"
  co_product :: "string option"
  co_serial_number :: "string option"
  co_location :: "string option"
  co_vid :: "int option"
  co_pid :: "int option"
  co_hwid :: string

record SerialPortInfo = comport +
  sp_open_path :: string
  sp_display_name :: string
  sp_alias_device :: "string option"

fun intersperse :: "string \<Rightarrow> string list \<Rightarrow> string" where
  "intersperse sep [] = []"
| "intersperse sep [x] = x"
| "intersperse sep (x # y # xs) = x @ sep @ intersperse sep (y # xs)"

definition given :: "string option \<Rightarrow> string list" where
  "given v = (case v of None \<Rightarrow> [] | Some s \<Rightarrow> if s = [] then [] else [s])"

definition port_identity :: "string option \<Rightarrow> string option \<Rightarrow> string \<Rightarrow> string" where
  "port_identity manufacturer product description =
     (let parts = given manufacturer @ given product
      in if parts \<noteq> [] then intersperse '' '' parts
         else if description \<noteq> [] then description else ''Unknown serial adapter'')"

definition port_display_name :: "string option \<Rightarrow> comport \<Rightarrow> string" where
  "port_display_name alias_device p =
     intersperse '' | ''
       ([(case given alias_device of a # _ \<Rightarrow> a @ '' -> '' @ co_device p | [] \<Rightarrow> co_device p),
         port_identity (co_manufacturer p) (co_product p) (co_description p)]
        @ map (\<lambda>l. ''loc '' @ l) (given (co_location p)) @ map (\<lambda>n. ''ser '' @ n) (given (co_serial_number p)))"

definition list_serial_ports :: "(string \<Rightarrow> string list) \<Rightarrow> comport list \<Rightarrow> SerialPortInfo list" where
  "list_serial_ports alias_map comports =
     map (\<lambda>p. let alias_device = preferred_alias (alias_map (co_device p)) in
        comport.extend p
          (SerialPortInfo.fields (case given alias_device of a # _ \<Rightarrow> a | [] \<Rightarrow> co_device p)
             (port_display_name alias_device p) alias_device))
       (sort_key co_device (filter (\<lambda>p. co_vid p \<noteq> None) comports))"

section \<open>Commands that are recorded\<close>

type_synonym commands = "(ustr list \<times> int) list"

definition quiet :: "('s, 'a) io \<Rightarrow> ('s \<times> commands, 'a) io" where
  "quiet m = io_on fst (\<lambda>s w. (s, snd w)) m"

text \<open>A command that cannot be started leaves no entry.\<close>

definition log_run :: "ustr list \<Rightarrow> ('s, int \<times> ustr \<times> ustr) io \<Rightarrow> ('s \<times> commands, int \<times> ustr \<times> ustr) io" where
  "log_run cmd m =
     io_bind (quiet m) (\<lambda>res. io_then (io_modify (\<lambda>(s, l). (s, l @ [(cmd, fst res)]))) (io_return res))"

definition logged_host :: "'s host \<Rightarrow> ('s \<times> commands) host" where
  "logged_host H =
     \<lparr>ho_platform = ho_platform H, ho_socket = quiet (ho_socket H), ho_bind = (\<lambda>ip. quiet (ho_bind H ip)),
      ho_run = (\<lambda>c. log_run c (ho_run H c)), ho_run_within = (\<lambda>t c. log_run c (ho_run_within H t c)),
      ho_nameindex = quiet (ho_nameindex H), ho_now = (\<lambda>w. ho_now H (fst w)), ho_sleep = (\<lambda>t. quiet (ho_sleep H t))\<rparr>"

lemma logged_host_sel:
  "ho_platform (logged_host H) = ho_platform H" "ho_socket (logged_host H) = quiet (ho_socket H)"
  "ho_bind (logged_host H) ip = quiet (ho_bind H ip)" "ho_run (logged_host H) c = log_run c (ho_run H c)"
  "ho_run_within (logged_host H) t c = log_run c (ho_run_within H t c)"
  "ho_nameindex (logged_host H) = quiet (ho_nameindex H)" "ho_sleep (logged_host H) t = quiet (ho_sleep H t)"
  by (simp_all add: logged_host_def)

lemma quiet_log: "wlp (quiet m) w (\<lambda>r w'. snd w' = snd w)"
  by (auto simp: wlp_def quiet_def io_on_def split: option.split)

lemma log_run_log:
  "wlp (log_run c m) w (\<lambda>r w'. case r of Inl _ \<Rightarrow> snd w' = snd w | Inr res \<Rightarrow> snd w' = snd w @ [(c, fst res)])"
  unfolding log_run_def by (auto simp: wp intro!: wlp_mono [OF quiet_log] split: sum.splits prod.split)

lemma bindable_log: "wlp (bindable (logged_host H) ip) w (\<lambda>r w'. snd w' = snd w)"
  unfolding bindable_def logged_host_sel
  by (auto simp: wp intro!: wlp_mono [OF quiet_log] split: sum.split)

lemma wait_log: "wlp (wait_until_bindable (logged_host H) fuel ip t) w (\<lambda>r w'. snd w' = snd w)"
proof -
  have "wlp (wait_bindable_loop (logged_host H) fuel ip d) w (\<lambda>r w'. snd w' = snd w)" for d
  proof (induction fuel arbitrary: w)
    case (Suc fuel)
    show ?case
      by (auto simp: wp logged_host_sel intro!: wlp_mono [OF bindable_log] wlp_mono [OF quiet_log] wlp_mono [OF Suc.IH] split: sum.split)
  qed (simp add: wp)
  then show ?thesis unfolding wait_until_bindable_def by (simp add: wp)
qed

lemma advice_log:
  "wlp (interface_name_advice (logged_host H)) w (\<lambda>r w'. \<exists>qs. list_all (\<lambda>q. fst q = NETSH_LIST_CMD) qs \<and> snd w' = snd w @ qs)"
  unfolding interface_name_advice_def list_interfaces_async_def windows_interfaces_async_def logged_host_sel
  by (auto simp: wp intro!: wlp_mono [OF log_run_log] split: sum.splits)

lemma remove_ip_log:
  assumes "netmask_to_prefix netmask = Inr prefix" "remove_command (ho_platform H) interface ip prefix = Some del"
  shows "wlp (remove_ip (logged_host H) interface ip netmask) w (\<lambda>r w'. case r of
    Inl _ \<Rightarrow> snd w' = snd w | Inr _ \<Rightarrow> \<exists>rc. snd w' = snd w @ [(del, rc)])"
  unfolding remove_ip_def assms logged_host_sel
  by (auto simp: wp assms intro!: wlp_mono [OF log_run_log] split: sum.splits)

lemma undo_add_log:
  assumes "netmask_to_prefix netmask = Inr prefix" "remove_command (ho_platform H) interface ip prefix = Some del"
  shows "wlp (undo_add (logged_host H) interface ip netmask) w (\<lambda>r w'. r = Inr () \<and>
    (snd w' = snd w \<or> (\<exists>rc. snd w' = snd w @ [(del, rc)])))"
  unfolding undo_add_def by (auto simp: wp intro!: wlp_mono [OF remove_ip_log [OF assms]] split: sum.splits)

text \<open>The traces of commands that leave the address of an interface as it was.\<close>

definition restored :: "ustr list \<Rightarrow> ustr list \<Rightarrow> bool \<Rightarrow> commands \<Rightarrow> bool" where
  "restored add del failed ks \<longleftrightarrow>
     ks = [] \<or> (\<exists>rc qs. rc \<noteq> 0 \<and> ks = (add, rc) # qs \<and> list_all (\<lambda>q. fst q = NETSH_LIST_CMD) qs)
     \<or> (\<exists>rc. ks = [(add, 0), (del, rc)]) \<or> failed \<and> ks = [(add, 0)]"

lemma restoredI [intro]:
  "restored add del b []" "rc \<noteq> 0 \<Longrightarrow> list_all (\<lambda>q. fst q = NETSH_LIST_CMD) qs \<Longrightarrow> restored add del b ((add, rc) # qs)"
  "restored add del b [(add, 0), (del, rc)]" "restored add del True [(add, 0)]"
  by (auto simp: restored_def)

lemma add_ip_log:
  assumes "netmask_to_prefix netmask = Inr prefix" "add_command (ho_platform H) interface ip netmask prefix = Some add"
    "remove_command (ho_platform H) interface ip prefix = Some del"
  shows "wlp (add_ip (logged_host H) fuel interface ip netmask) w (\<lambda>r w'. case r of
    Inl _ \<Rightarrow> \<exists>ks. snd w' = snd w @ ks \<and> restored add del True ks
  | Inr added \<Rightarrow> if added then snd w' = snd w @ [(add, 0)] else \<exists>ks. snd w' = snd w @ ks \<and> restored add del False ks)"
  unfolding add_ip_def assms logged_host_sel
  by (auto simp: wp assms intro!: wlp_mono [OF bindable_log] wlp_mono [OF log_run_log] wlp_mono [OF wait_log] wlp_mono [OF advice_log]
      wlp_mono [OF undo_add_log [OF assms(1,3)]] split: sum.splits) (auto simp: restored_def)


section \<open>Discovery and downloads\<close>

text \<open>Every address is listed once.\<close>

lemma discovery_distinct:
  "distinct (map dd_ip ds) \<Longrightarrow> distinct (map dd_ip (foldl (\<lambda>ds ip. discovery_received ip ds) ds ips))"
proof (induction ips arbitrary: ds)
  case (Cons ip ips)
  have "distinct (map dd_ip (discovery_received ip ds))"
    using Cons.prems by (auto simp: discovery_received_def list_ex_iff)
  then show ?case using Cons.IH by simp
qed simp

text \<open>A multi-board chip has no image without a variant; a published image is named after the chip.\<close>

lemma asset_name_needs_variant:
  "map_of CV6XX_BOOT_VARIANTS (firmware_name base) = Some (v # vs) \<Longrightarrow> CHR '':'' \<notin> set base \<Longrightarrow> asset_name base = None"
proof -
  assume a: "map_of CV6XX_BOOT_VARIANTS (firmware_name base) = Some (v # vs)" "CHR '':'' \<notin> set base"
  then have tw: "takeWhile (\<lambda>c. c \<noteq> CHR '':'') base = base" by (auto simp: takeWhile_eq_all_conv)
  have "split_variant base = (base, None)" unfolding split_variant_def Let_def tw by simp
  with a show "asset_name base = None" by (simp add: asset_name_def)
qed

lemma on_mirror_cache: "wlp (on_mirror m) w (\<lambda>r w'. snd w' = snd w)"
  by (auto simp: wlp_def on_mirror_def io_on_def split: option.split)

lemma download_chunks_cache:
  "wlp (download_chunks M fuel tot data) w (\<lambda>r w'. snd w' = snd w)"
proof (induction fuel arbitrary: tot data w)
  case (Suc fuel)
  show ?case
    by (auto simp: wp intro!: wlp_mono [OF on_mirror_cache] wlp_mono [OF Suc.IH] split: sum.split)
qed (simp add: wp)

text \<open>
  A download that fails leaves no file under the name it was to have; one that names a file found it in the
  cache or wrote at least a kilobyte to it. Writing is taken to store what it is given.
\<close>

lemma download_firmware_outcome:
  assumes "\<And>name d w. wlp (mi_write M name d) w (\<lambda>r w'. case r of Inl _ \<Rightarrow> True | Inr _ \<Rightarrow> snd w' = (snd w)(name \<mapsto> d))"
  shows "wlp (download_firmware M fuel chip) w (\<lambda>r w'. case r of
    Inr p \<Rightarrow> get_cached_path (snd w) chip = Some p \<and> snd w' = snd w \<or> (\<exists>d. snd w' = (snd w)(p \<mapsto> d) \<and> 1024 \<le> length d)
  | Inl e \<Rightarrow> e \<in> {ValueError, ConnectionError} \<and> (case asset_name chip of None \<Rightarrow> snd w' = snd w | Some n \<Rightarrow> snd w' n = None))"
  unfolding download_firmware_def firmware_url_def
  by (auto simp: wp intro!: wlp_mono [OF on_mirror_cache] wlp_mono [OF download_chunks_cache] wlp_mono [OF assms] split: sum.splits option.splits)

text \<open>Padding keeps the image and fills the partition.\<close>

lemma pad_to_size_fills:
  "pad_to_size d n b = Inr p \<Longrightarrow> length p = n \<and> take (length d) p = d \<and> set (drop (length d) p) \<subseteq> {b}"
  by (auto simp: pad_to_size_def split: if_splits)

end
