(* ===== verification/Spec2Isabelle.thy ===== *)
theory Spec2Isabelle
  imports Session AgentClient Rockusb Tftp DownloadCmd Ubi RackPod FlashDump HostTools
begin

text \<open>
  A verification of defib, a tool that recovers HiSilicon, Goke and Rockchip camera boards. This
  header describes the program, how its Python sources under \<open>src/defib\<close> are modelled, what the
  theorems show, and what is left out.

  \<^bold>\<open>The program.\<close> A recovery starts with a board whose boot ROM waits for code on a serial line or on USB.

  \<^item> A transport (\<open>transport/\<close>) carries bytes: a serial port, an RFC 2217 bridge, a socket, a rack
    pod. \<open>capture/\<close> wraps a transport in a recorder, and replays what was recorded.
  \<^item> A boot protocol (\<open>protocol/\<close>) speaks to the boot ROM: a handshake, then the SPL and U-Boot in
    checksummed, acknowledged frames. There are three families, and profiles (\<open>profiles/\<close>) with
    the addresses and register tables of each chip.
  \<^item> A session (\<open>recovery/session.py\<close>) picks the protocol, lets a power controller (\<open>power/\<close>)
    switch the board while the handshake runs, sends the firmware, retries, and stops U-Boot. Boards in
    a rack are booted by their pod instead (\<open>recovery/rack_fastboot.py\<close>).
  \<^item> Afterwards the flash is read and written: by an agent running in the board's RAM
    (\<open>agent/\<close>), by U-Boot commands in download mode (\<open>protocol/download_cmd.py\<close>), with images that the
    TFTP server serves (\<open>network/tftp_server.py\<close>) and \<open>ubi.py\<close> unpacks, or through hex dumps on the
    U-Boot console (\<open>flashdump.py\<close>).
  \<^item> Rockchip boards are recovered over USB (\<open>rockusb/\<close>): code for the boot ROM, then block commands to the
    loader that this code starts.

  \<^bold>\<open>How it is modelled.\<close> Python integers are \<^typ>\<open>int\<close>, \<open>bytes\<close> are lists of 8-bit words, times are whole
  microseconds. Exceptions are values of \<^typ>\<open>exn\<close>, one per class, without their messages. Code that
  performs I/O is a computation \<^typ>\<open>('s, 'a) io\<close> over a world \<^typ>\<open>'s\<close>: it returns an exception or a value
  together with the new world, or does not return (\<^const>\<open>None\<close>). What lies outside the sources (a
  serial port, a socket, the USB library, an HTTP client, a JSON reader, the clock) is a parameter of the
  definitions, mostly a record of computations over the same abstract world, so that the theorems hold for every
  behaviour of it. The state of an object is a record; its methods are computations over that record, or
  take and return it.

  \<^const>\<open>wlp\<close> and \<^const>\<open>twp\<close> are the partial and total correctness of a computation; their equations, collected in
  \<open>wp\<close>, carry most proofs. That a computation returns is always part of a \<^const>\<open>twp\<close> statement or stated on its
  own.

  \<^bold>\<open>Theories\<close>, in the order of their dependencies:

  \<^descr>[\<open>Prelude\<close>] computations, their calculus, slices, fixed-width integers.
  \<^descr>[\<open>Crc\<close>, \<open>Frames\<close>, \<open>Cobs\<close>, \<open>Utf8\<close>] codecs: \<open>protocol/crc.py\<close>, \<open>protocol/frames.py\<close>, \<open>agent/cobs.py\<close>, and the
    standard library's UTF-8. CRC by table equals polynomial division and detects bursts; frames, stuffing and
    UTF-8 round-trip.
  \<^descr>[\<open>Events\<close>, \<open>Transport\<close>, \<open>Capture\<close>, \<open>Recording\<close>] \<open>recovery/events.py\<close>, \<open>transport/base.py\<close>, \<open>transport/mock.py\<close>,
    \<open>capture/\<close>. The transport is a record of computations; \<open>timed_transport\<close> is its contract (reads
    with a timeout end and take time), interpreted on the mock and the replay transport.
    \<open>logged_transport\<close> says what each operation adds to a log and is interpreted on the recorder around any
    transport, which is shown to be transparent. The protocols are proved against this log.
  \<^descr>[\<open>Profiles\<close>] \<open>profiles/schema.py\<close>, \<open>profiles/loader.py\<close>: alias resolution ends on every directory.
  \<^descr>[\<open>Delivery\<close>, \<open>HisiStandard\<close>, \<open>HisiV500\<close>, \<open>HisiCV6xx\<close>] the three boot protocols. \<open>delivers\<close> is the abstract
    specification: frames, each repeated until acknowledged. Sending firmware refines it: success means the log holds
    complete transfers, and a receiver that drops repetitions decodes the payload from them. Handshakes succeed only after the
    board announced itself, and do so when it does.
  \<^descr>[\<open>Links\<close>] the real transports. RFC 2217 reads lose nothing, the serial transport keeps the transport contract,
    and the CV6xx protocol cannot hear anything over sockets.
  \<^descr>[\<open>Session\<close>] \<open>protocol/registry.py\<close>, \<open>protocol/base.py\<close>, \<open>recovery/session.py\<close>. What a session relies on is the locale
    \<open>recovery_protocol\<close>, interpreted on all three protocols. The event loop that interleaves power cycle and
    handshake is an arbitrary scheduler.
  \<^descr>[\<open>AgentProtocol\<close>, \<open>AgentClient\<close>] \<open>agent/protocol.py\<close>, \<open>agent/client.py\<close>: packets cut out of a byte stream, and the
    commands of the flash agent. \<open>observed_link\<close> and \<open>timed_link\<close> are the contracts of a link.
  \<^descr>[\<open>RockFrames\<close>, \<open>Rockusb\<close>] \<open>rockusb/\<close>: framing, loader files, devices and recovery. \<open>observed_usb\<close> is interpreted
    on a watched bus; what was written is read back, on the board asked for.
  \<^descr>[\<open>Tftp\<close>, \<open>DownloadCmd\<close>, \<open>Ubi\<close>] \<open>network/tftp_server.py\<close>, \<open>protocol/download_cmd.py\<close>, \<open>ubi.py\<close>.
  \<^descr>[\<open>RouterOs\<close>, \<open>RackPod\<close>] \<open>power/\<close> and \<open>recovery/rack_fastboot.py\<close>: the controllers, the RouterOS API with its sentences,
    the upload through a pod. \<open>observed_tcp\<close> is interpreted on a stream that records its writes; a port that is
    switched off and on again comes back in the mode it had.
  \<^descr>[\<open>FlashDump\<close>] \<open>flashdump.py\<close>, \<open>uboot_env.py\<close>: printed dumps parse back to their bytes, and a dump ends with the
    whole flash in the file. Regular expressions are matching functions over the bytes of the text.

  \<^descr>[\<open>HostTools\<close>] \<open>network/ip_manager.py\<close>, \<open>network/discovery.py\<close>, \<open>firmware.py\<close>, \<open>serial_ports.py\<close>: a temporary address is
    taken back exactly when this run added it; names of images, their cache, and the listing of ports.

  \<^bold>\<open>Bounds and fuel.\<close> Loops bounded by a count or by data are structural or have a measure. Loops that wait
  for the clock take fuel and do not return when it is used up. Over timed transports every round takes at least a
  microsecond, so fuel for the microseconds of the longest timeout is enough; the theorems say \<open>nat timeout < fuel\<close> or
  a constant such as \<open>4000000 < fuel\<close> and conclude that the code returns. The handshake of the standard
  protocol, and the reading of an API reply, have no bound in the code either: there the theorems speak of
  the rounds needed by a peer that answers.

  \<^bold>\<open>Not modelled.\<close> \<open>cli/\<close> and \<open>tui/\<close> (argument parsing, terminals and screens around the
  components above), \<open>transport/serial_platform.py\<close> (opening ports with the settings of a platform), the C
  sources of the agent, which the host knows by its protocol only, and the browser version. Of the modelled files, log
  output, messages for the user, progress percentages in floating point, and the opening of ports and sockets
  are left out.
\<close>

end
